(* ===== verification/Kbn_Prelude.thy ===== *)
theory Kbn_Prelude
  imports Main "HOL-Library.Word" "HOL-Library.Monad_Syntax"
begin

unbundle bit_operations_syntax

section \<open>Shared vocabulary of the development\<close>

text \<open>
  The types of the machine integers the C code uses, byte-string segments
  (\<open>seg\<close> reads a run of bytes, \<open>patch\<close> overwrites one), little-endian
  encoding of words, and the lemma collections the component theories share.
  Collections: \<open>segs\<close> holds the laws of segments, \<open>endian\<close> the laws of
  byte encodings, \<open>mem_simps\<close> the rules that evaluate packet accesses whose
  bounds are known.
\<close>

named_theorems segs
named_theorems endian
named_theorems mem_simps

type_synonym u8 = "8 word"
type_synonym u16 = "16 word"
type_synonym u32 = "32 word"
type_synonym u64 = "64 word"
type_synonym s32 = "32 word"

subsection \<open>Segments of byte strings\<close>

definition seg :: "nat \<Rightarrow> nat \<Rightarrow> 'a list \<Rightarrow> 'a list" where
  "seg p n xs = take n (drop p xs)"

definition patch :: "nat \<Rightarrow> 'a list \<Rightarrow> 'a list \<Rightarrow> 'a list" where
  "patch p bs xs = take p xs @ bs @ drop (p + length bs) xs"

lemma length_seg [simp]: "p + n \<le> length xs \<Longrightarrow> length (seg p n xs) = n"
  by (simp add: seg_def)

lemma length_seg_le [simp]: "length (seg p n xs) \<le> n"
  by (simp add: seg_def)

lemma seg_0 [simp]: "seg p 0 xs = []"
  by (simp add: seg_def)

lemma length_patch [simp]: "p + length bs \<le> length xs \<Longrightarrow> length (patch p bs xs) = length xs"
  by (simp add: patch_def)

lemma nth_seg [simp]: "i < n \<Longrightarrow> p + n \<le> length xs \<Longrightarrow> seg p n xs ! i = xs ! (p + i)"
  by (simp add: seg_def)

lemma nth_patch:
  "p + length bs \<le> length xs \<Longrightarrow> i < length xs \<Longrightarrow>
   patch p bs xs ! i = (if p \<le> i \<and> i < p + length bs then bs ! (i - p) else xs ! i)"
  by (auto simp: patch_def nth_append min_def)

lemma seg_patch_same [segs]:
  "p + length bs \<le> length xs \<Longrightarrow> n = length bs \<Longrightarrow> seg p n (patch p bs xs) = bs"
  by (simp add: seg_def patch_def)

lemma seg_patch_other [segs]:
  assumes "q + length bs \<le> length xs" and "p + n \<le> length xs"
    and "p + n \<le> q \<or> q + length bs \<le> p"
  shows "seg p n (patch q bs xs) = seg p n xs"
  by (rule nth_equalityI) (use assms in \<open>auto simp: nth_patch\<close>)

lemma patch_seg_id [segs]: "p + n \<le> length xs \<Longrightarrow> patch p (seg p n xs) xs = xs"
  by (simp add: seg_def patch_def min_def)
    (metis append_take_drop_id drop_drop add.commute)

lemma patch_commute:
  assumes "p + length as \<le> length xs" and "q + length bs \<le> length xs"
    and "p + length as \<le> q \<or> q + length bs \<le> p"
  shows "patch p as (patch q bs xs) = patch q bs (patch p as xs)"
  by (rule nth_equalityI) (use assms in \<open>auto simp: nth_patch\<close>)

lemma patch_overwrite [segs]:
  "p + length as \<le> length xs \<Longrightarrow> length bs = length as \<Longrightarrow>
   patch p bs (patch p as xs) = patch p bs xs"
  by (rule nth_equalityI) (auto simp: nth_patch)

lemma seg_seg:
  "q + m \<le> n \<Longrightarrow> p + n \<le> length xs \<Longrightarrow> seg q m (seg p n xs) = seg (p + q) m xs"
  by (rule nth_equalityI) (auto simp: add.assoc)

lemma seg_patch_within:
  assumes "d \<le> p" and "p + length bs \<le> d + n" and "d + n \<le> length xs"
  shows "seg d n (patch p bs xs) = patch (p - d) bs (seg d n xs)"
  by (rule nth_equalityI) (use assms in \<open>auto simp: nth_patch add.commute\<close>)

lemma patch_append:
  "length a = p \<Longrightarrow> length b = length bs \<Longrightarrow> patch p bs (a @ b @ c) = a @ bs @ c"
  by (simp add: patch_def)

lemma seg_append:
  "length a = p \<Longrightarrow> length b = n \<Longrightarrow> seg p n (a @ b @ c) = b"
  by (simp add: seg_def)

lemma drop_eq_seg_append:
  "p + n \<le> length xs \<Longrightarrow> drop p xs = seg p n xs @ drop (p + n) xs"
  by (simp add: seg_def) (metis append_take_drop_id drop_drop add.commute)

subsection \<open>Little-endian encoding of words\<close>

fun le_dec :: "u8 list \<Rightarrow> 'a::len word" where
  "le_dec [] = 0"
| "le_dec (b # bs) = ucast b OR push_bit 8 (le_dec bs)"

fun le_enc :: "nat \<Rightarrow> 'a::len word \<Rightarrow> u8 list" where
  "le_enc 0 w = []"
| "le_enc (Suc n) w = ucast w # le_enc n (drop_bit 8 w)"

lemma length_le_enc [simp, endian]: "length (le_enc n w) = n"
  by (induction n arbitrary: w) auto

lemma le_dec_enc_take: "le_dec (le_enc n (w :: 'a::len word)) = take_bit (8 * n) w"
proof (induction n arbitrary: w)
  case 0
  then show ?case by simp
next
  case (Suc n)
  show ?case
    by (rule bit_word_eqI) (auto simp: Suc bit_simps)
qed

lemma le_dec_enc [endian]: "LENGTH('a) \<le> 8 * n \<Longrightarrow> le_dec (le_enc n (w :: 'a::len word)) = w"
  by (auto simp: le_dec_enc_take bit_eq_iff bit_simps dest: bit_imp_le_length)

lemma bit_le_dec:
  "bit (le_dec bs :: 'a::len word) k \<longleftrightarrow>
   k < LENGTH('a) \<and> k div 8 < length bs \<and> bit (bs ! (k div 8)) (k mod 8)"
proof (induction bs arbitrary: k)
  case Nil
  then show ?case by simp
next
  case (Cons b bs)
  show ?case
  proof (cases "k < 8")
    case True
    then show ?thesis by (auto simp: bit_simps)
  next
    case False
    then obtain j where j: "k = j + 8" by (metis add.commute le_iff_add not_less)
    have "\<not> bit b (j + 8)" by (auto dest: bit_imp_le_length)
    moreover have "(j + 8) div 8 = Suc (j div 8)" and "(j + 8) mod 8 = j mod 8" by auto
    ultimately show ?thesis by (auto simp: j bit_simps Cons)
  qed
qed

lemma le_enc_dec [endian]:
  "n = length bs \<Longrightarrow> 8 * length bs \<le> LENGTH('a) \<Longrightarrow> le_enc n (le_dec bs :: 'a::len word) = bs"
proof (induction bs arbitrary: n)
  case Nil
  then show ?case by simp
next
  case (Cons b bs)
  have "ucast (ucast b OR push_bit 8 (le_dec bs) :: 'a word) = b"
    by (rule bit_word_eqI) (use Cons.prems in \<open>auto simp: bit_simps\<close>)
  moreover have "drop_bit 8 (ucast b OR push_bit 8 (le_dec bs) :: 'a word) = le_dec bs"
    by (rule bit_word_eqI)
      (use Cons.prems in \<open>auto simp: bit_simps bit_le_dec dest: bit_imp_le_length\<close>)
  ultimately show ?case using Cons by simp
qed

lemma seg_Suc_0 [simp]: "p < length xs \<Longrightarrow> seg p (Suc 0) xs = [xs ! p]"
  by (simp add: seg_def take_Suc_conv_app_nth Cons_nth_drop_Suc [symmetric])

lemma le_dec_single [simp]: "(le_dec [b] :: u8) = b"
  by simp

lemma unat_of_nat_u32: "n < 2 ^ 32 \<Longrightarrow> unat (of_nat n :: u32) = n"
  by (simp add: unsigned_of_nat take_bit_nat_eq_self)

lemma unat_of_nat_u16: "n < 2 ^ 16 \<Longrightarrow> unat (of_nat n :: u16) = n"
  by (simp add: unsigned_of_nat take_bit_nat_eq_self)

lemma sint_of_int_small: "- (2 ^ 31) \<le> k \<Longrightarrow> k < 2 ^ 31 \<Longrightarrow> sint (of_int k :: u32) = k"
  by (simp add: signed_of_int signed_take_bit_int_eq_self)

lemma unat_ucast_wider [simp]: "LENGTH('a) \<le> LENGTH('b) \<Longrightarrow> unat (ucast (x :: 'a::len word) :: 'b::len word) = unat x"
proof -
  assume "LENGTH('a) \<le> LENGTH('b)"
  then have "(2 :: nat) ^ LENGTH('a) \<le> 2 ^ LENGTH('b)" by (rule power_increasing) simp
  then have "unat x < 2 ^ LENGTH('b)" by (rule order_less_le_trans [OF unsigned_less])
  then show ?thesis by (simp add: unsigned_ucast_eq take_bit_nat_eq_self)
qed

subsection \<open>Reading words from byte strings\<close>

text \<open>A word of \<open>n\<close> bytes at position \<open>p\<close>; reading past the end is a fault.\<close>

definition rd :: "nat \<Rightarrow> u8 list \<Rightarrow> nat \<Rightarrow> 'a::len word option" where
  "rd n bs p = (if p + n \<le> length bs then Some (le_dec (seg p n bs)) else None)"

lemma rd_Some [simp]: "p + n \<le> length bs \<Longrightarrow> rd n bs p = Some (le_dec (seg p n bs))"
  by (simp add: rd_def)

definition wr :: "nat \<Rightarrow> u8 list \<Rightarrow> nat \<Rightarrow> 'a::len word \<Rightarrow> u8 list option" where
  "wr n bs p w = (if p + n \<le> length bs then Some (patch p (le_enc n w) bs) else None)"

lemma wr_Some [simp]: "p + n \<le> length bs \<Longrightarrow> wr n bs p w = Some (patch p (le_enc n w) bs)"
  by (simp add: wr_def)

lemma patch_front: "p + length bs \<le> length a \<Longrightarrow> patch p bs (a @ c) = patch p bs a @ c"
  by (simp add: patch_def)

lemma patch_back: "p = length a + k \<Longrightarrow> patch p bs (a @ c) = a @ patch k bs c"
  by (simp add: patch_def)

lemma seg_take [simp]: "p + n \<le> k \<Longrightarrow> seg p n (take k xs) = seg p n xs"
  by (simp add: seg_def drop_take min_def)

lemma seg_middle: "k + n \<le> length b \<Longrightarrow> p = length a + k \<Longrightarrow> seg p n (a @ b @ c) = seg k n b"
  by (simp add: seg_def)

lemma seg_prefix: "p + n \<le> length a \<Longrightarrow> seg p n (a @ b) = seg p n a"
  by (simp add: seg_def)

lemma seg_suffix: "p = length a + k \<Longrightarrow> seg p n (a @ b) = seg k n b"
  by (simp add: seg_def)

lemma rd_middle: "k + n \<le> length b \<Longrightarrow> p = length a + k \<Longrightarrow> rd n (a @ b @ c) p = rd n b k"
  by (simp add: rd_def seg_middle)

end
