(* ===== verification/Bpf_Endian.thy ===== *)
theory Bpf_Endian
  imports Kbn_Prelude
begin

unbundle bit_operations_syntax

section \<open>Byte order conversion\<close>

text \<open>
  \<open>lib/libbpf/src/bpf_endian.h\<close> on a little-endian target, which is the target of
  the checked-in \<open>xdp_echo_kern.ll\<close> (its data layout starts with \<open>e\<close>). The header
  has two implementations of every conversion: the shift macros, used on compile-time
  constants, and the compiler's byte-swap builtins, used on run-time values. The builtin
  reverses the bytes of its argument. The theory shows that the two agree, so that
  \<open>bpf_htons (ETH_P_IP)\<close> (a constant) and \<open>bpf_ntohs\<close> of a loaded field (a
  run-time value) can be compared with one another.
\<close>

definition builtin_bswap16 :: "u16 \<Rightarrow> u16" where
  "builtin_bswap16 x = le_dec (rev (le_enc 2 x))"

definition builtin_bswap32 :: "u32 \<Rightarrow> u32" where
  "builtin_bswap32 x = le_dec (rev (le_enc 4 x))"

definition builtin_bswap64 :: "u64 \<Rightarrow> u64" where
  "builtin_bswap64 x = le_dec (rev (le_enc 8 x))"

text \<open>
  The macro \<open>___bpf_mvb(x, b, n, m)\<close>. A \<open>__u16\<close> operand is promoted to
  \<open>int\<close> before it is shifted, so the 16-bit instance shifts in 32 bits; the other
  two instances shift at their own width.
\<close>

definition bpf_mvb16 :: "u16 \<Rightarrow> nat \<Rightarrow> nat \<Rightarrow> s32" where
  "bpf_mvb16 x n m =
     push_bit (m * 8) (drop_bit (16 - 8) (push_bit (16 - (n + 1) * 8) (ucast x)))"

definition bpf_mvb32 :: "u32 \<Rightarrow> nat \<Rightarrow> nat \<Rightarrow> u32" where
  "bpf_mvb32 x n m =
     push_bit (m * 8) (drop_bit (32 - 8) (push_bit (32 - (n + 1) * 8) x))"

definition bpf_mvb64 :: "u64 \<Rightarrow> nat \<Rightarrow> nat \<Rightarrow> u64" where
  "bpf_mvb64 x n m =
     push_bit (m * 8) (drop_bit (64 - 8) (push_bit (64 - (n + 1) * 8) x))"

definition bpf_swab16 :: "u16 \<Rightarrow> u16" where
  "bpf_swab16 x = ucast (bpf_mvb16 x 0 1 OR bpf_mvb16 x 1 0)"

definition bpf_swab32 :: "u32 \<Rightarrow> u32" where
  "bpf_swab32 x =
     bpf_mvb32 x 0 3 OR bpf_mvb32 x 1 2 OR bpf_mvb32 x 2 1 OR bpf_mvb32 x 3 0"

definition bpf_swab64 :: "u64 \<Rightarrow> u64" where
  "bpf_swab64 x =
     bpf_mvb64 x 0 7 OR bpf_mvb64 x 1 6 OR bpf_mvb64 x 2 5 OR bpf_mvb64 x 3 4 OR
     bpf_mvb64 x 4 3 OR bpf_mvb64 x 5 2 OR bpf_mvb64 x 6 1 OR bpf_mvb64 x 7 0"

text \<open>
  The public conversions. The first argument is \<open>__builtin_constant_p(x)\<close>, which
  the compiler decides; \<open>swab_agree\<close> below shows that the result does not depend on it.
\<close>

definition bpf_htons_gen :: "bool \<Rightarrow> u16 \<Rightarrow> u16" where
  "bpf_htons_gen const x = (if const then bpf_swab16 x else builtin_bswap16 x)"

definition bpf_htonl_gen :: "bool \<Rightarrow> u32 \<Rightarrow> u32" where
  "bpf_htonl_gen const x = (if const then bpf_swab32 x else builtin_bswap32 x)"

definition bpf_cpu_to_be64_gen :: "bool \<Rightarrow> u64 \<Rightarrow> u64" where
  "bpf_cpu_to_be64_gen const x = (if const then bpf_swab64 x else builtin_bswap64 x)"

definition bpf_htons :: "u16 \<Rightarrow> u16" where
  "bpf_htons x = builtin_bswap16 x"

definition bpf_ntohs :: "u16 \<Rightarrow> u16" where
  "bpf_ntohs x = builtin_bswap16 x"

definition bpf_htonl :: "u32 \<Rightarrow> u32" where
  "bpf_htonl x = builtin_bswap32 x"

definition bpf_ntohl :: "u32 \<Rightarrow> u32" where
  "bpf_ntohl x = builtin_bswap32 x"

lemma le_enc_eq_map:
  "le_enc n (w :: 'a::len word) = map (\<lambda>i. ucast (drop_bit (8 * i) w)) [0..<n]"
proof (induction n arbitrary: w)
  case 0
  then show ?case by simp
next
  case (Suc n)
  have "le_enc (Suc n) w = ucast w # map (\<lambda>i. ucast (drop_bit (8 * Suc i) w)) [0..<n]"
    by (simp add: Suc drop_bit_drop_bit add.commute)
  also have "\<dots> = map (\<lambda>i. ucast (drop_bit (8 * i) w)) [0..<Suc n]"
    by (simp only: upt_conv_Cons[of 0 "Suc n"] map_Suc_upt [symmetric] list.map map_map
        comp_def zero_less_Suc drop_bit_0 mult_0_right id_apply)
  finally show ?case .
qed

lemma bit_bswap:
  assumes "LENGTH('a) = 8 * n"
  shows "bit (le_dec (rev (le_enc n (w :: 'a::len word))) :: 'a word) k \<longleftrightarrow>
    k < LENGTH('a) \<and> bit w (8 * (n - Suc (k div 8)) + k mod 8)"
  using assms by (auto simp: bit_le_dec rev_nth le_enc_eq_map bit_simps)

lemma bswap16_invol [simp, endian]: "builtin_bswap16 (builtin_bswap16 x) = x"
  by (simp add: builtin_bswap16_def le_enc_dec le_dec_enc)

lemma bswap32_invol [simp, endian]: "builtin_bswap32 (builtin_bswap32 x) = x"
  by (simp add: builtin_bswap32_def le_enc_dec le_dec_enc)

lemma bswap64_invol [simp, endian]: "builtin_bswap64 (builtin_bswap64 x) = x"
  by (simp add: builtin_bswap64_def le_enc_dec le_dec_enc)

lemma ntohs_htons [simp, endian]: "bpf_ntohs (bpf_htons x) = x" "bpf_htons (bpf_ntohs x) = x"
  by (simp_all add: bpf_ntohs_def bpf_htons_def)

lemma ntohl_htonl [simp, endian]: "bpf_ntohl (bpf_htonl x) = x" "bpf_htonl (bpf_ntohl x) = x"
  by (simp_all add: bpf_ntohl_def bpf_htonl_def)

text \<open>
  One byte lane of the shift macro: bit \<open>k\<close> of the result is in lane \<open>m\<close> and comes
  from lane \<open>n\<close> of the operand.
\<close>

lemma lane_iff:
  "8 * m \<le> k \<and> k < 8 * m + 8 \<and> P (k - 8 * m) \<longleftrightarrow> k div 8 = m \<and> P (k mod 8)" for k :: nat
proof -
  have "k mod 8 = k - 8 * m" if "k div 8 = m" using that by (simp add: modulo_nat_def mult.commute)
  moreover have "k div 8 = m \<longleftrightarrow> 8 * m \<le> k \<and> k < 8 * m + 8" by auto
  ultimately show ?thesis by auto
qed

lemma bit_mvb32:
  assumes "n < 4" and "m < 4" and "k < 32"
  shows "bit (bpf_mvb32 x n m) k \<longleftrightarrow> k div 8 = m \<and> bit x (8 * n + k mod 8)"
proof -
  have "bit (bpf_mvb32 x n m) k \<longleftrightarrow> 8 * m \<le> k \<and> k < 8 * m + 8 \<and> bit x (8 * n + (k - 8 * m))"
    using assms by (auto simp: bpf_mvb32_def bit_simps algebra_simps)
  then show ?thesis using lane_iff [of m k "\<lambda>i. bit x (8 * n + i)"] by simp
qed

lemma bit_mvb64:
  assumes "n < 8" and "m < 8" and "k < 64"
  shows "bit (bpf_mvb64 x n m) k \<longleftrightarrow> k div 8 = m \<and> bit x (8 * n + k mod 8)"
proof -
  have "bit (bpf_mvb64 x n m) k \<longleftrightarrow> 8 * m \<le> k \<and> k < 8 * m + 8 \<and> bit x (8 * n + (k - 8 * m))"
    using assms by (auto simp: bpf_mvb64_def bit_simps algebra_simps)
  then show ?thesis using lane_iff [of m k "\<lambda>i. bit x (8 * n + i)"] by simp
qed

lemma bit_mvb16:
  assumes "n < 2" and "m < 2" and "n \<noteq> m" and "k < 16"
  shows "bit (bpf_mvb16 x n m) k \<longleftrightarrow> k div 8 = m \<and> bit x (8 * n + k mod 8)"
proof -
  have "bit (bpf_mvb16 x n m) k \<longleftrightarrow> 8 * m \<le> k \<and> bit x (8 * n + (k - 8 * m))"
    using assms by (auto simp: bpf_mvb16_def bit_simps algebra_simps less_2_cases_iff)
  moreover have "\<not> bit x (8 * n + (k - 8 * m))" if "8 * m + 8 \<le> k"
    using that assms by (auto simp: less_2_cases_iff dest: bit_imp_le_length)
  ultimately show ?thesis
    using lane_iff [of m k "\<lambda>i. bit x (8 * n + i)"] by (meson not_less)
qed

lemma less_8_cases:
  "(n :: nat) < 8 \<Longrightarrow> n = 0 \<or> n = 1 \<or> n = 2 \<or> n = 3 \<or> n = 4 \<or> n = 5 \<or> n = 6 \<or> n = 7"
  by linarith

lemma swab16_eq: "bpf_swab16 x = builtin_bswap16 x"
proof (rule bit_word_eqI)
  fix k assume k: "k < LENGTH(16)"
  then have "k div 8 < 2" by simp
  with k show "bit (bpf_swab16 x) k = bit (builtin_bswap16 x) k"
    by (auto simp: builtin_bswap16_def bpf_swab16_def bit_bswap bit_simps bit_mvb16
        less_2_cases_iff)
qed

lemma swab32_eq: "bpf_swab32 x = builtin_bswap32 x"
proof (rule bit_word_eqI)
  fix k assume k: "k < LENGTH(32)"
  then have "k div 8 < 4" by simp
  then have "k div 8 < 8" by simp
  then show "bit (bpf_swab32 x) k = bit (builtin_bswap32 x) k"
    using k by (elim less_8_cases [THEN disjE] disjE)
      (simp_all add: builtin_bswap32_def bpf_swab32_def bit_bswap bit_or_iff bit_mvb32)
qed

lemma swab64_eq: "bpf_swab64 x = builtin_bswap64 x"
proof (rule bit_word_eqI)
  fix k assume k: "k < LENGTH(64)"
  then have "k div 8 < 8" by simp
  then have "k div 8 < 8" by simp
  then show "bit (bpf_swab64 x) k = bit (builtin_bswap64 x) k"
    using k by (elim less_8_cases [THEN disjE] disjE)
      (simp_all add: builtin_bswap64_def bpf_swab64_def bit_bswap bit_or_iff bit_mvb64)
qed

lemmas swab_agree = swab16_eq swab32_eq swab64_eq

end
