(* ===== verification/Xdp_Packet.thy ===== *)
theory Xdp_Packet
  imports Bpf_Endian
begin

unbundle bit_operations_syntax

section \<open>Packet memory as an XDP program sees it\<close>

text \<open>
  An XDP program gets a \<open>struct xdp_md\<close> whose \<open>data\<close> and \<open>data_end\<close> delimit the
  packet inside the driver's frame, and it may only touch bytes between the two. Pointers
  are indices into the frame. Every load and store is checked: an access outside
  \<open>[data, data_end)\<close> is \<open>None\<close>, a fault, so that \<open>prog ctx = Some r\<close> says both
  that the program returned and that all of its accesses were in bounds.
  Multi-byte loads and stores are little-endian, the byte order of the target; fields in
  network order are converted with \<open>Bpf_Endian\<close> where the source converts them.
\<close>

type_synonym ptr = nat

record xdp_md =
  frame :: "u8 list"
  data :: ptr
  data_end :: ptr

datatype xdp_action = XDP_ABORTED | XDP_DROP | XDP_PASS | XDP_TX | XDP_REDIRECT

fun action_u32 :: "xdp_action \<Rightarrow> u32" where
  "action_u32 XDP_ABORTED = 0"
| "action_u32 XDP_DROP = 1"
| "action_u32 XDP_PASS = 2"
| "action_u32 XDP_TX = 3"
| "action_u32 XDP_REDIRECT = 4"

definition wf_ctx :: "xdp_md \<Rightarrow> bool" where
  "wf_ctx ctx \<longleftrightarrow> data ctx \<le> data_end ctx \<and> data_end ctx \<le> length (frame ctx)"

definition packet :: "xdp_md \<Rightarrow> u8 list" where
  "packet ctx = seg (data ctx) (data_end ctx - data ctx) (frame ctx)"

text \<open>The bytes of the frame in front of and behind the packet.\<close>

definition outside :: "xdp_md \<Rightarrow> u8 list \<times> u8 list" where
  "outside ctx = (take (data ctx) (frame ctx), drop (data_end ctx) (frame ctx))"

definition ld :: "xdp_md \<Rightarrow> ptr \<Rightarrow> nat \<Rightarrow> u8 list option" where
  "ld ctx p n =
     (if data ctx \<le> p \<and> p + n \<le> data_end ctx then Some (seg p n (frame ctx)) else None)"

definition st :: "xdp_md \<Rightarrow> ptr \<Rightarrow> u8 list \<Rightarrow> xdp_md option" where
  "st ctx p bs =
     (if data ctx \<le> p \<and> p + length bs \<le> data_end ctx
      then Some (ctx\<lparr>frame := patch p bs (frame ctx)\<rparr>) else None)"

definition ld8 :: "xdp_md \<Rightarrow> ptr \<Rightarrow> u8 option" where
  "ld8 ctx p = map_option le_dec (ld ctx p 1)"

definition ld16 :: "xdp_md \<Rightarrow> ptr \<Rightarrow> u16 option" where
  "ld16 ctx p = map_option le_dec (ld ctx p 2)"

definition ld32 :: "xdp_md \<Rightarrow> ptr \<Rightarrow> u32 option" where
  "ld32 ctx p = map_option le_dec (ld ctx p 4)"

definition st8 :: "xdp_md \<Rightarrow> ptr \<Rightarrow> u8 \<Rightarrow> xdp_md option" where
  "st8 ctx p v = st ctx p (le_enc 1 v)"

definition st16 :: "xdp_md \<Rightarrow> ptr \<Rightarrow> u16 \<Rightarrow> xdp_md option" where
  "st16 ctx p v = st ctx p (le_enc 2 v)"

definition st32 :: "xdp_md \<Rightarrow> ptr \<Rightarrow> u32 \<Rightarrow> xdp_md option" where
  "st32 ctx p v = st ctx p (le_enc 4 v)"

subsection \<open>Header layouts and protocol numbers\<close>

text \<open>
  Sizes and field offsets of the kernel's header structures (\<open>linux/if_ether.h\<close>,
  \<open>ip.h\<close>, \<open>ipv6.h\<close>, \<open>udp.h\<close>, \<open>tcp.h\<close>, \<open>icmp.h\<close>), and the protocol
  numbers the programs compare with.
\<close>

abbreviation (input) ETH_ALEN :: nat where "ETH_ALEN \<equiv> 6"
abbreviation (input) sizeof_ethhdr :: nat where "sizeof_ethhdr \<equiv> 14"
abbreviation (input) h_dest :: "ptr \<Rightarrow> ptr" where "h_dest eth \<equiv> eth"
abbreviation (input) h_source :: "ptr \<Rightarrow> ptr" where "h_source eth \<equiv> eth + 6"
abbreviation (input) h_proto :: "ptr \<Rightarrow> ptr" where "h_proto eth \<equiv> eth + 12"

abbreviation (input) sizeof_iphdr :: nat where "sizeof_iphdr \<equiv> 20"
abbreviation (input) ip_version_ihl :: "ptr \<Rightarrow> ptr" where "ip_version_ihl ip \<equiv> ip"
abbreviation (input) ip_protocol :: "ptr \<Rightarrow> ptr" where "ip_protocol ip \<equiv> ip + 9"
abbreviation (input) ip_check :: "ptr \<Rightarrow> ptr" where "ip_check ip \<equiv> ip + 10"
abbreviation (input) ip_saddr :: "ptr \<Rightarrow> ptr" where "ip_saddr ip \<equiv> ip + 12"
abbreviation (input) ip_daddr :: "ptr \<Rightarrow> ptr" where "ip_daddr ip \<equiv> ip + 16"

abbreviation (input) sizeof_ipv6hdr :: nat where "sizeof_ipv6hdr \<equiv> 40"
abbreviation (input) ip6_nexthdr :: "ptr \<Rightarrow> ptr" where "ip6_nexthdr ip \<equiv> ip + 6"
abbreviation (input) ip6_saddr :: "ptr \<Rightarrow> ptr" where "ip6_saddr ip \<equiv> ip + 8"
abbreviation (input) ip6_daddr :: "ptr \<Rightarrow> ptr" where "ip6_daddr ip \<equiv> ip + 24"

abbreviation (input) sizeof_udphdr :: nat where "sizeof_udphdr \<equiv> 8"
abbreviation (input) udp_source :: "ptr \<Rightarrow> ptr" where "udp_source h \<equiv> h"
abbreviation (input) udp_dest :: "ptr \<Rightarrow> ptr" where "udp_dest h \<equiv> h + 2"
abbreviation (input) udp_len :: "ptr \<Rightarrow> ptr" where "udp_len h \<equiv> h + 4"
abbreviation (input) udp_check :: "ptr \<Rightarrow> ptr" where "udp_check h \<equiv> h + 6"

abbreviation (input) sizeof_tcphdr :: nat where "sizeof_tcphdr \<equiv> 20"
abbreviation (input) tcp_source :: "ptr \<Rightarrow> ptr" where "tcp_source h \<equiv> h"
abbreviation (input) tcp_dest :: "ptr \<Rightarrow> ptr" where "tcp_dest h \<equiv> h + 2"
abbreviation (input) tcp_doff :: "ptr \<Rightarrow> ptr" where "tcp_doff h \<equiv> h + 12"

abbreviation (input) sizeof_icmphdr :: nat where "sizeof_icmphdr \<equiv> 8"
abbreviation (input) sizeof_icmp6hdr :: nat where "sizeof_icmp6hdr \<equiv> 8"
abbreviation (input) icmp_type :: "ptr \<Rightarrow> ptr" where "icmp_type h \<equiv> h"
abbreviation (input) icmp_code :: "ptr \<Rightarrow> ptr" where "icmp_code h \<equiv> h + 1"
abbreviation (input) icmp_checksum :: "ptr \<Rightarrow> ptr" where "icmp_checksum h \<equiv> h + 2"

abbreviation (input) ETH_P_IP :: u16 where "ETH_P_IP \<equiv> 0x0800"
abbreviation (input) ETH_P_IPV6 :: u16 where "ETH_P_IPV6 \<equiv> 0x86DD"
abbreviation (input) ETH_P_8021Q :: u16 where "ETH_P_8021Q \<equiv> 0x8100"
abbreviation (input) ETH_P_8021AD :: u16 where "ETH_P_8021AD \<equiv> 0x88A8"
abbreviation (input) IPPROTO_ICMP :: u8 where "IPPROTO_ICMP \<equiv> 1"
abbreviation (input) IPPROTO_TCP :: u8 where "IPPROTO_TCP \<equiv> 6"
abbreviation (input) IPPROTO_UDP :: u8 where "IPPROTO_UDP \<equiv> 17"
abbreviation (input) ICMP_ECHOREPLY :: u8 where "ICMP_ECHOREPLY \<equiv> 0"
abbreviation (input) ICMP_ECHO :: u8 where "ICMP_ECHO \<equiv> 8"

text \<open>Bit fields, in the little-endian layout of the structures.\<close>

definition ihl_of :: "u8 \<Rightarrow> u8" where
  "ihl_of b = b AND 15"

definition doff_of :: "u8 \<Rightarrow> u8" where
  "doff_of b = drop_bit 4 b"

lemma ihl_of_bound: "unat (ihl_of b) < 16"
proof -
  have "unat (ihl_of b) \<le> unat (15 :: u8)"
    unfolding ihl_of_def by (rule word_and_le1 [THEN word_le_nat_alt [THEN iffD1]])
  then show ?thesis by simp
qed

subsection \<open>Laws of packet accesses\<close>

lemma ld_Some [mem_simps]:
  "data ctx \<le> p \<Longrightarrow> p + n \<le> data_end ctx \<Longrightarrow> ld ctx p n = Some (seg p n (frame ctx))"
  by (simp add: ld_def)

lemma st_Some [mem_simps]:
  "data ctx \<le> p \<Longrightarrow> p + length bs \<le> data_end ctx \<Longrightarrow>
   st ctx p bs = Some (ctx\<lparr>frame := patch p bs (frame ctx)\<rparr>)"
  by (simp add: st_def)

lemma ld8_Some [mem_simps]:
  "data ctx \<le> p \<Longrightarrow> p + 1 \<le> data_end ctx \<Longrightarrow> ld8 ctx p = Some (le_dec (seg p 1 (frame ctx)))"
  by (simp add: ld8_def ld_Some)

lemma ld16_Some [mem_simps]:
  "data ctx \<le> p \<Longrightarrow> p + 2 \<le> data_end ctx \<Longrightarrow> ld16 ctx p = Some (le_dec (seg p 2 (frame ctx)))"
  by (simp add: ld16_def ld_Some)

lemma ld32_Some [mem_simps]:
  "data ctx \<le> p \<Longrightarrow> p + 4 \<le> data_end ctx \<Longrightarrow> ld32 ctx p = Some (le_dec (seg p 4 (frame ctx)))"
  by (simp add: ld32_def ld_Some)

lemma st8_Some [mem_simps]:
  "data ctx \<le> p \<Longrightarrow> p + 1 \<le> data_end ctx \<Longrightarrow>
   st8 ctx p v = Some (ctx\<lparr>frame := patch p (le_enc 1 v) (frame ctx)\<rparr>)"
  by (simp add: st8_def st_Some)

lemma st16_Some [mem_simps]:
  "data ctx \<le> p \<Longrightarrow> p + 2 \<le> data_end ctx \<Longrightarrow>
   st16 ctx p v = Some (ctx\<lparr>frame := patch p (le_enc 2 v) (frame ctx)\<rparr>)"
  by (simp add: st16_def st_Some)

lemma st32_Some [mem_simps]:
  "data ctx \<le> p \<Longrightarrow> p + 4 \<le> data_end ctx \<Longrightarrow>
   st32 ctx p v = Some (ctx\<lparr>frame := patch p (le_enc 4 v) (frame ctx)\<rparr>)"
  by (simp add: st32_def st_Some)

lemma length_packet: "wf_ctx ctx \<Longrightarrow> length (packet ctx) = data_end ctx - data ctx"
  by (simp add: wf_ctx_def packet_def)

lemma seg_packet:
  "wf_ctx ctx \<Longrightarrow> q + n \<le> data_end ctx - data ctx \<Longrightarrow>
   seg q n (packet ctx) = seg (data ctx + q) n (frame ctx)"
  by (simp add: packet_def seg_seg wf_ctx_def)

lemma packet_patch:
  "wf_ctx ctx \<Longrightarrow> data ctx \<le> p \<Longrightarrow> p + length bs \<le> data_end ctx \<Longrightarrow>
   packet (ctx\<lparr>frame := patch p bs (frame ctx)\<rparr>) = patch (p - data ctx) bs (packet ctx)"
  by (simp add: packet_def wf_ctx_def seg_patch_within)

lemma wf_ctx_patch [simp]:
  "wf_ctx ctx \<Longrightarrow> p + length bs \<le> data_end ctx \<Longrightarrow>
   wf_ctx (ctx\<lparr>frame := patch p bs (frame ctx)\<rparr>)"
  by (simp add: wf_ctx_def)

lemma data_end_packet: "wf_ctx ctx \<Longrightarrow> data_end ctx = data ctx + length (packet ctx)"
  by (simp add: wf_ctx_def length_packet)

text \<open>
  The view of a program that addresses the packet relative to \<open>data\<close>: loads read the
  packet, and stores replace it, inside an otherwise unchanged context.
\<close>

named_theorems pkt_simps

definition set_packet :: "xdp_md \<Rightarrow> u8 list \<Rightarrow> xdp_md" where
  "set_packet ctx pkt = ctx\<lparr>frame := patch (data ctx) pkt (frame ctx)\<rparr>"

lemma set_packet_sel [simp]:
  "data (set_packet ctx pkt) = data ctx" "data_end (set_packet ctx pkt) = data_end ctx"
  by (simp_all add: set_packet_def)

lemma set_packet_same [simp]: "wf_ctx ctx \<Longrightarrow> set_packet ctx (packet ctx) = ctx"
  by (simp add: set_packet_def packet_def patch_seg_id wf_ctx_def)

lemma wf_set_packet [simp]:
  "wf_ctx ctx \<Longrightarrow> length pkt = length (packet ctx) \<Longrightarrow> wf_ctx (set_packet ctx pkt)"
  by (simp add: set_packet_def wf_ctx_def packet_def)

lemma packet_set_packet [simp]:
  "wf_ctx ctx \<Longrightarrow> length pkt = length (packet ctx) \<Longrightarrow> packet (set_packet ctx pkt) = pkt"
  by (simp add: set_packet_def packet_def wf_ctx_def seg_patch_same)

lemma set_packet_set_packet [simp]:
  "wf_ctx ctx \<Longrightarrow> length pkt = length (packet ctx) \<Longrightarrow> length pkt' = length (packet ctx) \<Longrightarrow>
   set_packet (set_packet ctx pkt) pkt' = set_packet ctx pkt'"
  by (simp add: set_packet_def wf_ctx_def packet_def patch_overwrite)

lemma outside_set_packet [simp]:
  "wf_ctx ctx \<Longrightarrow> length pkt = length (packet ctx) \<Longrightarrow> outside (set_packet ctx pkt) = outside ctx"
  by (auto simp: outside_def wf_ctx_def set_packet_def packet_def patch_def)

lemma length_frame_set_packet [simp]:
  "wf_ctx ctx \<Longrightarrow> length pkt = length (packet ctx) \<Longrightarrow>
   length (frame (set_packet ctx pkt)) = length (frame ctx)"
  by (simp add: set_packet_def wf_ctx_def packet_def)

lemma ld_packet [pkt_simps]:
  "wf_ctx ctx \<Longrightarrow> data ctx \<le> p \<Longrightarrow> p + n \<le> data ctx + length (packet ctx) \<Longrightarrow>
   ld ctx p n = Some (seg (p - data ctx) n (packet ctx))"
  by (auto simp: ld_def seg_packet wf_ctx_def length_packet)

lemma ld8_packet [pkt_simps]:
  "wf_ctx ctx \<Longrightarrow> data ctx \<le> p \<Longrightarrow> p < data ctx + length (packet ctx) \<Longrightarrow>
   ld8 ctx p = Some (packet ctx ! (p - data ctx))"
  by (simp add: ld8_def ld_packet less_diff_conv2)

lemma ld16_packet [pkt_simps]:
  "wf_ctx ctx \<Longrightarrow> data ctx \<le> p \<Longrightarrow> p + 2 \<le> data ctx + length (packet ctx) \<Longrightarrow>
   ld16 ctx p = Some (le_dec (seg (p - data ctx) 2 (packet ctx)))"
  by (simp add: ld16_def ld_packet)

lemma ld32_packet [pkt_simps]:
  "wf_ctx ctx \<Longrightarrow> data ctx \<le> p \<Longrightarrow> p + 4 \<le> data ctx + length (packet ctx) \<Longrightarrow>
   ld32 ctx p = Some (le_dec (seg (p - data ctx) 4 (packet ctx)))"
  by (simp add: ld32_def ld_packet)

lemma patch_patch_seg:
  assumes "d + n \<le> length xs" and "q + length bs \<le> n"
  shows "patch (d + q) bs xs = patch d (patch q bs (seg d n xs)) xs"
  by (rule nth_equalityI) (use assms in \<open>auto simp: nth_patch\<close>)

lemma st_packet [pkt_simps]:
  assumes "wf_ctx ctx" and "data ctx \<le> p" and "p + length bs \<le> data ctx + length (packet ctx)"
  shows "st ctx p bs = Some (set_packet ctx (patch (p - data ctx) bs (packet ctx)))"
proof -
  have "patch p bs (frame ctx) = patch (data ctx) (patch (p - data ctx) bs (packet ctx)) (frame ctx)"
    using patch_patch_seg [of "data ctx" "data_end ctx - data ctx" "frame ctx" "p - data ctx" bs]
      assms by (auto simp: packet_def wf_ctx_def)
  then show ?thesis using assms by (simp add: st_def set_packet_def data_end_packet)
qed

lemma st8_packet [pkt_simps]:
  "wf_ctx ctx \<Longrightarrow> data ctx \<le> p \<Longrightarrow> p < data ctx + length (packet ctx) \<Longrightarrow>
   st8 ctx p v = Some (set_packet ctx (patch (p - data ctx) [v] (packet ctx)))"
  by (simp add: st8_def st_packet)

lemma st16_packet [pkt_simps]:
  "wf_ctx ctx \<Longrightarrow> data ctx \<le> p \<Longrightarrow> p + 2 \<le> data ctx + length (packet ctx) \<Longrightarrow>
   st16 ctx p v = Some (set_packet ctx (patch (p - data ctx) (le_enc 2 v) (packet ctx)))"
  by (simp add: st16_def st_packet)

lemma st32_packet [pkt_simps]:
  "wf_ctx ctx \<Longrightarrow> data ctx \<le> p \<Longrightarrow> p + 4 \<le> data ctx + length (packet ctx) \<Longrightarrow>
   st32 ctx p v = Some (set_packet ctx (patch (p - data ctx) (le_enc 4 v) (packet ctx)))"
  by (simp add: st32_def st_packet)

text \<open>The context around a given packet, with nothing else in the frame.\<close>

definition ctx_of :: "u8 list \<Rightarrow> xdp_md" where
  "ctx_of pkt = \<lparr>frame = pkt, data = 0, data_end = length pkt\<rparr>"

lemma wf_ctx_of [simp]: "wf_ctx (ctx_of pkt)"
  by (simp add: wf_ctx_def ctx_of_def)

lemma packet_ctx_of [simp]: "packet (ctx_of pkt) = pkt"
  by (simp add: packet_def ctx_of_def seg_def)

subsection \<open>The interface between a driver and an XDP program\<close>

text \<open>
  What the driver relies on: the program returns on every packet without an out-of-bounds
  access, it does not move or resize the packet, it leaves the frame outside the packet
  alone, and a packet it does not send back is passed on unmodified.
\<close>

locale xdp_program =
  fixes prog :: "xdp_md \<Rightarrow> (xdp_action \<times> xdp_md) option"
  assumes returns: "wf_ctx ctx \<Longrightarrow> prog ctx \<noteq> None"
    and keeps_bounds: "wf_ctx ctx \<Longrightarrow> prog ctx = Some (a, ctx') \<Longrightarrow>
      data ctx' = data ctx \<and> data_end ctx' = data_end ctx \<and>
      length (frame ctx') = length (frame ctx)"
    and keeps_outside: "wf_ctx ctx \<Longrightarrow> prog ctx = Some (a, ctx') \<Longrightarrow> outside ctx' = outside ctx"
    and rewrites_only_tx: "wf_ctx ctx \<Longrightarrow> prog ctx = Some (a, ctx') \<Longrightarrow> a \<noteq> XDP_TX \<Longrightarrow>
      ctx' = ctx"
begin

lemma wf_after: "wf_ctx ctx \<Longrightarrow> prog ctx = Some (a, ctx') \<Longrightarrow> wf_ctx ctx'"
  using keeps_bounds [of ctx a ctx'] by (simp add: wf_ctx_def)

lemma length_after:
  "wf_ctx ctx \<Longrightarrow> prog ctx = Some (a, ctx') \<Longrightarrow> length (packet ctx') = length (packet ctx)"
  using keeps_bounds [of ctx a ctx'] wf_after [of ctx a ctx'] by (simp add: length_packet)

lemma safe:
  assumes "wf_ctx ctx"
  shows "\<exists>a ctx'. prog ctx = Some (a, ctx') \<and> data ctx' = data ctx \<and> data_end ctx' = data_end ctx \<and>
    length (packet ctx') = length (packet ctx) \<and> outside ctx' = outside ctx \<and>
    (a \<noteq> XDP_TX \<longrightarrow> ctx' = ctx)"
proof -
  obtain a ctx' where run: "prog ctx = Some (a, ctx')"
    using returns [OF assms] by (cases "prog ctx") auto
  show ?thesis
    using run keeps_bounds [OF assms run] keeps_outside [OF assms run]
      length_after [OF assms run] rewrites_only_tx [OF assms run] by auto
qed

lemma batch_returns: "list_all wf_ctx ctxs \<Longrightarrow> \<exists>rs. those (map prog ctxs) = Some rs"
proof (induction ctxs)
  case Nil
  then show ?case by simp
next
  case (Cons c ctxs)
  then obtain rs where "those (map prog ctxs) = Some rs" by auto
  moreover obtain r where "prog c = Some r" using returns [of c] Cons.prems by auto
  ultimately show ?case by simp
qed

end

lemma outside_patch:
  "wf_ctx ctx \<Longrightarrow> data ctx \<le> p \<Longrightarrow> p + length bs \<le> data_end ctx \<Longrightarrow>
   outside (ctx\<lparr>frame := patch p bs (frame ctx)\<rparr>) = outside ctx"
  by (auto simp: outside_def wf_ctx_def patch_def)

end
