(* ===== verification/Parsing_Helpers.thy ===== *)
theory Parsing_Helpers
  imports Xdp_Packet
begin

unbundle bit_operations_syntax

section \<open>Header parsing\<close>

text \<open>
  \<open>common/parsing_helpers.h\<close>. A parser takes the packet memory, the cursor
  \<open>nh->pos\<close> and \<open>data_end\<close>, and returns its \<open>int\<close> result, the cursor it leaves
  behind and, when it assigned the caller's header pointer, that pointer. \<open>None\<close> is an
  out-of-bounds access.
  The lemmas of the theory show that every parser is total (no access faults whatever the
  packet holds), that a cursor it moves stays inside the packet, and what the result is;
  the locale \<open>hdr_parser\<close> states this contract once and every parser of the file is an
  interpretation of it.
\<close>

type_synonym parse_result = "(int \<times> ptr \<times> ptr option) option"

abbreviation (input) sizeof_vlan_hdr :: nat where "sizeof_vlan_hdr \<equiv> 4"
abbreviation (input) h_vlan_TCI :: "ptr \<Rightarrow> ptr" where "h_vlan_TCI v \<equiv> v"
abbreviation (input) h_vlan_encapsulated_proto :: "ptr \<Rightarrow> ptr"
  where "h_vlan_encapsulated_proto v \<equiv> v + 2"
abbreviation (input) sizeof_icmphdr_common :: nat where "sizeof_icmphdr_common \<equiv> 4"

definition VLAN_MAX_DEPTH :: nat where
  "VLAN_MAX_DEPTH = 2"

definition VLAN_VID_MASK :: u16 where
  "VLAN_VID_MASK = 0x0fff"

text \<open>\<open>struct collect_vlans\<close>: the array \<open>id\<close>; \<open>None\<close> is the null pointer.\<close>

type_synonym collect_vlans = "u16 list option"

definition proto_is_vlan :: "u16 \<Rightarrow> bool" where
  "proto_is_vlan h = (h = bpf_htons ETH_P_8021Q \<or> h = bpf_htons ETH_P_8021AD)"

text \<open>
  The unrolled loop of \<open>parse_ethhdr_vlan\<close>: \<open>n\<close> iterations are left, the next one has
  index \<open>i\<close>. It stops early at an EtherType that is no VLAN tag and at a tag that does
  not fit the packet.
\<close>

fun vlan_loop ::
  "xdp_md \<Rightarrow> ptr \<Rightarrow> nat \<Rightarrow> nat \<Rightarrow> ptr \<Rightarrow> u16 \<Rightarrow> collect_vlans \<Rightarrow> (ptr \<times> u16 \<times> collect_vlans) option"
where
  "vlan_loop m dend 0 i vlh h vlans = Some (vlh, h, vlans)"
| "vlan_loop m dend (Suc n) i vlh h vlans =
     (if \<not> proto_is_vlan h then Some (vlh, h, vlans)
      else if vlh + sizeof_vlan_hdr > dend then Some (vlh, h, vlans)
      else do {
        h' \<leftarrow> ld16 m (h_vlan_encapsulated_proto vlh);
        vlans' \<leftarrow> (case vlans of
            None \<Rightarrow> Some None
          | Some ids \<Rightarrow> do {
              tci \<leftarrow> ld16 m (h_vlan_TCI vlh);
              Some (Some (ids[i := bpf_ntohs tci AND VLAN_VID_MASK]))
            });
        vlan_loop m dend n (Suc i) (vlh + sizeof_vlan_hdr) h' vlans'
      })"

definition parse_ethhdr_vlan ::
  "xdp_md \<Rightarrow> ptr \<Rightarrow> ptr \<Rightarrow> collect_vlans \<Rightarrow> (int \<times> ptr \<times> ptr option \<times> collect_vlans) option"
where
  "parse_ethhdr_vlan m nh dend vlans =
     (let eth = nh; hdrsize = sizeof_ethhdr in
      if nh + hdrsize > dend then Some (-1, nh, None, vlans)
      else do {
        hp \<leftarrow> ld16 m (h_proto eth);
        (vlh, h, vlans') \<leftarrow> vlan_loop m dend VLAN_MAX_DEPTH 0 (nh + hdrsize) hp vlans;
        Some (uint h, vlh, Some eth, vlans')
      })"

definition parse_ethhdr :: "xdp_md \<Rightarrow> ptr \<Rightarrow> ptr \<Rightarrow> parse_result" where
  "parse_ethhdr m nh dend = do {
     (r, nh', eth, _) \<leftarrow> parse_ethhdr_vlan m nh dend None;
     Some (r, nh', eth)
   }"

definition parse_ip6hdr :: "xdp_md \<Rightarrow> ptr \<Rightarrow> ptr \<Rightarrow> parse_result" where
  "parse_ip6hdr m nh dend =
     (let ip6h = nh in
      if ip6h + sizeof_ipv6hdr > dend then Some (-1, nh, None)
      else do {
        nexthdr \<leftarrow> ld8 m (ip6_nexthdr ip6h);
        Some (uint nexthdr, ip6h + sizeof_ipv6hdr, Some ip6h)
      })"

definition parse_iphdr :: "xdp_md \<Rightarrow> ptr \<Rightarrow> ptr \<Rightarrow> parse_result" where
  "parse_iphdr m nh dend =
     (let iph = nh in
      if iph + sizeof_iphdr > dend then Some (-1, nh, None)
      else do {
        b \<leftarrow> ld8 m (ip_version_ihl iph);
        let hdrsize = unat (ihl_of b) * 4;
        if hdrsize < sizeof_iphdr then Some (-1, nh, None)
        else if nh + hdrsize > dend then Some (-1, nh, None)
        else do {
          proto \<leftarrow> ld8 m (ip_protocol iph);
          Some (uint proto, nh + hdrsize, Some iph)
        }
      })"

definition parse_icmp6hdr :: "xdp_md \<Rightarrow> ptr \<Rightarrow> ptr \<Rightarrow> parse_result" where
  "parse_icmp6hdr m nh dend =
     (let icmp6h = nh in
      if icmp6h + sizeof_icmp6hdr > dend then Some (-1, nh, None)
      else do {
        t \<leftarrow> ld8 m (icmp_type icmp6h);
        Some (uint t, icmp6h + sizeof_icmp6hdr, Some icmp6h)
      })"

definition parse_icmphdr :: "xdp_md \<Rightarrow> ptr \<Rightarrow> ptr \<Rightarrow> parse_result" where
  "parse_icmphdr m nh dend =
     (let icmph = nh in
      if icmph + sizeof_icmphdr > dend then Some (-1, nh, None)
      else do {
        t \<leftarrow> ld8 m (icmp_type icmph);
        Some (uint t, icmph + sizeof_icmphdr, Some icmph)
      })"

definition parse_icmphdr_common :: "xdp_md \<Rightarrow> ptr \<Rightarrow> ptr \<Rightarrow> parse_result" where
  "parse_icmphdr_common m nh dend =
     (let h = nh in
      if h + sizeof_icmphdr_common > dend then Some (-1, nh, None)
      else do {
        t \<leftarrow> ld8 m (icmp_type h);
        Some (uint t, h + sizeof_icmphdr_common, Some h)
      })"

text \<open>
  \<open>bpf_ntohs(h->len) - sizeof(struct udphdr)\<close> is computed in \<open>size_t\<close> and stored in an
  \<open>int\<close>: the subtraction wraps in 64 bits and is then cut to 32. On a negative length the
  cursor and the header pointer have already been moved.
\<close>

definition udp_payload_len :: "u16 \<Rightarrow> int" where
  "udp_payload_len l = sint (ucast ((ucast (bpf_ntohs l) :: u64) - 8) :: s32)"

definition parse_udphdr :: "xdp_md \<Rightarrow> ptr \<Rightarrow> ptr \<Rightarrow> parse_result" where
  "parse_udphdr m nh dend =
     (let h = nh in
      if h + sizeof_udphdr > dend then Some (-1, nh, None)
      else do {
        l \<leftarrow> ld16 m (udp_len h);
        let len = udp_payload_len l;
        if len < 0 then Some (-1, h + sizeof_udphdr, Some h)
        else Some (len, h + sizeof_udphdr, Some h)
      })"

definition parse_tcphdr :: "xdp_md \<Rightarrow> ptr \<Rightarrow> ptr \<Rightarrow> parse_result" where
  "parse_tcphdr m nh dend =
     (let h = nh in
      if h + sizeof_tcphdr > dend then Some (-1, nh, None)
      else do {
        b \<leftarrow> ld8 m (tcp_doff h);
        let len = unat (doff_of b) * 4;
        if len < sizeof_tcphdr then Some (-1, nh, None)
        else if nh + len > dend then Some (-1, nh, None)
        else Some (int len, nh + len, Some h)
      })"

subsection \<open>The parser contract\<close>

text \<open>
  \<open>total\<close>: no access of the parser faults. \<open>moves\<close>: the cursor never leaves the packet.
  \<open>parsed\<close>: on success the result is not negative, the header pointer is the old cursor
  and the new cursor is at least the fixed part of the header further on, so that the
  caller may read the whole fixed part. \<open>short\<close>: a header that does not fit is refused.
\<close>

definition cursor_in :: "xdp_md \<Rightarrow> ptr \<Rightarrow> bool" where
  "cursor_in m nh \<longleftrightarrow> wf_ctx m \<and> data m \<le> nh \<and> nh \<le> data_end m"

locale hdr_parser =
  fixes parse :: "xdp_md \<Rightarrow> ptr \<Rightarrow> ptr \<Rightarrow> parse_result"
    and hdrlen :: nat
  assumes total: "cursor_in m nh \<Longrightarrow> parse m nh (data_end m) \<noteq> None"
    and moves: "cursor_in m nh \<Longrightarrow> parse m nh (data_end m) = Some (r, nh', h) \<Longrightarrow>
      nh \<le> nh' \<and> nh' \<le> data_end m"
    and parsed: "cursor_in m nh \<Longrightarrow> parse m nh (data_end m) = Some (r, nh', h) \<Longrightarrow> r \<noteq> -1 \<Longrightarrow>
      0 \<le> r \<and> h = Some nh \<and> nh + hdrlen \<le> nh'"
    and short: "cursor_in m nh \<Longrightarrow> data_end m < nh + hdrlen \<Longrightarrow>
      parse m nh (data_end m) = Some (-1, nh, None)"
begin

lemma cursor_after:
  "cursor_in m nh \<Longrightarrow> parse m nh (data_end m) = Some (r, nh', h) \<Longrightarrow> cursor_in m nh'"
  using moves [of m nh r nh' h] by (simp add: cursor_in_def)

lemma safe:
  assumes "cursor_in m nh"
  shows "\<exists>r nh' h. parse m nh (data_end m) = Some (r, nh', h) \<and> nh \<le> nh' \<and> nh' \<le> data_end m \<and>
    (r \<noteq> -1 \<longrightarrow> 0 \<le> r \<and> h = Some nh \<and> nh + hdrlen \<le> nh')"
proof -
  obtain r nh' h where res: "parse m nh (data_end m) = Some (r, nh', h)"
    using total [OF assms] by (cases "parse m nh (data_end m)") auto
  then show ?thesis using moves [OF assms res] parsed [OF assms res] by simp
qed

lemma chain:
  assumes "cursor_in m nh"
    and "\<And>r nh' h. cursor_in m nh' \<Longrightarrow> (r \<noteq> -1 \<longrightarrow> h = Some nh \<and> nh + hdrlen \<le> data_end m) \<Longrightarrow>
      k (r, nh', h) \<noteq> None"
  shows "parse m nh (data_end m) \<bind> k \<noteq> None"
proof -
  obtain r nh' h where res: "parse m nh (data_end m) = Some (r, nh', h)"
    using total [OF assms(1)] by (cases "parse m nh (data_end m)") auto
  have "r \<noteq> -1 \<longrightarrow> h = Some nh \<and> nh + hdrlen \<le> data_end m"
    using parsed [OF assms(1) res] moves [OF assms(1) res] by auto
  then show ?thesis
    using res assms(2) [OF cursor_after [OF assms(1) res]] by simp
qed

end

lemma udp_payload_len: "udp_payload_len l = uint (bpf_ntohs l) - 8"
proof -
  let ?k = "uint (bpf_ntohs l)"
  have k: "0 \<le> ?k" "?k < 65536" using uint_bounded [of "bpf_ntohs l"] by simp_all
  have "(ucast (bpf_ntohs l) :: u64) - 8 = word_of_int ?k - word_of_int 8"
    by (simp only: ucast_eq word_of_int_numeral)
  then have sub: "(ucast (bpf_ntohs l) :: u64) - 8 = word_of_int (?k - 8)"
    by (simp only: wi_hom_sub)
  have cut: "(ucast (word_of_int i :: u64) :: s32) = word_of_int i" for i
    by (rule bit_word_eqI) (simp add: bit_simps)
  have "udp_payload_len l = signed_take_bit 31 (?k - 8)"
    unfolding udp_payload_len_def sub cut by (simp add: signed_of_int del: of_int_diff)
  also have "\<dots> = ?k - 8"
    using k by (intro signed_take_bit_int_eq_self) auto
  finally show ?thesis .
qed

text \<open>The VLAN loop stays inside the packet and returns.\<close>

lemma vlan_loop_total:
  "cursor_in m vlh \<Longrightarrow>
   \<exists>vlh' h' vl'. vlan_loop m (data_end m) n i vlh h vl = Some (vlh', h', vl') \<and>
     vlh \<le> vlh' \<and> vlh' \<le> data_end m"
proof (induction n arbitrary: i vlh h vl)
  case 0
  then show ?case by (simp add: cursor_in_def)
next
  case (Suc n)
  show ?case
  proof (cases "proto_is_vlan h \<and> vlh + 4 \<le> data_end m")
    case False
    then show ?thesis using Suc.prems by (auto simp: cursor_in_def)
  next
    case True
    then have next_in: "cursor_in m (vlh + 4)" using Suc.prems by (simp add: cursor_in_def)
    have "data m \<le> vlh" using Suc.prems by (simp add: cursor_in_def)
    then obtain h2 vl2 where
      "vlan_loop m (data_end m) (Suc n) i vlh h vl =
       vlan_loop m (data_end m) n (Suc i) (vlh + 4) h2 vl2"
      using True by (cases vl) (simp_all add: mem_simps)
    then show ?thesis using Suc.IH [OF next_in, of "Suc i" h2 vl2] by auto
  qed
qed

lemma parse_ethhdr_vlan_fits:
  assumes "cursor_in m nh" and "nh + 14 \<le> data_end m"
  shows "\<exists>(h :: u16) vlh vl'. parse_ethhdr_vlan m nh (data_end m) vl = Some (uint h, vlh, Some nh, vl') \<and>
    nh + 14 \<le> vlh \<and> vlh \<le> data_end m"
proof -
  have hp: "ld16 m (nh + 12) = Some (le_dec (seg (nh + 12) 2 (frame m)))"
    using assms by (simp add: cursor_in_def mem_simps)
  have "cursor_in m (nh + 14)" using assms by (simp add: cursor_in_def)
  from vlan_loop_total [OF this, of VLAN_MAX_DEPTH 0 "le_dec (seg (nh + 12) 2 (frame m))" vl]
  obtain vlh h vl' where "vlan_loop m (data_end m) VLAN_MAX_DEPTH 0 (nh + 14)
      (le_dec (seg (nh + 12) 2 (frame m))) vl = Some (vlh, h, vl')"
    and "nh + 14 \<le> vlh" "vlh \<le> data_end m" by blast
  then have "parse_ethhdr_vlan m nh (data_end m) vl = Some (uint h, vlh, Some nh, vl') \<and>
      nh + 14 \<le> vlh \<and> vlh \<le> data_end m"
    using assms hp by (simp add: parse_ethhdr_vlan_def Let_def)
  then show ?thesis by blast
qed

lemma parse_ethhdr_fits:
  assumes "cursor_in m nh" and "nh + 14 \<le> data_end m"
  shows "\<exists>(h :: u16) vlh. parse_ethhdr m nh (data_end m) = Some (uint h, vlh, Some nh) \<and>
    nh + 14 \<le> vlh \<and> vlh \<le> data_end m"
  using parse_ethhdr_vlan_fits [OF assms, of None] by (fastforce simp: parse_ethhdr_def)

lemma parse_ethhdr_short:
  "data_end m < nh + 14 \<Longrightarrow> parse_ethhdr m nh (data_end m) = Some (-1, nh, None)"
  by (simp add: parse_ethhdr_def parse_ethhdr_vlan_def Let_def)

interpretation eth: hdr_parser parse_ethhdr sizeof_ethhdr
proof (unfold_locales, goal_cases)
  case (1 m nh)
  then show ?case
    by (metis parse_ethhdr_fits parse_ethhdr_short not_less option.distinct(1))
next
  case (2 m nh r nh' h)
  then show ?case
    using parse_ethhdr_fits [of m nh] parse_ethhdr_short [of m nh]
    by (cases "nh + 14 \<le> data_end m") (auto simp: cursor_in_def)
next
  case (3 m nh r nh' h)
  then show ?case
    using parse_ethhdr_fits [of m nh] parse_ethhdr_short [of m nh]
    by (cases "nh + 14 \<le> data_end m") auto
next
  case (4 m nh)
  then show ?case by (simp add: parse_ethhdr_short)
qed

interpretation ip6: hdr_parser parse_ip6hdr sizeof_ipv6hdr
  by unfold_locales
    (auto simp: parse_ip6hdr_def cursor_in_def Let_def mem_simps split: if_splits)

interpretation ip4: hdr_parser parse_iphdr sizeof_iphdr
  by unfold_locales
    (auto simp: parse_iphdr_def cursor_in_def Let_def mem_simps split: if_splits)

interpretation icmp6: hdr_parser parse_icmp6hdr sizeof_icmp6hdr
  by unfold_locales
    (auto simp: parse_icmp6hdr_def cursor_in_def Let_def mem_simps split: if_splits)

interpretation icmp: hdr_parser parse_icmphdr sizeof_icmphdr
  by unfold_locales
    (auto simp: parse_icmphdr_def cursor_in_def Let_def mem_simps split: if_splits)

interpretation icmp_common: hdr_parser parse_icmphdr_common sizeof_icmphdr_common
  by unfold_locales
    (auto simp: parse_icmphdr_common_def cursor_in_def Let_def mem_simps split: if_splits)

interpretation udp: hdr_parser parse_udphdr sizeof_udphdr
  by unfold_locales
    (auto simp: parse_udphdr_def cursor_in_def Let_def mem_simps split: if_splits)

interpretation tcp: hdr_parser parse_tcphdr sizeof_tcphdr
  by unfold_locales
    (auto simp: parse_tcphdr_def cursor_in_def Let_def mem_simps split: if_splits)

subsection \<open>Encoding of tagged frames\<close>

text \<open>
  The wire format the VLAN parser reads: a frame carries a stack of tags, each a TPID and
  a tag control word (TCI), in front of the EtherType of the payload. \<open>tag_type\<close> is the
  type field that announces what follows, \<open>tag_body\<close> the bytes after it.
\<close>

definition be16 :: "u16 \<Rightarrow> u8 list" where
  "be16 w = le_enc 2 (bpf_htons w)"

fun tag_type :: "(u16 \<times> u16) list \<Rightarrow> u16 \<Rightarrow> u16" where
  "tag_type [] proto = proto"
| "tag_type ((tpid, tci) # tags) proto = tpid"

fun tag_body :: "(u16 \<times> u16) list \<Rightarrow> u16 \<Rightarrow> u8 list" where
  "tag_body [] proto = []"
| "tag_body ((tpid, tci) # tags) proto = be16 tci @ be16 (tag_type tags proto) @ tag_body tags proto"

definition tagged_frame :: "u8 list \<Rightarrow> (u16 \<times> u16) list \<Rightarrow> u16 \<Rightarrow> u8 list \<Rightarrow> u8 list" where
  "tagged_frame macs tags proto payload =
     macs @ be16 (tag_type tags proto) @ tag_body tags proto @ payload"

definition is_tpid :: "u16 \<Rightarrow> bool" where
  "is_tpid t \<longleftrightarrow> t = ETH_P_8021Q \<or> t = ETH_P_8021AD"

definition vid :: "u16 \<Rightarrow> u16" where
  "vid tci = tci AND VLAN_VID_MASK"

lemma length_be16 [simp]: "length (be16 w) = 2"
  by (simp add: be16_def)

lemma le_dec_be16 [simp]: "le_dec (be16 w) = bpf_htons w"
  by (simp add: be16_def le_dec_enc)

lemma length_tag_body [simp]: "length (tag_body tags proto) = 4 * length tags"
  by (induction tags proto rule: tag_body.induct) auto

lemma proto_is_vlan_htons [simp]: "proto_is_vlan (bpf_htons t) = is_tpid t"
  by (metis is_tpid_def ntohs_htons(1) proto_is_vlan_def)

lemma seg_drop: "drop p xs = as @ bs @ cs \<Longrightarrow> length as = k \<Longrightarrow> length bs = n \<Longrightarrow>
   seg (p + k) n xs = bs"
  by (simp add: seg_def add.commute [of p] flip: drop_drop)

text \<open>The loop consumes the whole stack of tags, if it may run often enough.\<close>

lemma vlan_loop_tags:
  assumes "drop vlh (frame m) = tag_body tags proto @ payload"
    and "wf_ctx m" and "data_end m = length (frame m)" and "data m \<le> vlh"
    and "vlh \<le> length (frame m)"
    and "list_all (is_tpid \<circ> fst) tags" and "\<not> is_tpid proto"
    and "length tags \<le> n" and "i + length tags \<le> length ids"
  shows "vlan_loop m (data_end m) n i vlh (bpf_htons (tag_type tags proto)) (Some ids) =
    Some (vlh + 4 * length tags, bpf_htons proto, Some (patch i (map (vid \<circ> snd) tags) ids))"
  using assms
proof (induction tags arbitrary: n i vlh ids)
  case Nil
  then show ?case by (cases n) (simp_all add: patch_def)
next
  case (Cons t tags)
  obtain tpid tci where t: "t = (tpid, tci)" by fastforce
  obtain n' where n: "n = Suc n'" using Cons.prems by (cases n) auto
  have bytes: "drop vlh (frame m) =
      be16 tci @ be16 (tag_type tags proto) @ tag_body tags proto @ payload"
    using Cons.prems t by simp
  have len: "length (frame m) = vlh + 4 + 4 * length tags + length payload"
    using arg_cong [OF bytes, of length] Cons.prems(5) by simp
  have tci: "seg vlh 2 (frame m) = be16 tci"
    using seg_drop [of vlh "frame m" "[]" "be16 tci" _ 0 2] bytes by simp
  have ty: "seg (vlh + 2) 2 (frame m) = be16 (tag_type tags proto)"
    using seg_drop [of vlh "frame m" "be16 tci" "be16 (tag_type tags proto)" _ 2 2] bytes by simp
  have rest: "drop (vlh + 4) (frame m) = tag_body tags proto @ payload"
    using arg_cong [OF bytes, of "drop 4"] by (simp add: add.commute)
  let ?ids = "ids[i := vid tci]"
  have "vlan_loop m (data_end m) n i vlh (bpf_htons (tag_type (t # tags) proto)) (Some ids) =
      vlan_loop m (data_end m) n' (Suc i) (vlh + 4) (bpf_htons (tag_type tags proto)) (Some ?ids)"
    using Cons.prems len by (simp add: n t mem_simps tci ty vid_def del: add_2_eq_Suc')
  also have "\<dots> = Some (vlh + 4 + 4 * length tags, bpf_htons proto,
      Some (patch (Suc i) (map (vid \<circ> snd) tags) ?ids))"
    using Cons.prems len n by (intro Cons.IH [OF rest]) auto
  also have "patch (Suc i) (map (vid \<circ> snd) tags) ?ids = patch i (map (vid \<circ> snd) (t # tags)) ids"
    by (rule nth_equalityI) (use Cons.prems t in \<open>auto simp: nth_patch nth_Cons' nth_list_update\<close>)
  finally show ?case by (simp add: comp_def)
qed

subsection \<open>Properties\<close>

text \<open>
  C1. Memory safety of header parsing: whatever bytes the packet holds, each of the eight
  parsers, started with its cursor inside the packet, returns without an access outside
  \<open>[data, data_end)\<close>; the cursor only moves forward and stays inside the packet; and a
  result other than -1 means that the header pointer was set to the old cursor and that the
  fixed part of the header lies inside the packet.
\<close>

theorem parsers_safe:
  assumes "(parse, hdrlen) \<in> set [(parse_ethhdr, 14), (parse_ip6hdr, 40), (parse_iphdr, 20),
      (parse_icmp6hdr, 8), (parse_icmphdr, 8), (parse_icmphdr_common, 4), (parse_udphdr, 8),
      (parse_tcphdr, 20)]"
    and "cursor_in m nh"
  shows "\<exists>r nh' h. parse m nh (data_end m) = Some (r, nh', h) \<and> nh \<le> nh' \<and> nh' \<le> data_end m \<and>
    (r \<noteq> -1 \<longrightarrow> 0 \<le> r \<and> h = Some nh \<and> nh + hdrlen \<le> nh')"
proof -
  have "hdr_parser parse hdrlen"
    using assms(1) eth.hdr_parser_axioms ip6.hdr_parser_axioms ip4.hdr_parser_axioms
      icmp6.hdr_parser_axioms icmp.hdr_parser_axioms icmp_common.hdr_parser_axioms
      udp.hdr_parser_axioms tcp.hdr_parser_axioms by auto
  then show ?thesis using hdr_parser.safe assms(2) by blast
qed

theorem parsers_safe_witness:
  "\<exists>r nh' h. parse_iphdr (ctx_of (replicate 24 0x46)) 0 24 = Some (r, nh', h) \<and> 0 \<le> nh' \<and>
    nh' \<le> 24 \<and> (r \<noteq> -1 \<longrightarrow> 0 \<le> r \<and> h = Some 0 \<and> 20 \<le> nh')"
  using parsers_safe [of parse_iphdr 20 "ctx_of (replicate 24 0x46)" 0]
  by (simp add: cursor_in_def ctx_of_def wf_ctx_def)

text \<open>
  C32. What \<open>parse_iphdr\<close> computes: it accepts exactly the packets with 20 bytes of header
  left, a header length field of at least 5 words and that many words left; it then returns
  the protocol byte and moves the cursor by the length the header declares, so options are
  skipped. On every other packet it returns -1 and changes nothing.
\<close>

theorem parse_iphdr_spec:
  assumes "cursor_in m nh"
  shows "parse_iphdr m nh (data_end m) =
    (let words = unat (ihl_of (frame m ! nh)) in
     if nh + 20 \<le> data_end m \<and> 5 \<le> words \<and> nh + 4 * words \<le> data_end m
     then Some (uint (frame m ! (nh + 9)), nh + 4 * words, Some nh)
     else Some (-1, nh, None))"
proof (cases "nh + 20 \<le> data_end m")
  case True
  then have "nh + 20 \<le> length (frame m)" using assms by (simp add: cursor_in_def wf_ctx_def)
  then have b: "(le_dec (seg nh 1 (frame m)) :: u8) = frame m ! nh"
    and p: "(le_dec (seg (nh + 9) 1 (frame m)) :: u8) = frame m ! (nh + 9)"
    by simp_all
  have "ld8 m nh = Some (frame m ! nh)" and "ld8 m (nh + 9) = Some (frame m ! (nh + 9))"
    using True assms b p by (simp_all add: cursor_in_def mem_simps)
  then show ?thesis using True by (auto simp: parse_iphdr_def Let_def)
next
  case False
  then show ?thesis by (simp add: parse_iphdr_def)
qed

theorem parse_iphdr_spec_witness:
  "parse_iphdr (ctx_of (replicate 24 0x46)) 0 24 = Some (0x46, 24, Some 0)"
  using parse_iphdr_spec [of "ctx_of (replicate 24 0x46)" 0]
  by (simp add: cursor_in_def ctx_of_def wf_ctx_def ihl_of_def)

text \<open>
  C25. Round trip of VLAN parsing: a frame built with a stack of at most
  \<open>VLAN_MAX_DEPTH\<close> tags is parsed back to the EtherType of its payload (in network
  order, as the header says), with the cursor on the payload, the Ethernet header pointer on
  the start of the frame and the collected identifiers equal to the 12-bit identifiers of
  the tags, outermost first.
\<close>

theorem parse_ethhdr_vlan_roundtrip:
  assumes "length macs = 12"
    and "list_all (is_tpid \<circ> fst) tags" and "\<not> is_tpid proto"
    and "length tags \<le> VLAN_MAX_DEPTH" and "length ids = VLAN_MAX_DEPTH"
  shows "let m = ctx_of (tagged_frame macs tags proto payload) in
    parse_ethhdr_vlan m 0 (data_end m) (Some ids) =
    Some (uint (bpf_htons proto), 14 + 4 * length tags, Some 0,
      Some (patch 0 (map (vid \<circ> snd) tags) ids))"
proof -
  let ?f = "tagged_frame macs tags proto payload"
  let ?m = "ctx_of ?f"
  have hp: "seg 12 2 ?f = be16 (tag_type tags proto)"
    using assms by (simp add: tagged_frame_def seg_append)
  have body: "drop 14 (frame ?m) = tag_body tags proto @ payload"
    using assms by (simp add: tagged_frame_def ctx_of_def)
  have len: "length ?f = 14 + 4 * length tags + length payload"
    using assms by (simp add: tagged_frame_def)
  have "vlan_loop ?m (data_end ?m) VLAN_MAX_DEPTH 0 14 (bpf_htons (tag_type tags proto)) (Some ids)
      = Some (14 + 4 * length tags, bpf_htons proto, Some (patch 0 (map (vid \<circ> snd) tags) ids))"
    by (rule vlan_loop_tags [OF body wf_ctx_of]) (use assms len in \<open>auto simp: ctx_of_def\<close>)
  moreover have "ld16 ?m 12 = Some (bpf_htons (tag_type tags proto))"
    using len hp by (simp add: ctx_of_def mem_simps)
  ultimately show ?thesis
    using len by (simp add: parse_ethhdr_vlan_def ctx_of_def)
qed

theorem parse_ethhdr_vlan_roundtrip_witness:
  "let m = ctx_of (tagged_frame (replicate 12 7) [(0x88A8, 0x2064), (0x8100, 0x0005)] 0x0800 [1])
   in parse_ethhdr_vlan m 0 (data_end m) (Some [0, 0]) =
    Some (uint (bpf_htons 0x0800), 22, Some 0, Some [0x064, 5])"
proof -
  have "patch 0 (map (vid \<circ> snd) [(0x88A8 :: u16, 0x2064), (0x8100, 0x0005)]) [0, 0] = [0x064, 5]"
    by (simp add: patch_def vid_def VLAN_VID_MASK_def)
  then show ?thesis
    using parse_ethhdr_vlan_roundtrip [of "replicate 12 7"
        "[(0x88A8, 0x2064), (0x8100, 0x0005)]" "0x0800" "[0, 0]" "[1]"]
    by (simp add: is_tpid_def VLAN_MAX_DEPTH_def)
qed

end
