(* ===== verification/Rewrite_Helpers.thy ===== *)
theory Rewrite_Helpers
  imports Parsing_Helpers
begin

unbundle bit_operations_syntax

section \<open>Packet rewriting\<close>

text \<open>
  \<open>common/rewrite_helpers.h\<close>: pushing and popping a VLAN tag, and the swaps of source
  and destination addresses. \<open>bpf_xdp_adjust_head\<close> is a kernel helper outside the
  repository; it is the parameter \<open>adj\<close> of the two VLAN operations, and
  \<open>adjust_head_ok\<close> states what its documentation in \<open>uapi/linux/bpf.h\<close> promises:
  a call that returns 0 has moved \<open>data\<close> by \<open>delta\<close> bytes and kept the bytes of the
  packet that are still in it.
\<close>

type_synonym adjust_head = "xdp_md \<Rightarrow> int \<Rightarrow> int \<times> xdp_md"

definition adjust_head_ok :: "adjust_head \<Rightarrow> bool" where
  "adjust_head_ok adj \<longleftrightarrow>
     (\<forall>ctx delta ctx'. wf_ctx ctx \<longrightarrow> adj ctx delta = (0, ctx') \<longrightarrow>
        wf_ctx ctx' \<and>
        (if 0 \<le> delta
         then nat delta \<le> length (packet ctx) \<and> packet ctx' = drop (nat delta) (packet ctx)
         else nat (- delta) \<le> length (packet ctx') \<and>
           drop (nat (- delta)) (packet ctx') = packet ctx))"

definition vlan_tag_pop :: "adjust_head \<Rightarrow> xdp_md \<Rightarrow> ptr \<Rightarrow> (int \<times> xdp_md) option" where
  "vlan_tag_pop adj ctx eth = do {
     hp \<leftarrow> ld16 ctx (h_proto eth);
     if \<not> proto_is_vlan hp then Some (-1, ctx)
     else let vlh = eth + sizeof_ethhdr in
     if vlh + sizeof_vlan_hdr > data_end ctx then Some (-1, ctx)
     else do {
       tci \<leftarrow> ld16 ctx (h_vlan_TCI vlh);
       let vlid = uint (bpf_ntohs tci);
       inner \<leftarrow> ld16 ctx (h_vlan_encapsulated_proto vlh);
       eth_cpy \<leftarrow> ld ctx eth sizeof_ethhdr;
       (case adj ctx (int sizeof_vlan_hdr) of (ret, ctx1) \<Rightarrow>
         if ret \<noteq> 0 then Some (-1, ctx1)
         else let eth1 = data ctx1 in
         if eth1 + sizeof_ethhdr > data_end ctx1 then Some (-1, ctx1)
         else do {
           ctx2 \<leftarrow> st ctx1 eth1 eth_cpy;
           ctx3 \<leftarrow> st16 ctx2 (h_proto eth1) inner;
           Some (vlid, ctx3)
         })
     }
   }"

definition vlan_tag_push :: "adjust_head \<Rightarrow> xdp_md \<Rightarrow> ptr \<Rightarrow> int \<Rightarrow> (int \<times> xdp_md) option" where
  "vlan_tag_push adj ctx eth vlid = do {
     eth_cpy \<leftarrow> ld ctx eth sizeof_ethhdr;
     (case adj ctx (0 - int sizeof_vlan_hdr) of (ret, ctx1) \<Rightarrow>
       if ret \<noteq> 0 then Some (-1, ctx1)
       else let eth1 = data ctx1 in
       if eth1 + sizeof_ethhdr > data_end ctx1 then Some (-1, ctx1)
       else do {
         ctx2 \<leftarrow> st ctx1 eth1 eth_cpy;
         let vlh = eth1 + sizeof_ethhdr;
         if vlh + sizeof_vlan_hdr > data_end ctx2 then Some (-1, ctx2)
         else do {
           ctx3 \<leftarrow> st16 ctx2 (h_vlan_TCI vlh) (bpf_htons (word_of_int vlid));
           hp \<leftarrow> ld16 ctx3 (h_proto eth1);
           ctx4 \<leftarrow> st16 ctx3 (h_vlan_encapsulated_proto vlh) hp;
           ctx5 \<leftarrow> st16 ctx4 (h_proto eth1) (bpf_htons ETH_P_8021Q);
           Some (0, ctx5)
         }
       })
   }"

definition swap_src_dst_mac :: "xdp_md \<Rightarrow> ptr \<Rightarrow> xdp_md option" where
  "swap_src_dst_mac ctx eth = do {
     h_tmp \<leftarrow> ld ctx (h_source eth) ETH_ALEN;
     d \<leftarrow> ld ctx (h_dest eth) ETH_ALEN;
     ctx1 \<leftarrow> st ctx (h_source eth) d;
     st ctx1 (h_dest eth) h_tmp
   }"

definition swap_src_dst_ipv6 :: "xdp_md \<Rightarrow> ptr \<Rightarrow> xdp_md option" where
  "swap_src_dst_ipv6 ctx ipv6 = do {
     tmp \<leftarrow> ld ctx (ip6_saddr ipv6) 16;
     d \<leftarrow> ld ctx (ip6_daddr ipv6) 16;
     ctx1 \<leftarrow> st ctx (ip6_saddr ipv6) d;
     st ctx1 (ip6_daddr ipv6) tmp
   }"

definition swap_src_dst_ipv4 :: "xdp_md \<Rightarrow> ptr \<Rightarrow> xdp_md option" where
  "swap_src_dst_ipv4 ctx iphdr = do {
     tmp \<leftarrow> ld32 ctx (ip_saddr iphdr);
     d \<leftarrow> ld32 ctx (ip_daddr iphdr);
     ctx1 \<leftarrow> st32 ctx (ip_saddr iphdr) d;
     st32 ctx1 (ip_daddr iphdr) tmp
   }"

subsection \<open>Pushing and popping a tag, on packets\<close>

definition push_tag :: "u16 \<Rightarrow> u8 list \<Rightarrow> u8 list" where
  "push_tag tci pkt = take 12 pkt @ be16 ETH_P_8021Q @ be16 tci @ drop 12 pkt"

definition pop_tag :: "u8 list \<Rightarrow> u8 list" where
  "pop_tag pkt = take 12 pkt @ drop 16 pkt"

lemma pop_push_tag: "12 \<le> length pkt \<Longrightarrow> pop_tag (push_tag tci pkt) = pkt"
  by (simp add: pop_tag_def push_tag_def)

lemma length_push_tag [simp]: "12 \<le> length pkt \<Longrightarrow> length (push_tag tci pkt) = length pkt + 4"
  by (simp add: push_tag_def)

text \<open>The stores of the two operations, as list surgery.\<close>

lemma push_patches:
  assumes "14 \<le> length pkt" and "drop 4 p1 = pkt" and "4 \<le> length p1"
  shows "patch 12 (be16 ETH_P_8021Q) (patch 16 (seg 12 2 pkt)
      (patch 14 (be16 tci) (patch 0 (seg 0 14 pkt) p1))) = push_tag tci pkt"
proof -
  have len: "length p1 = length pkt + 4" using assms by auto
  have nth: "p1 ! i = pkt ! (i - 4)" if "4 \<le> i" "i < length p1" for i
    using that assms(2) by auto
  show ?thesis
    by (rule nth_equalityI)
      (use assms(1) len nth in \<open>auto simp: nth_patch push_tag_def nth_append\<close>)
qed

lemma pop_patches:
  assumes "18 \<le> length pkt"
  shows "patch 12 (seg 16 2 pkt) (patch 0 (seg 0 14 pkt) (drop 4 pkt)) = pop_tag pkt"
  by (rule nth_equalityI) (use assms in \<open>auto simp: nth_patch pop_tag_def nth_append\<close>)

lemma adjust_head_push:
  assumes "adjust_head_ok adj" and "wf_ctx ctx" and "adj ctx (- 4) = (0, ctx1)"
  shows "wf_ctx ctx1 \<and> 4 \<le> length (packet ctx1) \<and> drop 4 (packet ctx1) = packet ctx"
  using assms unfolding adjust_head_ok_def by fastforce

lemma adjust_head_pop:
  assumes "adjust_head_ok adj" and "wf_ctx ctx" and "adj ctx 4 = (0, ctx1)"
  shows "wf_ctx ctx1 \<and> packet ctx1 = drop 4 (packet ctx)"
  using assms unfolding adjust_head_ok_def by fastforce

lemma vlan_tag_push_run:
  assumes "adjust_head_ok adj" and "wf_ctx ctx" and "14 \<le> length (packet ctx)"
  shows "vlan_tag_push adj ctx (data ctx) vlid =
    (case adj ctx (- 4) of (ret, ctx1) \<Rightarrow>
       if ret \<noteq> 0 then Some (-1, ctx1)
       else Some (0, set_packet ctx1 (push_tag (word_of_int vlid) (packet ctx))))"
proof -
  obtain ret ctx1 where adj: "adj ctx (- 4) = (ret, ctx1)" by fastforce
  have cpy: "ld ctx (data ctx) 14 = Some (seg 0 14 (packet ctx))"
    using assms by (simp add: pkt_simps)
  show ?thesis
  proof (cases "ret = 0")
    case False
    then show ?thesis by (simp add: vlan_tag_push_def cpy adj)
  next
    case True
    let ?p = "packet ctx" and ?q = "packet ctx1"
    note ok = adjust_head_push [OF assms(1,2) adj [unfolded True]]
    have len: "length ?q = length ?p + 4" using ok by (metis length_drop le_add_diff_inverse2)
    have dend: "data_end ctx1 = data ctx1 + length ?q" using ok data_end_packet by blast
    let ?q2 = "patch 0 (seg 0 14 ?p) ?q"
    let ?q3 = "patch 14 (be16 (word_of_int vlid)) ?q2"
    have type: "seg 12 2 ?q3 = seg 12 2 ?p"
      by (rule nth_equalityI) (use assms len in \<open>auto simp: nth_patch\<close>)
    have "vlan_tag_push adj ctx (data ctx) vlid =
        Some (0, set_packet ctx1 (patch 12 (be16 ETH_P_8021Q) (patch 16 (seg 12 2 ?p) ?q3)))"
      using True assms ok len type
      by (simp add: vlan_tag_push_def cpy adj dend pkt_simps Let_def be16_def le_enc_dec)
    then show ?thesis
      using True assms(3) ok by (simp add: adj push_patches)
  qed
qed

lemma vlan_tag_pop_run:
  assumes "adjust_head_ok adj" and "wf_ctx ctx" and "18 \<le> length (packet ctx)"
    and "proto_is_vlan (le_dec (seg 12 2 (packet ctx)))"
  shows "vlan_tag_pop adj ctx (data ctx) =
    (case adj ctx 4 of (ret, ctx1) \<Rightarrow>
       if ret \<noteq> 0 then Some (-1, ctx1)
       else Some (uint (bpf_ntohs (le_dec (seg 14 2 (packet ctx)))),
         set_packet ctx1 (pop_tag (packet ctx))))"
proof -
  obtain ret ctx1 where adj: "adj ctx 4 = (ret, ctx1)" by fastforce
  let ?p = "packet ctx" and ?q = "packet ctx1"
  have dend: "data_end ctx = data ctx + length ?p" using assms data_end_packet by blast
  show ?thesis
  proof (cases "ret = 0")
    case False
    then show ?thesis
      using assms by (simp add: vlan_tag_pop_def adj dend pkt_simps Let_def)
  next
    case True
    note ok = adjust_head_pop [OF assms(1,2) adj [unfolded True]]
    have dend1: "data_end ctx1 = data ctx1 + length ?q" using ok data_end_packet by blast
    have "vlan_tag_pop adj ctx (data ctx) =
        Some (uint (bpf_ntohs (le_dec (seg 14 2 ?p))),
          set_packet ctx1 (patch 12 (seg 16 2 ?p) (patch 0 (seg 0 14 ?p) (drop 4 ?p))))"
      using True assms ok
      by (auto simp: vlan_tag_pop_def adj dend dend1 pkt_simps Let_def le_enc_dec)
    then show ?thesis using True assms(3) by (simp add: adj pop_patches)
  qed
qed

text \<open>
  C24. Round trip of VLAN rewriting: if a tag was pushed onto a packet with a complete
  Ethernet header and the helper lets it be popped again, popping returns the low 16 bits of
  the pushed identifier and restores the packet byte for byte.
\<close>

theorem vlan_push_pop_roundtrip:
  assumes "adjust_head_ok adj" and "wf_ctx ctx" and "14 \<le> length (packet ctx)"
    and "vlan_tag_push adj ctx (data ctx) vlid = Some (0, ctx1)"
    and "fst (adj ctx1 4) = 0"
  shows "\<exists>ctx2. vlan_tag_pop adj ctx1 (data ctx1) = Some (vlid mod 65536, ctx2) \<and>
    packet ctx2 = packet ctx"
proof -
  let ?p = "push_tag (word_of_int vlid) (packet ctx)"
  obtain ctx0 where adj0: "adj ctx (- 4) = (0, ctx0)" and ctx1: "ctx1 = set_packet ctx0 ?p"
    using assms(4) by (auto simp: vlan_tag_push_run [OF assms(1-3)] split: prod.splits if_splits)
  note ok = adjust_head_push [OF assms(1,2) adj0]
  have "length (packet ctx) = length (packet ctx0) - 4" using ok by (metis length_drop)
  then have len: "length ?p = length (packet ctx0)" using ok assms(3) by simp
  have wf1: "wf_ctx ctx1" and pkt1: "packet ctx1 = ?p" using ok len by (simp_all add: ctx1)
  obtain ctx2 where adj1: "adj ctx1 4 = (0, ctx2)" using assms(5) by (metis prod.collapse)
  note ok1 = adjust_head_pop [OF assms(1) wf1 adj1]
  have type: "seg 12 2 ?p = be16 ETH_P_8021Q" and tci: "seg 14 2 ?p = be16 (word_of_int vlid)"
    using assms(3) by (simp_all add: push_tag_def seg_def)
  have "vlan_tag_pop adj ctx1 (data ctx1) =
      Some (uint (word_of_int vlid :: u16), set_packet ctx2 (packet ctx))"
    using vlan_tag_pop_run [OF assms(1) wf1] assms(3)
    by (simp add: pkt1 type tci is_tpid_def adj1 pop_push_tag)
  moreover have "uint (word_of_int vlid :: u16) = vlid mod 65536"
    by (simp add: uint_word_of_int)
  moreover have "packet (set_packet ctx2 (packet ctx)) = packet ctx"
    using ok1 pkt1 assms(3) by (intro packet_set_packet) auto
  ultimately show ?thesis by auto
qed

text \<open>
  An implementation of the helper inside one frame, which shows that the contract can hold:
  \<open>data\<close> moves by \<open>delta\<close> as long as it stays in front of \<open>data_end\<close> and inside the
  frame.
\<close>

definition adjust_head_in_frame :: adjust_head where
  "adjust_head_in_frame ctx delta =
     (let d = int (data ctx) + delta in
      if d < 0 \<or> int (data_end ctx) < d then (-22, ctx)
      else (0, ctx\<lparr>data := nat d\<rparr>))"

lemma adjust_head_in_frame_ok: "adjust_head_ok adjust_head_in_frame"
proof -
  have "wf_ctx ctx' \<and>
      (if 0 \<le> delta
       then nat delta \<le> length (packet ctx) \<and> packet ctx' = drop (nat delta) (packet ctx)
       else nat (- delta) \<le> length (packet ctx') \<and> drop (nat (- delta)) (packet ctx') = packet ctx)"
    if wf: "wf_ctx ctx" and adj: "adjust_head_in_frame ctx delta = (0, ctx')" for ctx delta ctx'
  proof -
    have ctx': "ctx' = ctx\<lparr>data := nat (int (data ctx) + delta)\<rparr>"
      and d: "0 \<le> int (data ctx) + delta" "int (data ctx) + delta \<le> int (data_end ctx)"
      using adj by (auto simp: adjust_head_in_frame_def Let_def split: if_splits)
    have "nat (- delta) + nat (delta + int (data ctx)) = data ctx" if "delta < 0"
      using d that by simp
    then show ?thesis
      using wf d by (auto simp: ctx' wf_ctx_def packet_def seg_def drop_take nat_add_distrib
          add.commute simp flip: nat_diff_distrib')
  qed
  then show ?thesis unfolding adjust_head_ok_def by blast
qed

theorem vlan_push_pop_roundtrip_witness:
  "let ctx = \<lparr>frame = replicate 16 0 @ [8, 0, 1], data = 4, data_end = 19\<rparr> in
   \<exists>ctx1 ctx2. vlan_tag_push adjust_head_in_frame ctx (data ctx) 0x10064 = Some (0, ctx1) \<and>
     vlan_tag_pop adjust_head_in_frame ctx1 (data ctx1) = Some (100, ctx2) \<and>
     packet ctx2 = packet ctx"
proof -
  let ?ctx = "\<lparr>frame = replicate 16 0 @ [8, 0, 1], data = 4, data_end = 19\<rparr> :: xdp_md"
  let ?p = "push_tag (word_of_int 0x10064) (packet ?ctx)"
  let ?ctx1 = "set_packet (?ctx\<lparr>data := 0\<rparr>) ?p"
  have wf: "wf_ctx ?ctx" by (simp add: wf_ctx_def)
  have len: "14 \<le> length (packet ?ctx)" by (simp add: packet_def seg_def)
  have push: "vlan_tag_push adjust_head_in_frame ?ctx (data ?ctx) 0x10064 = Some (0, ?ctx1)"
    by (subst vlan_tag_push_run [OF adjust_head_in_frame_ok wf len])
      (simp add: adjust_head_in_frame_def Let_def)
  have "fst (adjust_head_in_frame ?ctx1 4) = 0"
    by (simp add: adjust_head_in_frame_def Let_def)
  from vlan_push_pop_roundtrip [OF adjust_head_in_frame_ok wf len push this] push
  show ?thesis by (simp add: Let_def)
qed

text \<open>
  What \<open>vlan_tag_pop\<close> does on every packet with a complete Ethernet header: an untagged
  packet, or one whose tag is cut off, is refused and left unchanged; otherwise, unless the
  helper refuses, the four bytes of the outermost tag are removed and the result is the whole
  16-bit tag control word in host order. The result is not masked to the 12 bits of the VLAN
  identifier: priority bits are returned with it.
\<close>

lemma vlan_tag_pop_spec:
  assumes "adjust_head_ok adj" and "wf_ctx ctx" and "14 \<le> length (packet ctx)"
  shows "vlan_tag_pop adj ctx (data ctx) =
    (let pkt = packet ctx in
     if \<not> proto_is_vlan (le_dec (seg 12 2 pkt)) \<or> length pkt < 18 then Some (-1, ctx)
     else case adj ctx 4 of (ret, ctx1) \<Rightarrow>
       if ret \<noteq> 0 then Some (-1, ctx1)
       else Some (uint (bpf_ntohs (le_dec (seg 14 2 pkt))), set_packet ctx1 (pop_tag pkt)))"
proof (cases "proto_is_vlan (le_dec (seg 12 2 (packet ctx))) \<and> 18 \<le> length (packet ctx)")
  case True
  then show ?thesis
    using vlan_tag_pop_run [OF assms(1,2)] by (simp add: Let_def split: prod.splits)
next
  case False
  then show ?thesis
    using assms by (auto simp: vlan_tag_pop_def pkt_simps Let_def data_end_packet)
qed

subsection \<open>Address swaps\<close>

text \<open>Swapping two adjacent fields of equal length at offset \<open>q\<close> of the packet.\<close>

definition swap_fields :: "nat \<Rightarrow> nat \<Rightarrow> u8 list \<Rightarrow> u8 list" where
  "swap_fields q n pkt = patch q (seg (q + n) n pkt @ seg q n pkt) pkt"

lemma length_swap_fields [simp]:
  "q + 2 * n \<le> length pkt \<Longrightarrow> length (swap_fields q n pkt) = length pkt"
  by (simp add: swap_fields_def)

lemma swap_fields_patch:
  assumes "q + 2 * n \<le> length pkt"
  shows "patch (q + n) (seg q n pkt) (patch q (seg (q + n) n pkt) pkt) = swap_fields q n pkt"
    and "patch q (seg (q + n) n pkt) (patch (q + n) (seg q n pkt) pkt) = swap_fields q n pkt"
  by (rule nth_equalityI;
      use assms in \<open>auto simp: swap_fields_def nth_patch nth_append\<close>)+

lemma swap_fields_invol:
  assumes "q + 2 * n \<le> length pkt"
  shows "swap_fields q n (swap_fields q n pkt) = pkt"
  by (rule nth_equalityI)
    (use assms in \<open>auto simp: swap_fields_def nth_patch nth_append seg_patch_same\<close>)

lemma swap_src_dst_mac_run:
  "wf_ctx ctx \<Longrightarrow> q + 12 \<le> length (packet ctx) \<Longrightarrow>
   swap_src_dst_mac ctx (data ctx + q) = Some (set_packet ctx (swap_fields q 6 (packet ctx)))"
  using swap_fields_patch [of q 6 "packet ctx"]
  by (simp add: swap_src_dst_mac_def pkt_simps)

lemma swap_src_dst_ipv6_run:
  "wf_ctx ctx \<Longrightarrow> q + 40 \<le> length (packet ctx) \<Longrightarrow>
   swap_src_dst_ipv6 ctx (data ctx + q) =
     Some (set_packet ctx (swap_fields (q + 8) 16 (packet ctx)))"
  using swap_fields_patch [of "q + 8" 16 "packet ctx"]
  by (simp add: swap_src_dst_ipv6_def pkt_simps add.assoc)

lemma swap_src_dst_ipv4_run:
  "wf_ctx ctx \<Longrightarrow> q + 20 \<le> length (packet ctx) \<Longrightarrow>
   swap_src_dst_ipv4 ctx (data ctx + q) =
     Some (set_packet ctx (swap_fields (q + 12) 4 (packet ctx)))"
  using swap_fields_patch [of "q + 12" 4 "packet ctx"]
  by (simp add: swap_src_dst_ipv4_def pkt_simps add.assoc le_enc_dec)

end
