(* ===== verification/Xdp_Stats.thy ===== *)
theory Xdp_Stats
  imports Xdp_Packet
begin

unbundle bit_operations_syntax

section \<open>Per-action packet counters\<close>

text \<open>
  \<open>common/xdp_stats_kern.h\<close> and \<open>common/xdp_stats_kern_user.h\<close>. The map
  \<open>xdp_stats_map\<close> is a per-CPU array, so the program only ever sees the records of the
  CPU it runs on: the state is the array of one CPU, a partial map from \<open>__u32\<close> keys. A
  successful lookup yields a pointer to the live record, so the increments through it are
  increments of the map. \<open>stats_map_ok\<close> is the kernel's documented guarantee for array
  maps: exactly the keys below \<open>max_entries\<close> have a record.
\<close>

record datarec =
  rx_packets :: u64
  rx_bytes :: u64

type_synonym stats_map = "u32 \<rightharpoonup> datarec"

definition XDP_ACTION_MAX :: u32 where
  "XDP_ACTION_MAX = action_u32 XDP_REDIRECT + 1"

definition stats_map_ok :: "stats_map \<Rightarrow> bool" where
  "stats_map_ok m \<longleftrightarrow> dom m = {k. k < XDP_ACTION_MAX}"

definition xdp_stats_record_action :: "stats_map \<Rightarrow> xdp_md \<Rightarrow> u32 \<Rightarrow> u32 \<times> stats_map" where
  "xdp_stats_record_action m ctx action =
     (if action \<ge> XDP_ACTION_MAX then (action_u32 XDP_ABORTED, m)
      else case m action of
        None \<Rightarrow> (action_u32 XDP_ABORTED, m)
      | Some rec \<Rightarrow>
          (let rec1 = rec\<lparr>rx_packets := rx_packets rec + 1\<rparr>;
               rec2 = rec1\<lparr>rx_bytes := rx_bytes rec1 +
                 ucast ((of_nat (data_end ctx) :: u32) - of_nat (data ctx))\<rparr>
           in (action, m(action \<mapsto> rec2))))"

text \<open>A run of the program on one CPU: one call per packet, each with its verdict.\<close>

fun stats_run :: "stats_map \<Rightarrow> (xdp_md \<times> u32) list \<Rightarrow> stats_map" where
  "stats_run m [] = m"
| "stats_run m ((ctx, a) # evs) = stats_run (snd (xdp_stats_record_action m ctx a)) evs"

lemma stats_map_okD: "stats_map_ok m \<Longrightarrow> k < XDP_ACTION_MAX \<Longrightarrow> \<exists>r. m k = Some r"
  by (auto simp: stats_map_ok_def)

lemma record_keeps_ok:
  "stats_map_ok m \<Longrightarrow> stats_map_ok (snd (xdp_stats_record_action m ctx a))"
  by (auto simp: xdp_stats_record_action_def stats_map_ok_def Let_def split: option.splits)

lemma packet_bytes_u64:
  assumes "wf_ctx ctx" and "length (packet ctx) < 2 ^ 32"
  shows "(ucast ((of_nat (data_end ctx) :: u32) - of_nat (data ctx)) :: u64) =
    of_nat (length (packet ctx))"
proof -
  have "(of_nat (data_end ctx) :: u32) - of_nat (data ctx) = of_nat (length (packet ctx))"
    using assms by (simp add: length_packet wf_ctx_def of_nat_diff)
  then show ?thesis
    using assms(2) by (simp add: unsigned_of_nat take_bit_nat_eq_self)
qed

text \<open>The records that hold the counters of verdict \<open>a\<close>, before and after one call.\<close>

lemma record_counts:
  assumes "stats_map_ok m" and "wf_ctx ctx" and "length (packet ctx) < 2 ^ 32"
    and "k < XDP_ACTION_MAX"
  shows "\<exists>r r'. m k = Some r \<and> snd (xdp_stats_record_action m ctx a) k = Some r' \<and>
    rx_packets r' = rx_packets r + (if a = k then 1 else 0) \<and>
    rx_bytes r' = rx_bytes r + (if a = k then of_nat (length (packet ctx)) else 0)"
proof -
  obtain r where r: "m k = Some r" using stats_map_okD assms(1,4) by blast
  then show ?thesis
    using assms(4) packet_bytes_u64 [OF assms(2,3)]
    by (auto simp: xdp_stats_record_action_def Let_def not_le split: option.splits)
qed

text \<open>
  C36. The counters count: after any sequence of calls on one CPU, the record of every action
  has grown by exactly the number of packets that got this verdict and by the sum of their
  lengths, both modulo \<open>2 ^ 64\<close>; calls with an action out of range change nothing.
\<close>

theorem stats_run_counts:
  assumes "stats_map_ok m" and "k < XDP_ACTION_MAX"
    and "list_all (\<lambda>(ctx, a). wf_ctx ctx \<and> length (packet ctx) < 2 ^ 32) evs"
  shows "\<exists>r r'. m k = Some r \<and> stats_run m evs k = Some r' \<and>
    rx_packets r' = rx_packets r + of_nat (length (filter (\<lambda>(ctx, a). a = k) evs)) \<and>
    rx_bytes r' = rx_bytes r +
      of_nat (sum_list (map (\<lambda>(ctx, a). length (packet ctx)) (filter (\<lambda>(ctx, a). a = k) evs)))"
  using assms
proof (induction evs arbitrary: m)
  case Nil
  then obtain r where "m k = Some r" using stats_map_okD by blast
  then show ?case by simp
next
  case (Cons ev evs)
  obtain ctx a where ev: "ev = (ctx, a)" by fastforce
  let ?m = "snd (xdp_stats_record_action m ctx a)"
  have "\<exists>r r'. ?m k = Some r \<and> stats_run ?m evs k = Some r' \<and>
    rx_packets r' = rx_packets r + of_nat (length (filter (\<lambda>(ctx, a). a = k) evs)) \<and>
    rx_bytes r' = rx_bytes r +
      of_nat (sum_list (map (\<lambda>(ctx, a). length (packet ctx)) (filter (\<lambda>(ctx, a). a = k) evs)))"
    using Cons.prems by (intro Cons.IH) (auto simp: record_keeps_ok)
  moreover have "\<exists>r r'. m k = Some r \<and> ?m k = Some r' \<and>
      rx_packets r' = rx_packets r + (if a = k then 1 else 0) \<and>
      rx_bytes r' = rx_bytes r + (if a = k then of_nat (length (packet ctx)) else 0)"
    using Cons.prems ev by (intro record_counts) auto
  ultimately show ?case by (auto simp: ev add.assoc)
qed

theorem stats_run_counts_witness:
  "let m0 = (\<lambda>k. if k < 5 then Some \<lparr>rx_packets = 7, rx_bytes = - 1\<rparr> else None) in
   \<exists>r'. stats_run m0 [(ctx_of [1, 2, 3], 3), (ctx_of [1], 9), (ctx_of [4], 3)] 3 = Some r' \<and>
     rx_packets r' = 9 \<and> rx_bytes r' = 3"
proof -
  let ?m = "\<lambda>k :: u32. if k < 5 then Some \<lparr>rx_packets = 7, rx_bytes = - 1\<rparr> else None"
  have "stats_map_ok ?m"
    by (auto simp: stats_map_ok_def XDP_ACTION_MAX_def dom_def split: if_splits)
  from stats_run_counts [OF this, of 3 "[(ctx_of [1, 2, 3], 3), (ctx_of [1], 9), (ctx_of [4], 3)]"]
  show ?thesis by (simp add: XDP_ACTION_MAX_def)
qed

text \<open>
  The verdict a program returns through \<open>xdp_stats_record_action\<close> is the verdict it
  asked for whenever that is a valid action; a value that is no action turns into
  \<open>XDP_ABORTED\<close> and is not counted.
\<close>

lemma record_action_verdict:
  assumes "stats_map_ok m"
  shows "xdp_stats_record_action m ctx action =
    (if action < XDP_ACTION_MAX
     then (action, snd (xdp_stats_record_action m ctx action)) else (0, m))"
proof (cases "action < XDP_ACTION_MAX")
  case True
  then obtain r where "m action = Some r" using stats_map_okD assms by blast
  then show ?thesis using True by (auto simp: xdp_stats_record_action_def Let_def)
next
  case False
  then show ?thesis by (auto simp: xdp_stats_record_action_def)
qed

end
