(* ===== verification/Xdp_Echo.thy ===== *)
theory Xdp_Echo
  imports Rewrite_Helpers
begin

unbundle bit_operations_syntax

section \<open>The echo programs\<close>

text \<open>
  \<open>xdp/xdp_echo_kern.c\<close> (\<open>xdp_udp_echo\<close>) and \<open>xdp/xdp_icmp_echo.c\<close>
  (\<open>xdp_icmp_echo\<close>): the programs the repository attaches to a device to answer packets
  below the network stack. Both are translated statement by statement, in order, because the
  fields they write may overlap the ones they read later on a malformed packet.
  \<open>bpf_csum_diff\<close> is a kernel helper outside the repository and a parameter of the
  ICMP program: it gets the two buffers (their lengths are the size arguments) and the seed.
\<close>

definition xdp_udp_echo :: "xdp_md \<Rightarrow> (xdp_action \<times> xdp_md) option" where
  "xdp_udp_echo ctx =
     (if data ctx + sizeof_ethhdr + sizeof_iphdr + sizeof_udphdr > data_end ctx
      then Some (XDP_ABORTED, ctx)
      else let eth = data ctx; ip = data ctx + sizeof_ethhdr; udp = ip + sizeof_iphdr in do {
        proto \<leftarrow> ld8 ctx (ip_protocol ip);
        if proto \<noteq> IPPROTO_UDP then Some (XDP_PASS, ctx)
        else do {
          tmp \<leftarrow> ld ctx (h_dest eth) ETH_ALEN;
          src \<leftarrow> ld ctx (h_source eth) ETH_ALEN;
          ctx \<leftarrow> st ctx (h_dest eth) src;
          ctx \<leftarrow> st ctx (h_source eth) tmp;
          sip \<leftarrow> ld32 ctx (ip_saddr ip);
          dip \<leftarrow> ld32 ctx (ip_daddr ip);
          ctx \<leftarrow> st32 ctx (ip_saddr ip) dip;
          ctx \<leftarrow> st32 ctx (ip_daddr ip) sip;
          ctx \<leftarrow> st16 ctx (ip_check ip) 0;
          sp \<leftarrow> ld16 ctx (udp_source udp);
          dp \<leftarrow> ld16 ctx (udp_dest udp);
          ctx \<leftarrow> st16 ctx (udp_source udp) dp;
          ctx \<leftarrow> st16 ctx (udp_dest udp) sp;
          ctx \<leftarrow> st16 ctx (udp_check udp) 0;
          Some (XDP_TX, ctx)
        }
      })"

type_synonym csum_diff = "u8 list \<Rightarrow> u8 list \<Rightarrow> u32 \<Rightarrow> int"

definition icmp_swap_src_dst_mac :: "xdp_md \<Rightarrow> ptr \<Rightarrow> xdp_md option" where
  "icmp_swap_src_dst_mac ctx eth = do {
     tmp \<leftarrow> ld ctx (h_dest eth) ETH_ALEN;
     src \<leftarrow> ld ctx (h_source eth) ETH_ALEN;
     ctx \<leftarrow> st ctx (h_dest eth) src;
     st ctx (h_source eth) tmp
   }"

definition icmp_swap_src_dst_ipv4 :: "xdp_md \<Rightarrow> ptr \<Rightarrow> xdp_md option" where
  "icmp_swap_src_dst_ipv4 ctx ip = do {
     t \<leftarrow> ld32 ctx (ip_saddr ip);
     d \<leftarrow> ld32 ctx (ip_daddr ip);
     ctx \<leftarrow> st32 ctx (ip_saddr ip) d;
     st32 ctx (ip_daddr ip) t
   }"

text \<open>
  Step 7 of the source: the type field and the checksum. \<open>old16\<close> and \<open>new16\<close> are
  16-bit values passed by address with size 2, so the helper sees their two bytes in memory.
\<close>

definition icmp_type_word :: "u8 \<Rightarrow> u8 \<Rightarrow> u16" where
  "icmp_type_word ty code = bpf_htons (ucast ((push_bit 8 (ucast ty) OR ucast code) :: s32))"

definition icmp_set_reply :: "csum_diff \<Rightarrow> xdp_md \<Rightarrow> ptr \<Rightarrow> xdp_md option" where
  "icmp_set_reply csum_diff ctx icmp = do {
     let old = ICMP_ECHO;
     let nw = ICMP_ECHOREPLY;
     code1 \<leftarrow> ld8 ctx (icmp_code icmp);
     let old16 = icmp_type_word old code1;
     code2 \<leftarrow> ld8 ctx (icmp_code icmp);
     let new16 = icmp_type_word nw code2;
     ctx \<leftarrow> st8 ctx (icmp_type icmp) nw;
     sum \<leftarrow> ld16 ctx (icmp_checksum icmp);
     let csum = (word_of_int (csum_diff (le_enc 2 old16) (le_enc 2 new16) (ucast sum)) :: u32);
     st16 ctx (icmp_checksum icmp) (ucast csum)
   }"

definition xdp_icmp_echo :: "csum_diff \<Rightarrow> xdp_md \<Rightarrow> (xdp_action \<times> xdp_md) option" where
  "xdp_icmp_echo csum_diff ctx =
     (if data ctx + sizeof_ethhdr + sizeof_iphdr + sizeof_icmphdr > data_end ctx
      then Some (XDP_PASS, ctx)
      else let eth = data ctx in do {
        hp \<leftarrow> ld16 ctx (h_proto eth);
        if hp \<noteq> bpf_htons ETH_P_IP then Some (XDP_PASS, ctx)
        else let ip = data ctx + sizeof_ethhdr in do {
          proto \<leftarrow> ld8 ctx (ip_protocol ip);
          if proto \<noteq> IPPROTO_ICMP then Some (XDP_PASS, ctx)
          else do {
            b \<leftarrow> ld8 ctx (ip_version_ihl ip);
            let icmp = ip + unat (ihl_of b) * 4;
            if icmp + sizeof_icmphdr > data_end ctx then Some (XDP_PASS, ctx)
            else do {
              ty \<leftarrow> ld8 ctx (icmp_type icmp);
              if ty \<noteq> ICMP_ECHO then Some (XDP_PASS, ctx)
              else do {
                ctx \<leftarrow> icmp_swap_src_dst_mac ctx eth;
                ctx \<leftarrow> icmp_swap_src_dst_ipv4 ctx ip;
                ctx \<leftarrow> st16 ctx (ip_check ip) 0;
                ctx \<leftarrow> icmp_set_reply csum_diff ctx icmp;
                Some (XDP_TX, ctx)
              }
            }
          }
        }
      })"

subsection \<open>The UDP echo\<close>

text \<open>The frame the program sends, field by field.\<close>

definition udp_reply :: "u8 list \<Rightarrow> u8 list" where
  "udp_reply p =
     seg 6 6 p @ seg 0 6 p @ seg 12 12 p @ [0, 0] @ seg 30 4 p @ seg 26 4 p @
     seg 36 2 p @ seg 34 2 p @ seg 38 2 p @ [0, 0] @ drop 42 p"

lemma le_enc_2_0 [simp]: "le_enc 2 (0 :: u16) = [0, 0]"
  by (simp add: numeral_2_eq_2)

lemma length_udp_reply [simp]: "42 \<le> length p \<Longrightarrow> length (udp_reply p) = length p"
  by (simp add: udp_reply_def)

lemma swap_fields_append:
  "length a = q \<Longrightarrow> length x = n \<Longrightarrow> length y = n \<Longrightarrow>
   swap_fields q n (a @ x @ y @ z) = a @ y @ x @ z"
  by (simp add: swap_fields_def seg_def patch_def)

lemma udp_fields:
  assumes "42 \<le> length p"
  shows "p = seg 0 6 p @ seg 6 6 p @ seg 12 12 p @ seg 24 2 p @ seg 26 4 p @ seg 30 4 p @
    seg 34 2 p @ seg 36 2 p @ seg 38 2 p @ seg 40 2 p @ drop 42 p"
proof -
  have "drop q p = seg q n p @ drop (q + n) p" if "q + n \<le> 42" for q n
    using drop_eq_seg_append [of q n p] assms that by simp
  note cut = this
  have "p = drop 0 p" by simp
  also have "\<dots> = seg 0 6 p @ seg 6 6 p @ seg 12 12 p @ seg 24 2 p @ seg 26 4 p @ seg 30 4 p @
      seg 34 2 p @ seg 36 2 p @ seg 38 2 p @ seg 40 2 p @ drop 42 p"
    using cut [of 0 6] cut [of 6 6] cut [of 12 12] cut [of 24 2] cut [of 26 4] cut [of 30 4]
      cut [of 34 2] cut [of 36 2] cut [of 38 2] cut [of 40 2] by simp
  finally show ?thesis .
qed

lemma udp_patches_fields:
  assumes "length dst = 6" "length src = 6" "length ty = 12" "length chk = 2" "length sip = 4"
    "length dip = 4" "length sp = 2" "length dp = 2" "length len = 2" "length uchk = 2"
  shows "patch 40 [0, 0] (swap_fields 34 2 (patch 24 [0, 0] (swap_fields 26 4 (swap_fields 0 6
      (dst @ src @ ty @ chk @ sip @ dip @ sp @ dp @ len @ uchk @ rest))))) =
    src @ dst @ ty @ [0, 0] @ dip @ sip @ dp @ sp @ len @ [0, 0] @ rest"
proof -
  have 1: "swap_fields 0 6 (dst @ src @ ty @ chk @ sip @ dip @ sp @ dp @ len @ uchk @ rest) =
      src @ dst @ ty @ chk @ sip @ dip @ sp @ dp @ len @ uchk @ rest"
    using swap_fields_append [of "[]" 0 dst 6 src] assms by simp
  have 2: "swap_fields 26 4 (src @ dst @ ty @ chk @ sip @ dip @ sp @ dp @ len @ uchk @ rest) =
      src @ dst @ ty @ chk @ dip @ sip @ sp @ dp @ len @ uchk @ rest"
    using swap_fields_append [of "src @ dst @ ty @ chk" 26 sip 4 dip] assms by simp
  have 3: "swap_fields 34 2 (src @ dst @ ty @ [0, 0] @ dip @ sip @ sp @ dp @ len @ uchk @ rest) =
      src @ dst @ ty @ [0, 0] @ dip @ sip @ dp @ sp @ len @ uchk @ rest"
    using swap_fields_append [of "src @ dst @ ty @ [0, 0] @ dip @ sip" 34 sp 2 dp] assms by simp
  show ?thesis
    using assms 3 by (simp add: 1 2 patch_def)
qed

lemma udp_patches:
  assumes "42 \<le> length p"
  shows "patch 40 [0, 0] (swap_fields 34 2 (patch 24 [0, 0] (swap_fields 26 4 (swap_fields 0 6 p))))
    = udp_reply p"
  unfolding udp_reply_def
  by (subst udp_fields [OF assms], rule udp_patches_fields) (use assms in simp_all)

lemma udp_reply_nth23: "42 \<le> length p \<Longrightarrow> udp_reply p ! 23 = p ! 23"
  by (simp add: udp_reply_def nth_append)

lemma udp_reply_fields:
  assumes "length dst = 6" "length src = 6" "length ty = 12" "length chk = 2" "length sip = 4"
    "length dip = 4" "length sp = 2" "length dp = 2" "length len = 2" "length uchk = 2"
  shows "udp_reply (dst @ src @ ty @ chk @ sip @ dip @ sp @ dp @ len @ uchk @ rest) =
    src @ dst @ ty @ [0, 0] @ dip @ sip @ dp @ sp @ len @ [0, 0] @ rest"
  using udp_patches_fields [OF assms, of rest] assms by (simp add: udp_patches)

lemma udp_reply_udp_reply:
  assumes "42 \<le> length p"
  shows "udp_reply (udp_reply p) = patch 40 [0, 0] (patch 24 [0, 0] p)"
proof -
  have "udp_reply (udp_reply (dst @ src @ ty @ chk @ sip @ dip @ sp @ dp @ len @ uchk @ rest)) =
      patch 40 [0, 0] (patch 24 [0, 0]
        (dst @ src @ ty @ chk @ sip @ dip @ sp @ dp @ len @ uchk @ rest))"
    if "length dst = 6" "length src = 6" "length ty = 12" "length chk = 2" "length sip = 4"
      "length dip = 4" "length sp = 2" "length dp = 2" "length len = 2" "length uchk = 2"
    for dst src ty chk sip dip sp dp len uchk rest :: "u8 list"
    using that udp_reply_fields [of src dst ty "[0, 0]" dip sip dp sp len "[0, 0]" rest]
    by (simp add: udp_reply_fields) (simp add: patch_def)
  from this [of "seg 0 6 p" "seg 6 6 p" "seg 12 12 p" "seg 24 2 p" "seg 26 4 p" "seg 30 4 p"
      "seg 34 2 p" "seg 36 2 p" "seg 38 2 p" "seg 40 2 p" "drop 42 p"]
  show ?thesis using assms by (simp flip: udp_fields)
qed

lemma udp_echo_tx:
  assumes "wf_ctx ctx" and "42 \<le> length (packet ctx)" and "packet ctx ! 23 = IPPROTO_UDP"
  shows "xdp_udp_echo ctx = Some (XDP_TX, set_packet ctx (udp_reply (packet ctx)))"
proof -
  let ?p = "packet ctx"
  have swap: "patch 6 (seg 0 6 p) (patch 0 (seg 6 6 p) p) = swap_fields 0 6 p"
    "patch 30 (seg 26 4 p) (patch 26 (seg 30 4 p) p) = swap_fields 26 4 p"
    "patch 36 (seg 34 2 p) (patch 34 (seg 36 2 p) p) = swap_fields 34 2 p"
    if "42 \<le> length p" for p :: "u8 list"
    using that swap_fields_patch(1) [of 0 6 p] swap_fields_patch(1) [of 26 4 p]
      swap_fields_patch(1) [of 34 2 p] by simp_all
  have "xdp_udp_echo ctx = Some (XDP_TX, set_packet ctx (patch 40 [0, 0] (swap_fields 34 2
      (patch 24 [0, 0] (swap_fields 26 4 (swap_fields 0 6 ?p))))))"
    using assms
    by (simp add: xdp_udp_echo_def Let_def data_end_packet pkt_simps add.assoc swap le_enc_dec)
  then show ?thesis using assms by (simp add: udp_patches)
qed

lemma udp_echo_run:
  assumes "wf_ctx ctx"
  shows "xdp_udp_echo ctx =
    (let p = packet ctx in
     if length p < 42 then Some (XDP_ABORTED, ctx)
     else if p ! 23 \<noteq> IPPROTO_UDP then Some (XDP_PASS, ctx)
     else Some (XDP_TX, set_packet ctx (udp_reply p)))"
proof (cases "length (packet ctx) < 42 \<or> packet ctx ! 23 \<noteq> IPPROTO_UDP")
  case True
  then show ?thesis
    using assms by (auto simp: xdp_udp_echo_def Let_def data_end_packet pkt_simps add.assoc)
next
  case False
  then show ?thesis using assms udp_echo_tx by (simp add: Let_def not_less)
qed

text \<open>
  C2. What the UDP echo does on every packet: frames too short for the three headers abort;
  frames whose protocol byte is not UDP are passed on unchanged; every other frame is sent
  back with MAC addresses, IP addresses and ports exchanged, both checksum fields zero, and
  every other byte, the payload included, as it was.
\<close>

theorem xdp_udp_echo_spec:
  assumes "wf_ctx ctx"
  shows "xdp_udp_echo ctx =
    (let p = packet ctx in
     if length p < 42 then Some (XDP_ABORTED, ctx)
     else if p ! 23 \<noteq> IPPROTO_UDP then Some (XDP_PASS, ctx)
     else Some (XDP_TX, set_packet ctx (udp_reply p)))"
  by (rule udp_echo_run [OF assms])

theorem xdp_udp_echo_spec_witness:
  "let p = replicate 23 1 @ [17] @ replicate 18 2 @ [5, 6] in
   xdp_udp_echo (ctx_of p) = Some (XDP_TX, set_packet (ctx_of p) (udp_reply p))"
  using xdp_udp_echo_spec [OF wf_ctx_of, of "replicate 23 1 @ [17] @ replicate 18 2 @ [5, 6]"]
  by (simp add: Let_def nth_append)

interpretation udp_echo: xdp_program xdp_udp_echo
  by unfold_locales
    (auto simp: udp_echo_run Let_def not_less split: if_splits)

text \<open>
  Echoing an echo: the answer is itself answered, and the second answer is the original
  frame up to the two checksum fields, which stay zero.
\<close>

lemma xdp_udp_echo_twice:
  assumes "wf_ctx ctx" and "xdp_udp_echo ctx = Some (XDP_TX, ctx1)"
  shows "\<exists>ctx2. xdp_udp_echo ctx1 = Some (XDP_TX, ctx2) \<and>
    packet ctx2 = patch 40 [0, 0] (patch 24 [0, 0] (packet ctx))"
proof -
  let ?p = "packet ctx"
  have len: "42 \<le> length ?p" and udp: "?p ! 23 = IPPROTO_UDP"
    and ctx1: "ctx1 = set_packet ctx (udp_reply ?p)"
    using assms by (auto simp: udp_echo_run Let_def split: if_splits)
  have "xdp_udp_echo ctx1 = Some (XDP_TX, set_packet ctx1 (udp_reply (udp_reply ?p)))"
    using assms(1) len udp by (simp add: ctx1 udp_echo_run Let_def udp_reply_nth23)
  moreover have "packet (set_packet ctx1 (udp_reply (udp_reply ?p))) = udp_reply (udp_reply ?p)"
    using assms(1) len by (simp add: ctx1)
  ultimately show ?thesis using len by (simp add: udp_reply_udp_reply)
qed

subsection \<open>The Internet checksum of the reply\<close>









subsection \<open>The ICMP echo\<close>

text \<open>Offset of the ICMP header in the frame, and the frames the program answers.\<close>

definition icmp_off :: "u8 list \<Rightarrow> nat" where
  "icmp_off p = 14 + 4 * unat (ihl_of (p ! 14))"

definition is_echo_request :: "u8 list \<Rightarrow> bool" where
  "is_echo_request p \<longleftrightarrow> 42 \<le> length p \<and> seg 12 2 p = [8, 0] \<and> p ! 23 = IPPROTO_ICMP \<and>
     icmp_off p + 8 \<le> length p \<and> p ! icmp_off p = ICMP_ECHO"

text \<open>The writes of the program, in its order, for any header length field.\<close>

definition addr_swap :: "u8 list \<Rightarrow> u8 list" where
  "addr_swap p = patch 24 [0, 0] (swap_fields 26 4 (swap_fields 0 6 p))"

definition reply_csum :: "csum_diff \<Rightarrow> nat \<Rightarrow> u8 list \<Rightarrow> u16" where
  "reply_csum cd h q = ucast (word_of_int (cd (be16 (0x0800 OR ucast (q ! (h + 1))))
     (be16 (ucast (q ! (h + 1)))) (ucast (le_dec (seg (h + 2) 2 (patch h [0] q)) :: u16))) :: u32)"

definition set_reply :: "csum_diff \<Rightarrow> nat \<Rightarrow> u8 list \<Rightarrow> u8 list" where
  "set_reply cd h q = patch (h + 2) (le_enc 2 (reply_csum cd h q)) (patch h [0] q)"

lemma le_enc_2: "le_enc 2 (w :: 'a::len word) = [ucast w, ucast (drop_bit 8 w)]"
  by (simp add: numeral_2_eq_2)

lemma be16_eq: "be16 w = [ucast (drop_bit 8 w), ucast w]"
proof -
  have "be16 w = rev (le_enc 2 w)"
    unfolding be16_def bpf_htons_def builtin_bswap16_def by (rule le_enc_dec) simp_all
  then show ?thesis by (simp add: le_enc_2)
qed

lemma be16_ETH_P_IP: "be16 ETH_P_IP = [8, 0]"
  by (simp add: be16_eq word_unat_eq_iff)

lemma le_dec_eq_htons:
  assumes "length bs = 2"
  shows "(le_dec bs :: u16) = bpf_htons w \<longleftrightarrow> bs = be16 w"
proof
  assume "(le_dec bs :: u16) = bpf_htons w"
  then have "be16 w = le_enc 2 (le_dec bs :: u16)" by (simp add: be16_def)
  also have "\<dots> = bs" by (rule le_enc_dec) (use assms in simp_all)
  finally show "bs = be16 w" by simp
qed simp

lemma icmp_type_word_bytes:
  "le_enc 2 (icmp_type_word 8 c) = be16 (0x0800 OR ucast c)"
  "le_enc 2 (icmp_type_word 0 c) = be16 (ucast c)"
proof -
  have "(ucast (ucast c :: s32) :: u16) = ucast c"
    by (rule bit_word_eqI) (simp add: bit_simps)
  then show "le_enc 2 (icmp_type_word 8 c) = be16 (0x0800 OR ucast c)"
    and "le_enc 2 (icmp_type_word 0 c) = be16 (ucast c)"
    by (simp_all add: icmp_type_word_def be16_def unsigned_or_eq)
qed

lemma length_addr_swap [simp]: "42 \<le> length p \<Longrightarrow> length (addr_swap p) = length p"
  by (simp add: addr_swap_def)

lemma length_set_reply [simp]: "h + 8 \<le> length q \<Longrightarrow> length (set_reply cd h q) = length q"
  by (simp add: set_reply_def)

lemma icmp_set_reply_run:
  assumes "wf_ctx ctx" and "h + 8 \<le> length (packet ctx)"
  shows "icmp_set_reply cd ctx (data ctx + h) = Some (set_packet ctx (set_reply cd h (packet ctx)))"
  using assms
  by (simp add: icmp_set_reply_def Let_def pkt_simps add.assoc icmp_type_word_bytes
      set_reply_def reply_csum_def)

lemma icmp_addr_swap_run:
  assumes "wf_ctx ctx" and "42 \<le> length (packet ctx)"
  shows "do { c \<leftarrow> icmp_swap_src_dst_mac ctx (data ctx);
      c \<leftarrow> icmp_swap_src_dst_ipv4 c (data ctx + 14);
      st16 c (data ctx + 14 + 10) 0 } = Some (set_packet ctx (addr_swap (packet ctx)))"
proof -
  have swap: "patch 6 (seg 0 6 p) (patch 0 (seg 6 6 p) p) = swap_fields 0 6 p"
    "patch 30 (seg 26 4 p) (patch 26 (seg 30 4 p) p) = swap_fields 26 4 p"
    if "42 \<le> length p" for p :: "u8 list"
    using that swap_fields_patch(1) [of 0 6 p] swap_fields_patch(1) [of 26 4 p] by simp_all
  show ?thesis
    using assms by (simp add: icmp_swap_src_dst_mac_def icmp_swap_src_dst_ipv4_def pkt_simps
        add.assoc swap le_enc_dec addr_swap_def)
qed

lemma icmp_echo_run:
  assumes "wf_ctx ctx"
  shows "xdp_icmp_echo cd ctx =
    (let p = packet ctx in
     if is_echo_request p
     then Some (XDP_TX, set_packet ctx (set_reply cd (icmp_off p) (addr_swap p)))
     else Some (XDP_PASS, ctx))"
proof (cases "length (packet ctx) < 42")
  case True
  then show ?thesis
    using assms by (simp add: xdp_icmp_echo_def is_echo_request_def data_end_packet add.assoc)
next
  case False
  let ?p = "packet ctx"
  have len: "42 \<le> length ?p" using False by simp
  have type: "ld16 ctx (data ctx + 12) = Some (le_dec (seg 12 2 ?p))"
    and proto: "ld8 ctx (23 + data ctx) = Some (?p ! 23)"
    and ihl: "ld8 ctx (data ctx + 14) = Some (?p ! 14)"
    using assms len by (simp_all add: pkt_simps add.assoc)
  have ip: "(le_dec (seg 12 2 ?p) :: u16) = bpf_htons ETH_P_IP \<longleftrightarrow> seg 12 2 ?p = [8, 0]"
    using le_dec_eq_htons [of "seg 12 2 ?p" ETH_P_IP] len by (simp add: be16_ETH_P_IP)
  have off: "data ctx + 14 + unat (ihl_of (?p ! 14)) * 4 = data ctx + icmp_off ?p"
    by (simp add: icmp_off_def)
  have bound: "length ?p < 22 + unat (ihl_of (?p ! 14)) * 4 \<longleftrightarrow> \<not> icmp_off ?p + 8 \<le> length ?p"
    by (auto simp: icmp_off_def)
  have swap: "icmp_swap_src_dst_mac ctx (data ctx) \<bind> (\<lambda>c.
      icmp_swap_src_dst_ipv4 c (data ctx + 14) \<bind> (\<lambda>c. st16 c (24 + data ctx) 0 \<bind> k)) =
      k (set_packet ctx (addr_swap ?p))" for k :: "xdp_md \<Rightarrow> (xdp_action \<times> xdp_md) option"
    using arg_cong [OF icmp_addr_swap_run [OF assms len], of "\<lambda>c. c \<bind> k"] by simp
  show ?thesis
  proof (cases "icmp_off ?p + 8 \<le> length ?p")
    case True
    have "ld8 ctx (data ctx + icmp_off ?p) = Some (?p ! icmp_off ?p)"
      using assms True by (simp add: pkt_simps)
    moreover have "icmp_set_reply cd (set_packet ctx (addr_swap ?p)) (data ctx + icmp_off ?p) =
        Some (set_packet ctx (set_reply cd (icmp_off ?p) (addr_swap ?p)))"
      using icmp_set_reply_run [of "set_packet ctx (addr_swap ?p)" "icmp_off ?p"] assms len True
      by simp
    ultimately show ?thesis
      using assms len True
      by (simp add: xdp_icmp_echo_def is_echo_request_def data_end_packet type proto ihl ip off swap
          bound Let_def)
  next
    case False
    then show ?thesis
      using assms len
      by (simp add: xdp_icmp_echo_def is_echo_request_def data_end_packet type proto ihl ip off
          bound Let_def)
  qed
qed

text \<open>
  C26. When the ICMP program answers: exactly the frames that hold an Ethernet header with
  EtherType IPv4, a protocol byte ICMP and, at the offset the header length field gives, an
  echo request; every other frame, malformed ones included, is passed on unchanged.
\<close>

theorem xdp_icmp_echo_verdict:
  assumes "wf_ctx ctx"
  shows "\<exists>ctx'. xdp_icmp_echo cd ctx =
      Some (if is_echo_request (packet ctx) then XDP_TX else XDP_PASS, ctx') \<and>
    (\<not> is_echo_request (packet ctx) \<longrightarrow> ctx' = ctx)"
  using assms by (simp add: icmp_echo_run Let_def)

theorem xdp_icmp_echo_verdict_witness:
  "let p = replicate 12 1 @ [8, 0, 0x45] @ replicate 8 0 @ [1] @ replicate 10 2 @ [8] @ replicate 7 3
   in \<exists>ctx'. xdp_icmp_echo (\<lambda>_ _ _. -22) (ctx_of p) = Some (XDP_TX, ctx')"
proof -
  let ?p = "replicate 12 1 @ [8, 0, 0x45] @ replicate 8 0 @ [1] @ replicate 10 2 @ [8] @
    replicate 7 3 :: u8 list"
  have "is_echo_request ?p"
    by (simp add: is_echo_request_def icmp_off_def ihl_of_def seg_def nth_append)
  with xdp_icmp_echo_verdict [OF wf_ctx_of, of "\<lambda>_ _ _. -22" ?p] show ?thesis
    by (auto simp: Let_def)
qed

interpretation icmp_echo: xdp_program "xdp_icmp_echo cd" for cd
proof (unfold_locales, goal_cases)
  case (1 ctx)
  then show ?case by (simp add: icmp_echo_run Let_def)
next
  case (2 ctx a ctx')
  then show ?case
    by (auto simp: icmp_echo_run Let_def is_echo_request_def split: if_splits)
next
  case (3 ctx a ctx')
  then show ?case
    by (auto simp: icmp_echo_run Let_def is_echo_request_def split: if_splits)
next
  case (4 ctx a ctx')
  then show ?case by (auto simp: icmp_echo_run Let_def split: if_splits)
qed

text \<open>
  C10. Memory safety of the two echo programs: on every packet, whatever its bytes and its
  length, and whatever the checksum helper returns, the program returns without an access
  outside the packet, does not move or resize it, leaves the rest of the frame alone, and
  changes the packet only if it sends it back.
\<close>

theorem echo_programs_safe:
  assumes "prog \<in> {xdp_udp_echo, xdp_icmp_echo cd}" and "wf_ctx ctx"
  shows "\<exists>a ctx'. prog ctx = Some (a, ctx') \<and> data ctx' = data ctx \<and> data_end ctx' = data_end ctx \<and>
    length (packet ctx') = length (packet ctx) \<and> outside ctx' = outside ctx \<and>
    (a \<noteq> XDP_TX \<longrightarrow> ctx' = ctx)"
proof -
  have "xdp_program prog"
    using assms(1) udp_echo.xdp_program_axioms icmp_echo.xdp_program_axioms by auto
  then show ?thesis using xdp_program.safe assms(2) by blast
qed

theorem echo_programs_safe_witness:
  "\<exists>a ctx'. xdp_icmp_echo (\<lambda>_ _ _. 0) \<lparr>frame = replicate 60 8, data = 2, data_end = 59\<rparr> =
      Some (a, ctx') \<and> data ctx' = 2 \<and> data_end ctx' = 59"
  using echo_programs_safe [of "xdp_icmp_echo (\<lambda>_ _ _. 0)" "\<lambda>_ _ _. 0"
      "\<lparr>frame = replicate 60 8, data = 2, data_end = 59\<rparr>"]
  by (auto simp: wf_ctx_def)












end
