(* ===== verification/Xsk_Ring.thy ===== *)
theory Xsk_Ring
  imports Kbn_Prelude
begin

unbundle bit_operations_syntax

section \<open>The AF\_XDP rings\<close>

text \<open>
  \<open>lib/xdp-tools/headers/xdp/xsk.h\<close>: the single-producer, single-consumer rings a socket
  shares with the kernel. The memory both sides see (the two indices, the slots, the flags) is
  the record \<open>shm\<close>; each side has its own \<open>xsk_ring\<close>, the structure the macro
  \<open>DEFINE_XSK_RING\<close> declares twice (producer and consumer view), less the pointers into
  the shared memory. Indices are 32-bit counters that wrap and are masked only when a slot is
  addressed. The operations take and return both records. Each touches at most one shared
  index, with an atomic load or store, so they are the atomic steps of the protocol.
  The theory proves an invariant of every interleaving of the two sides' steps, that reserved
  and peeked slots never collide, and that the ring refines a bounded FIFO queue.
\<close>

record 'a shm =
  producer :: u32
  consumer :: u32
  ring :: "'a list"
  flags :: u32

record xsk_ring =
  cached_prod :: u32
  cached_cons :: u32
  ring_mask :: u32
  ring_size :: u32

definition XDP_RING_NEED_WAKEUP :: u32 where
  "XDP_RING_NEED_WAKEUP = 1"

text \<open>
  \<open>xsk_ring_prod__fill_addr\<close>, \<open>xsk_ring_cons__comp_addr\<close>, \<open>xsk_ring_prod__tx_desc\<close>
  and \<open>xsk_ring_cons__rx_desc\<close> are one computation at two slot types: the slot at the
  masked index. The producer writes through the pointer, the consumer reads through it; an
  index outside the array is a fault.
\<close>

definition slot_index :: "xsk_ring \<Rightarrow> u32 \<Rightarrow> nat" where
  "slot_index r idx = unat (idx AND ring_mask r)"

definition slot_write :: "xsk_ring \<Rightarrow> 'a shm \<Rightarrow> u32 \<Rightarrow> 'a \<Rightarrow> 'a shm option" where
  "slot_write r sh idx v =
     (if slot_index r idx < length (ring sh)
      then Some (sh\<lparr>ring := (ring sh)[slot_index r idx := v]\<rparr>) else None)"

definition slot_read :: "xsk_ring \<Rightarrow> 'a shm \<Rightarrow> u32 \<Rightarrow> 'a option" where
  "slot_read r sh idx =
     (if slot_index r idx < length (ring sh) then Some (ring sh ! slot_index r idx) else None)"

definition xsk_ring_prod__needs_wakeup :: "'a shm \<Rightarrow> u32" where
  "xsk_ring_prod__needs_wakeup sh = flags sh AND XDP_RING_NEED_WAKEUP"

definition xsk_prod_nb_free :: "xsk_ring \<Rightarrow> 'a shm \<Rightarrow> u32 \<Rightarrow> u32 \<times> xsk_ring" where
  "xsk_prod_nb_free r sh nb =
     (let free_entries = cached_cons r - cached_prod r in
      if free_entries \<ge> nb then (free_entries, r)
      else let r1 = r\<lparr>cached_cons := consumer sh\<rparr>;
               r2 = r1\<lparr>cached_cons := cached_cons r1 + ring_size r1\<rparr>
           in (cached_cons r2 - cached_prod r2, r2))"

definition xsk_cons_nb_avail :: "xsk_ring \<Rightarrow> 'a shm \<Rightarrow> u32 \<Rightarrow> u32 \<times> xsk_ring" where
  "xsk_cons_nb_avail r sh nb =
     (let entries = cached_prod r - cached_cons r;
          (entries', r') =
            (if entries = 0
             then let r1 = r\<lparr>cached_prod := producer sh\<rparr> in (cached_prod r1 - cached_cons r1, r1)
             else (entries, r))
      in (if entries' > nb then nb else entries', r'))"

text \<open>The output parameter \<open>*idx\<close> is \<open>None\<close> where the function leaves it alone.\<close>

definition xsk_ring_prod__reserve ::
  "xsk_ring \<Rightarrow> 'a shm \<Rightarrow> u32 \<Rightarrow> u32 \<times> u32 option \<times> xsk_ring" where
  "xsk_ring_prod__reserve p sh nb =
     (case xsk_prod_nb_free p sh nb of (free, p1) \<Rightarrow>
        if free < nb then (0, None, p1)
        else (nb, Some (cached_prod p1), p1\<lparr>cached_prod := cached_prod p1 + nb\<rparr>))"

definition xsk_ring_prod__submit :: "'a shm \<Rightarrow> u32 \<Rightarrow> 'a shm" where
  "xsk_ring_prod__submit sh nb = sh\<lparr>producer := producer sh + nb\<rparr>"

definition xsk_ring_cons__peek ::
  "xsk_ring \<Rightarrow> 'a shm \<Rightarrow> u32 \<Rightarrow> u32 \<times> u32 option \<times> xsk_ring" where
  "xsk_ring_cons__peek cons sh nb =
     (case xsk_cons_nb_avail cons sh nb of (entries, cons1) \<Rightarrow>
        if entries > 0
        then (entries, Some (cached_cons cons1),
              cons1\<lparr>cached_cons := cached_cons cons1 + entries\<rparr>)
        else (entries, None, cons1))"

definition xsk_ring_cons__cancel :: "xsk_ring \<Rightarrow> u32 \<Rightarrow> xsk_ring" where
  "xsk_ring_cons__cancel cons nb = cons\<lparr>cached_cons := cached_cons cons - nb\<rparr>"

definition xsk_ring_cons__release :: "'a shm \<Rightarrow> u32 \<Rightarrow> 'a shm" where
  "xsk_ring_cons__release sh nb = sh\<lparr>consumer := consumer sh + nb\<rparr>"

text \<open>
  Descriptor addresses: the address of a packet inside the mapped area, and the encoding of
  unaligned chunks. Pointers are 64-bit numbers.
\<close>

definition xsk_umem__get_data :: "u64 \<Rightarrow> u64 \<Rightarrow> u64" where
  "xsk_umem__get_data umem_area addr = umem_area + addr"

definition XSK_UNALIGNED_BUF_OFFSET_SHIFT :: nat where
  "XSK_UNALIGNED_BUF_OFFSET_SHIFT = 48"

definition XSK_UNALIGNED_BUF_ADDR_MASK :: u64 where
  "XSK_UNALIGNED_BUF_ADDR_MASK = push_bit XSK_UNALIGNED_BUF_OFFSET_SHIFT 1 - 1"

definition xsk_umem__extract_addr :: "u64 \<Rightarrow> u64" where
  "xsk_umem__extract_addr addr = addr AND XSK_UNALIGNED_BUF_ADDR_MASK"

definition xsk_umem__extract_offset :: "u64 \<Rightarrow> u64" where
  "xsk_umem__extract_offset addr = drop_bit XSK_UNALIGNED_BUF_OFFSET_SHIFT addr"

definition xsk_umem__add_offset_to_addr :: "u64 \<Rightarrow> u64" where
  "xsk_umem__add_offset_to_addr addr = xsk_umem__extract_addr addr + xsk_umem__extract_offset addr"

text \<open>
  Ring setup in \<open>lib/libxdp/xsk.c\<close> (\<open>xsk_socket__create_shared\<close>): the views of a
  fresh TX and RX ring over mapped shared memory.
\<close>

definition tx_ring_setup :: "u32 \<Rightarrow> 'a shm \<Rightarrow> xsk_ring" where
  "tx_ring_setup tx_size sh =
     \<lparr>cached_prod = producer sh, cached_cons = consumer sh + tx_size, ring_mask = tx_size - 1, ring_size = tx_size\<rparr>"

definition rx_ring_setup :: "u32 \<Rightarrow> 'a shm \<Rightarrow> xsk_ring" where
  "rx_ring_setup rx_size sh =
     \<lparr>cached_prod = producer sh, cached_cons = consumer sh, ring_mask = rx_size - 1, ring_size = rx_size\<rparr>"

subsection \<open>Distances on the counter circle\<close>

text \<open>\<open>dist b x\<close> is how far counter \<open>x\<close> is ahead of \<open>b\<close>, in slots.\<close>

definition dist :: "u32 \<Rightarrow> u32 \<Rightarrow> nat" where
  "dist b x = unat (x - b)"

lemma dist_self [simp]: "dist b b = 0"
  by (simp add: dist_def)

lemma dist_inj: "dist b x = dist b y \<longleftrightarrow> x = y"
  by (auto simp: dist_def word_unat_eq_iff [symmetric])

lemma dist_lt: "dist b x < 2 ^ 32"
  using unsigned_less [of "x - b"] by (simp add: dist_def)

lemma dist_diff: "dist b x \<le> dist b y \<Longrightarrow> unat (y - x) = dist b y - dist b x"
proof -
  assume "dist b x \<le> dist b y"
  then have "x - b \<le> y - b" by (simp add: dist_def word_le_nat_alt)
  then have "unat ((y - b) - (x - b)) = unat (y - b) - unat (x - b)" by (rule unat_sub)
  then show ?thesis by (simp add: dist_def)
qed

lemma dist_add: "dist b x + unat n < 2 ^ 32 \<Longrightarrow> dist b (x + n) = dist b x + unat n"
proof -
  assume "dist b x + unat n < 2 ^ 32"
  moreover have eq: "x + n - b = (x - b) + n" by simp
  ultimately show ?thesis unfolding dist_def eq by (simp add: unat_word_ariths)
qed

lemma dist_sub: "unat n \<le> dist b x \<Longrightarrow> dist b (x - n) = dist b x - unat n"
proof -
  assume "unat n \<le> dist b x"
  then have "n \<le> x - b" by (simp add: dist_def word_le_nat_alt)
  moreover have eq: "x - n - b = (x - b) - n" by simp
  ultimately show ?thesis unfolding dist_def eq by (simp add: unat_sub)
qed

lemma dist_base: "unat n \<le> dist b x \<Longrightarrow> dist (b + n) x = dist b x - unat n"
  using dist_sub [of n b x] by (simp add: dist_def diff_diff_add [symmetric] diff_right_commute)

lemma dist_of_nat: "i < 2 ^ 32 \<Longrightarrow> dist b (b + of_nat i) = i"
  by (simp add: dist_def unsigned_of_nat take_bit_nat_eq_self)

lemma dist_chain: "dist b x \<le> dist b y \<Longrightarrow> dist x y = dist b y - dist b x"
  using dist_diff [of b x y] by (simp add: dist_def)

subsection \<open>The protocol\<close>

text \<open>
  One ring with its two sides, and the steps each side may take. The guards are the rules of
  the interface: the producer writes only slots it has reserved and submits at most what it
  has reserved, the consumer gives back at most what it has peeked. A step that breaks a rule
  is \<open>None\<close>.
\<close>

record 'a ring_sys =
  mem :: "'a shm"
  pview :: xsk_ring
  cview :: xsk_ring

datatype 'a ring_op =
    Reserve u32 | Write u32 'a | Submit u32
  | Peek u32 | Cancel u32 | Release u32

fun exec_op :: "'a ring_sys \<Rightarrow> 'a ring_op \<Rightarrow> 'a ring_sys option" where
  "exec_op s (Reserve nb) =
     (case xsk_ring_prod__reserve (pview s) (mem s) nb of (n, idx, p) \<Rightarrow> Some (s\<lparr>pview := p\<rparr>))"
| "exec_op s (Write idx v) =
     (if dist (producer (mem s)) idx < dist (producer (mem s)) (cached_prod (pview s))
      then map_option (\<lambda>m. s\<lparr>mem := m\<rparr>) (slot_write (pview s) (mem s) idx v) else None)"
| "exec_op s (Submit nb) =
     (if unat nb \<le> dist (producer (mem s)) (cached_prod (pview s))
      then Some (s\<lparr>mem := xsk_ring_prod__submit (mem s) nb\<rparr>) else None)"
| "exec_op s (Peek nb) =
     (case xsk_ring_cons__peek (cview s) (mem s) nb of (n, idx, c) \<Rightarrow> Some (s\<lparr>cview := c\<rparr>))"
| "exec_op s (Cancel nb) =
     (if unat nb \<le> dist (consumer (mem s)) (cached_cons (cview s))
      then Some (s\<lparr>cview := xsk_ring_cons__cancel (cview s) nb\<rparr>) else None)"
| "exec_op s (Release nb) =
     (if unat nb \<le> dist (consumer (mem s)) (cached_cons (cview s))
      then Some (s\<lparr>mem := xsk_ring_cons__release (mem s) nb\<rparr>) else None)"

text \<open>
  The invariant. Seen from the shared consumer index, the counters come in the order: what the
  consumer has peeked, what it believes to be published, what is published, what the producer
  has reserved, what it believes to be free; and the last is at most one ring away.
\<close>

definition ring_shape :: "nat \<Rightarrow> 'a ring_sys \<Rightarrow> bool" where
  "ring_shape k s \<longleftrightarrow> k < 32 \<and>
     ring_size (pview s) = 2 ^ k \<and> ring_mask (pview s) = 2 ^ k - 1 \<and>
     ring_size (cview s) = 2 ^ k \<and> ring_mask (cview s) = 2 ^ k - 1 \<and>
     length (ring (mem s)) = 2 ^ k"

definition ring_order :: "nat \<Rightarrow> 'a ring_sys \<Rightarrow> bool" where
  "ring_order k s \<longleftrightarrow>
     (let d = dist (consumer (mem s)) in
      d (cached_cons (cview s)) \<le> d (cached_prod (cview s)) \<and>
      d (cached_prod (cview s)) \<le> d (producer (mem s)) \<and>
      d (producer (mem s)) \<le> d (cached_prod (pview s)) \<and>
      d (cached_prod (pview s)) \<le> d (cached_cons (pview s)) \<and>
      d (cached_cons (pview s)) \<le> 2 ^ k)"

definition ring_inv :: "nat \<Rightarrow> 'a ring_sys \<Rightarrow> bool" where
  "ring_inv k s \<longleftrightarrow> ring_shape k s \<and> ring_order k s"

definition fresh_ring :: "nat \<Rightarrow> 'a list \<Rightarrow> u32 \<Rightarrow> u32 \<Rightarrow> 'a ring_sys" where
  "fresh_ring k slots i fl =
     (let m = \<lparr>producer = i, consumer = i, ring = slots, flags = fl\<rparr>
      in \<lparr>mem = m, pview = tx_ring_setup (2 ^ k) m, cview = rx_ring_setup (2 ^ k) m\<rparr>)"

lemma pow2_bound: "k < 32 \<Longrightarrow> (2 :: nat) ^ k < 2 ^ 32"
  by (rule power_strict_increasing) auto

lemma unat_pow2: "k < 32 \<Longrightarrow> unat (2 ^ k :: u32) = 2 ^ k"
  using dist_of_nat [OF pow2_bound, of k 0] by (simp add: dist_def)

lemma unat_take_bit: "unat (take_bit k (x :: u32)) = unat x mod 2 ^ k"
  unfolding unsigned_take_bit_eq by (rule take_bit_eq_mod)

lemma fresh_ring_inv: "k < 32 \<Longrightarrow> length slots = 2 ^ k \<Longrightarrow> ring_inv k (fresh_ring k slots i fl)"
  by (simp add: ring_inv_def ring_shape_def ring_order_def fresh_ring_def tx_ring_setup_def
      rx_ring_setup_def Let_def dist_def unat_pow2)

lemma mask_slot: "k < 32 \<Longrightarrow> ring_mask r = 2 ^ k - 1 \<Longrightarrow> slot_index r idx = unat idx mod 2 ^ k"
  by (simp add: slot_index_def mask_eq_exp_minus_1 [symmetric] take_bit_eq_mask [symmetric]
      unat_take_bit)

text \<open>Two counters of one window of at most a ring's size never share a slot.\<close>

lemma slot_inj:
  assumes "k < 32" "ring_mask r = 2 ^ k - 1" "dist b x < 2 ^ k" "dist b y < 2 ^ k"
    "slot_index r x = slot_index r y"
  shows "x = y"
proof -
  have *: "u = v" if "unat u mod 2 ^ k = unat v mod 2 ^ k" "dist b u \<le> dist b v" "dist b v < 2 ^ k" for u v
  proof -
    have "unat v = (unat u + unat (v - u)) mod 2 ^ 32"
      using unat_word_ariths(1) [of u "v - u"] by simp
    then have "unat v mod 2 ^ k = (unat u + unat (v - u)) mod 2 ^ k"
      using assms(1) by (simp only: mod_mod_cancel le_imp_power_dvd less_imp_le)
    then have "2 ^ k dvd (unat u + unat (v - u)) - unat u"
      using that(1) mod_eq_dvd_iff_nat [of "unat u" "unat u + unat (v - u)" "2 ^ k"] by simp
    then have "unat (v - u) mod 2 ^ k = 0" by (simp add: dvd_eq_mod_eq_0)
    moreover have "unat (v - u) < 2 ^ k" using dist_diff [OF that(2)] that(3) by simp
    ultimately have "v - u = 0" by (simp add: word_unat_eq_iff)
    then show "u = v" by simp
  qed
  have "unat x mod 2 ^ k = unat y mod 2 ^ k" using assms by (simp add: mask_slot)
  then show ?thesis using * [of x y] * [of y x] assms(3,4) by (metis nle_le)
qed

subsection \<open>What one operation does under the invariant\<close>

text \<open>Distances of a state's counters from the shared consumer index.\<close>

abbreviation (input) in_use :: "'a ring_sys \<Rightarrow> nat" where
  "in_use s \<equiv> dist (consumer (mem s)) (cached_prod (pview s))"

abbreviation (input) taken_up :: "'a ring_sys \<Rightarrow> nat" where
  "taken_up s \<equiv> dist (consumer (mem s)) (cached_cons (cview s))"

abbreviation (input) seen :: "'a ring_sys \<Rightarrow> nat" where
  "seen s \<equiv> dist (consumer (mem s)) (cached_prod (cview s))"

abbreviation (input) filled :: "'a ring_sys \<Rightarrow> nat" where
  "filled s \<equiv> dist (consumer (mem s)) (producer (mem s))"

lemma ring_invD:
  assumes "ring_inv k s"
  shows "k < 32" "ring_size (pview s) = 2 ^ k" "ring_mask (pview s) = 2 ^ k - 1"
    "ring_size (cview s) = 2 ^ k" "ring_mask (cview s) = 2 ^ k - 1" "length (ring (mem s)) = 2 ^ k"
    "taken_up s \<le> seen s" "seen s \<le> filled s" "filled s \<le> in_use s"
    "in_use s \<le> dist (consumer (mem s)) (cached_cons (pview s))"
    "dist (consumer (mem s)) (cached_cons (pview s)) \<le> 2 ^ k"
    "(2 :: nat) ^ k < 2 ^ 32"
  using assms pow2_bound [of k]
  by (simp_all add: ring_inv_def ring_shape_def ring_order_def Let_def del: One_nat_def)

lemma nb_free_result:
  assumes "ring_inv k s"
  shows "\<exists>free cc. xsk_prod_nb_free (pview s) (mem s) nb = (free, (pview s)\<lparr>cached_cons := cc\<rparr>) \<and>
           unat free = dist (consumer (mem s)) cc - in_use s \<and>
           in_use s \<le> dist (consumer (mem s)) cc \<and> dist (consumer (mem s)) cc \<le> 2 ^ k \<and>
           (unat nb \<le> unat free \<longleftrightarrow> in_use s + unat nb \<le> 2 ^ k)"
proof -
  note d = ring_invD [OF assms]
  let ?b = "consumer (mem s)" and ?p = "pview s"
  show ?thesis
  proof (cases "nb \<le> cached_cons ?p - cached_prod ?p")
    case True
    have "unat (cached_cons ?p - cached_prod ?p) = dist ?b (cached_cons ?p) - in_use s"
      by (rule dist_diff [OF d(10)])
    then show ?thesis using True d(10,11)
      by (intro exI [of _ "cached_cons ?p - cached_prod ?p"] exI [of _ "cached_cons ?p"])
        (auto simp: xsk_prod_nb_free_def word_le_nat_alt)
  next
    case False
    have full: "dist ?b (?b + 2 ^ k) = 2 ^ k"
      using d(1) by (simp add: dist_def unat_pow2)
    have "unat (?b + 2 ^ k - cached_prod ?p) = 2 ^ k - in_use s"
      using dist_diff [of ?b "cached_prod ?p" "?b + 2 ^ k"] d(10,11) full by simp
    then show ?thesis using False d(2,10,11) full
      by (intro exI [of _ "?b + 2 ^ k - cached_prod ?p"] exI [of _ "?b + 2 ^ k"])
        (auto simp: xsk_prod_nb_free_def Let_def)
  qed
qed

lemma reserve_result:
  assumes "ring_inv k s"
  shows "\<exists>cc. in_use s \<le> dist (consumer (mem s)) cc \<and> dist (consumer (mem s)) cc \<le> 2 ^ k \<and>
    (if in_use s + unat nb \<le> 2 ^ k
     then xsk_ring_prod__reserve (pview s) (mem s) nb =
            (nb, Some (cached_prod (pview s)),
             (pview s)\<lparr>cached_prod := cached_prod (pview s) + nb, cached_cons := cc\<rparr>) \<and>
          in_use s + unat nb \<le> dist (consumer (mem s)) cc
     else xsk_ring_prod__reserve (pview s) (mem s) nb = (0, None, (pview s)\<lparr>cached_cons := cc\<rparr>))"
proof -
  obtain free cc where r: "xsk_prod_nb_free (pview s) (mem s) nb = (free, (pview s)\<lparr>cached_cons := cc\<rparr>)"
    "unat free = dist (consumer (mem s)) cc - in_use s"
    "in_use s \<le> dist (consumer (mem s)) cc" "dist (consumer (mem s)) cc \<le> 2 ^ k"
    "unat nb \<le> unat free \<longleftrightarrow> in_use s + unat nb \<le> 2 ^ k"
    using nb_free_result [OF assms] by blast
  show ?thesis
    by (rule exI [of _ cc]) (use r in \<open>auto simp: xsk_ring_prod__reserve_def word_less_nat_alt not_less\<close>)
qed

lemma peek_result:
  assumes "ring_inv k s"
  shows "\<exists>n cp. seen s \<le> dist (consumer (mem s)) cp \<and> dist (consumer (mem s)) cp \<le> filled s \<and>
    unat n = min (unat nb) (dist (consumer (mem s)) cp - taken_up s) \<and>
    (cp = producer (mem s) \<or> seen s \<noteq> taken_up s) \<and>
    xsk_ring_cons__peek (cview s) (mem s) nb =
      (n, if n = 0 then None else Some (cached_cons (cview s)),
       (cview s)\<lparr>cached_prod := cp, cached_cons := cached_cons (cview s) + n\<rparr>)"
proof -
  note d = ring_invD [OF assms]
  let ?c = "cview s" and ?b = "consumer (mem s)"
  define cp where "cp = (if cached_prod ?c - cached_cons ?c = 0 then producer (mem s) else cached_prod ?c)"
  define n where "n = min nb (cp - cached_cons ?c)"
  have "cached_prod ?c \<noteq> cached_cons ?c \<Longrightarrow> seen s \<noteq> taken_up s"
    by (simp add: dist_inj)
  then have cp: "seen s \<le> dist ?b cp" "dist ?b cp \<le> filled s" "cp = producer (mem s) \<or> seen s \<noteq> taken_up s"
    using d(8) by (auto simp: cp_def)
  have "unat (cp - cached_cons ?c) = dist ?b cp - taken_up s"
    using dist_diff cp d(7) le_trans by blast
  then have n: "unat n = min (unat nb) (dist ?b cp - taken_up s)"
    by (simp add: n_def min_def word_le_nat_alt)
  have "xsk_ring_cons__peek ?c (mem s) nb =
      (n, if n = 0 then None else Some (cached_cons ?c), ?c\<lparr>cached_prod := cp, cached_cons := cached_cons ?c + n\<rparr>)"
    by (auto simp: xsk_ring_cons__peek_def xsk_cons_nb_avail_def Let_def n_def cp_def min_def
        word_gt_0 not_less order_antisym split: prod.splits)
  then show ?thesis using cp n by blast
qed

subsection \<open>The invariant is kept by every step\<close>

lemma write_result:
  assumes "ring_inv k s"
  shows "slot_write (pview s) (mem s) idx v =
    Some ((mem s)\<lparr>ring := (ring (mem s))[slot_index (pview s) idx := v]\<rparr>)"
  using ring_invD [OF assms] by (simp add: slot_write_def mask_slot)

lemma read_result:
  assumes "ring_inv k s"
  shows "slot_read (cview s) (mem s) idx = Some (ring (mem s) ! slot_index (cview s) idx)"
  using ring_invD [OF assms] by (simp add: slot_read_def mask_slot)

lemma exec_op_inv:
  assumes inv: "ring_inv k s" and ex: "exec_op s op = Some t"
  shows "ring_inv k t"
proof (cases op)
  case (Reserve nb)
  obtain cc where "in_use s \<le> dist (consumer (mem s)) cc" "dist (consumer (mem s)) cc \<le> 2 ^ k"
    "if in_use s + unat nb \<le> 2 ^ k
     then xsk_ring_prod__reserve (pview s) (mem s) nb =
            (nb, Some (cached_prod (pview s)),
             (pview s)\<lparr>cached_prod := cached_prod (pview s) + nb, cached_cons := cc\<rparr>) \<and>
          in_use s + unat nb \<le> dist (consumer (mem s)) cc
     else xsk_ring_prod__reserve (pview s) (mem s) nb = (0, None, (pview s)\<lparr>cached_cons := cc\<rparr>)"
    using reserve_result [OF inv] by blast
  then show ?thesis using Reserve ex ring_invD [OF inv] dist_add [of "consumer (mem s)" "cached_prod (pview s)" nb]
    by (auto simp: ring_inv_def ring_shape_def ring_order_def Let_def split: if_splits)
next
  case (Write idx v)
  then show ?thesis using ex ring_invD [OF inv]
    by (auto simp: write_result [OF inv] ring_inv_def ring_shape_def ring_order_def Let_def split: if_splits)
next
  case (Submit nb)
  then show ?thesis
    using ex ring_invD [OF inv] dist_add [of "consumer (mem s)" "producer (mem s)" nb]
      dist_chain [of "consumer (mem s)" "producer (mem s)" "cached_prod (pview s)"]
    by (auto simp: xsk_ring_prod__submit_def ring_inv_def ring_shape_def ring_order_def Let_def
        split: if_splits)
next
  case (Peek nb)
  obtain n cp where "seen s \<le> dist (consumer (mem s)) cp" "dist (consumer (mem s)) cp \<le> filled s"
    "unat n = min (unat nb) (dist (consumer (mem s)) cp - taken_up s)"
    "xsk_ring_cons__peek (cview s) (mem s) nb =
      (n, if n = 0 then None else Some (cached_cons (cview s)),
       (cview s)\<lparr>cached_prod := cp, cached_cons := cached_cons (cview s) + n\<rparr>)"
    using peek_result [OF inv] by blast
  then show ?thesis using Peek ex ring_invD [OF inv] dist_add [of "consumer (mem s)" "cached_cons (cview s)" n]
    by (auto simp: ring_inv_def ring_shape_def ring_order_def Let_def)
next
  case (Cancel nb)
  then show ?thesis using ex ring_invD [OF inv] dist_sub [of nb "consumer (mem s)" "cached_cons (cview s)"]
    by (auto simp: xsk_ring_cons__cancel_def ring_inv_def ring_shape_def ring_order_def Let_def split: if_splits)
next
  case (Release nb)
  then show ?thesis using ex ring_invD [OF inv]
    by (auto simp: xsk_ring_cons__release_def ring_inv_def ring_shape_def ring_order_def Let_def dist_base
        split: if_splits)
qed

subsection \<open>The abstract ring\<close>

text \<open>
  What the two clients see: the queue of published entries not yet released, the entries the
  producer has reserved and may still write, how many entries of the queue the consumer has
  taken up, and the index the first staged entry goes by. A reservation yields slots of
  unspecified content.
\<close>

record 'a aring =
  queue :: "'a list"
  staged :: "'a list"
  taken :: nat
  first_staged :: u32

definition window :: "xsk_ring \<Rightarrow> 'a shm \<Rightarrow> u32 \<Rightarrow> nat \<Rightarrow> 'a list" where
  "window r sh b n = map (\<lambda>i. ring sh ! slot_index r (b + of_nat i)) [0..<n]"

definition abs_ring :: "'a ring_sys \<Rightarrow> 'a aring" where
  "abs_ring s =
     \<lparr>queue = window (pview s) (mem s) (consumer (mem s)) (dist (consumer (mem s)) (producer (mem s))),
      staged = window (pview s) (mem s) (producer (mem s)) (dist (producer (mem s)) (cached_prod (pview s))),
      taken = dist (consumer (mem s)) (cached_cons (cview s)),
      first_staged = producer (mem s)\<rparr>"

inductive abs_step :: "nat \<Rightarrow> 'a aring \<Rightarrow> 'a ring_op \<Rightarrow> 'a aring \<Rightarrow> bool" for cap where
  reserved: "length xs = unat nb \<Longrightarrow> length (queue a) + length (staged a) + unat nb \<le> cap \<Longrightarrow>
    abs_step cap a (Reserve nb) (a\<lparr>staged := staged a @ xs\<rparr>)"
| refused: "cap < length (queue a) + length (staged a) + unat nb \<Longrightarrow>
    abs_step cap a (Reserve nb) a"
| written: "idx = first_staged a + of_nat i \<Longrightarrow> i < length (staged a) \<Longrightarrow>
    abs_step cap a (Write idx v) (a\<lparr>staged := (staged a)[i := v]\<rparr>)"
| submitted: "unat nb \<le> length (staged a) \<Longrightarrow>
    abs_step cap a (Submit nb)
      (a\<lparr>queue := queue a @ take (unat nb) (staged a), staged := drop (unat nb) (staged a),
         first_staged := first_staged a + nb\<rparr>)"
| peeked: "n \<le> unat nb \<Longrightarrow> taken a + n \<le> length (queue a) \<Longrightarrow>
    (n = 0 \<longrightarrow> unat nb = 0 \<or> taken a = length (queue a)) \<Longrightarrow>
    abs_step cap a (Peek nb) (a\<lparr>taken := taken a + n\<rparr>)"
| cancelled: "unat nb \<le> taken a \<Longrightarrow>
    abs_step cap a (Cancel nb) (a\<lparr>taken := taken a - unat nb\<rparr>)"
| released: "unat nb \<le> taken a \<Longrightarrow>
    abs_step cap a (Release nb)
      (a\<lparr>queue := drop (unat nb) (queue a), taken := taken a - unat nb\<rparr>)"

inductive_cases abs_submitE: "abs_step cap a (Submit nb) b"
inductive_cases abs_releaseE: "abs_step cap a (Release nb) b"

lemma length_window [simp]: "length (window r sh b n) = n"
  by (simp add: window_def)

lemma window_nth: "i < n \<Longrightarrow> window r sh b n ! i = ring sh ! slot_index r (b + of_nat i)"
  by (simp add: window_def)

lemma window_append:
  "window r sh b (m + n) = window r sh b m @ window r sh (b + of_nat m) n"
  by (rule nth_equalityI) (auto simp: window_nth nth_append algebra_simps)

lemma window_take: "m \<le> n \<Longrightarrow> take m (window r sh b n) = window r sh b m"
  by (simp add: window_def take_map)

lemma window_drop: "unat m \<le> n \<Longrightarrow> drop (unat m) (window r sh b n) = window r sh (b + m) (n - unat m)"
  using window_append [of r sh b "unat m" "n - unat m"] by simp

lemma window_cong:
  "ring_mask r = ring_mask r' \<Longrightarrow> ring sh = ring sh' \<Longrightarrow> window r sh b n = window r' sh' b n"
  by (simp add: window_def slot_index_def)

text \<open>A write to a slot whose index lies outside a window leaves the window alone.\<close>

lemma window_write_outside:
  assumes "k < 32" "ring_mask r = 2 ^ k - 1" "dist c b + n \<le> 2 ^ k" "dist c idx < 2 ^ k"
    "dist c idx < dist c b \<or> dist c b + n \<le> dist c idx"
  shows "window r (sh\<lparr>ring := (ring sh)[slot_index r idx := v]\<rparr>) b n = window r sh b n"
proof (rule nth_equalityI)
  fix i assume "i < length (window r (sh\<lparr>ring := (ring sh)[slot_index r idx := v]\<rparr>) b n)"
  then have i: "i < n" by simp
  have lt: "dist c b + i < 2 ^ k" "(2 :: nat) ^ k < 2 ^ 32" using i assms(1,3) pow2_bound by simp_all
  then have "unat (of_nat i :: u32) = i" using dist_of_nat [of i 0] by (simp add: dist_def)
  then have di: "dist c (b + of_nat i) = dist c b + i" using dist_add [of c b "of_nat i"] lt by simp
  have "slot_index r (b + of_nat i) \<noteq> slot_index r idx"
    using slot_inj [OF assms(1,2), of c "b + of_nat i" idx] di lt(1) assms(4,5) i by auto
  then show "window r (sh\<lparr>ring := (ring sh)[slot_index r idx := v]\<rparr>) b n ! i = window r sh b n ! i"
    using i by (simp add: window_nth)
qed simp

lemma window_write_inside:
  assumes "k < 32" "ring_mask r = 2 ^ k - 1" "length (ring sh) = 2 ^ k" "n \<le> 2 ^ k" "dist b idx < n"
  shows "window r (sh\<lparr>ring := (ring sh)[slot_index r idx := v]\<rparr>) b n = (window r sh b n)[dist b idx := v]"
proof (rule nth_equalityI)
  fix i assume "i < length (window r (sh\<lparr>ring := (ring sh)[slot_index r idx := v]\<rparr>) b n)"
  then have i: "i < n" by simp
  have "i < 2 ^ 32" using i assms(1,4) pow2_bound [of k] by simp
  then have di: "dist b (b + of_nat i) = i" by (rule dist_of_nat)
  have "slot_index r (b + of_nat i) = slot_index r idx \<longleftrightarrow> i = dist b idx"
  proof
    assume "slot_index r (b + of_nat i) = slot_index r idx"
    then show "i = dist b idx"
      using slot_inj [OF assms(1,2), of b "b + of_nat i" idx] di i assms(4,5) by simp
  next
    assume "i = dist b idx"
    then show "slot_index r (b + of_nat i) = slot_index r idx" using di dist_inj by metis
  qed
  then show "window r (sh\<lparr>ring := (ring sh)[slot_index r idx := v]\<rparr>) b n ! i =
      (window r sh b n)[dist b idx := v] ! i"
    using i assms by (auto simp: window_nth nth_list_update mask_slot)
qed simp

subsection \<open>Refinement\<close>

lemma abs_ring_sel:
  "length (queue (abs_ring s)) = filled s"
  "length (staged (abs_ring s)) = dist (producer (mem s)) (cached_prod (pview s))"
  "taken (abs_ring s) = taken_up s"
  by (simp_all add: abs_ring_def)

lemma abs_ring_length:
  assumes "ring_inv k s"
  shows "length (queue (abs_ring s)) = filled s" "length (staged (abs_ring s)) = in_use s - filled s"
    "dist (producer (mem s)) (cached_prod (pview s)) = in_use s - filled s"
    "length (queue (abs_ring s)) + length (staged (abs_ring s)) \<le> 2 ^ k"
    "taken (abs_ring s) \<le> length (queue (abs_ring s))"
  using ring_invD [OF assms] dist_chain [OF ring_invD(9) [OF assms]]
  by (auto simp: abs_ring_def)

lemma sim_reserve:
  assumes inv: "ring_inv k s" and ex: "exec_op s (Reserve nb) = Some t"
  shows "abs_step (2 ^ k) (abs_ring s) (Reserve nb) (abs_ring t)"
proof -
  note d = ring_invD [OF inv] and l = abs_ring_length [OF inv]
  obtain cc where r: "in_use s \<le> dist (consumer (mem s)) cc" "dist (consumer (mem s)) cc \<le> 2 ^ k"
    "if in_use s + unat nb \<le> 2 ^ k
     then xsk_ring_prod__reserve (pview s) (mem s) nb =
            (nb, Some (cached_prod (pview s)),
             (pview s)\<lparr>cached_prod := cached_prod (pview s) + nb, cached_cons := cc\<rparr>) \<and>
          in_use s + unat nb \<le> dist (consumer (mem s)) cc
     else xsk_ring_prod__reserve (pview s) (mem s) nb = (0, None, (pview s)\<lparr>cached_cons := cc\<rparr>)"
    using reserve_result [OF inv] by blast
  show ?thesis
  proof (cases "in_use s + unat nb \<le> 2 ^ k")
    case True
    let ?w = "window (pview s) (mem s)" and ?p = "producer (mem s)"
    have len: "dist ?p (cached_prod (pview s) + nb) = dist ?p (cached_prod (pview s)) + unat nb"
      using dist_add [of ?p "cached_prod (pview s)" nb] l(3) True d(12) by simp
    define xs where "xs = ?w (?p + of_nat (dist ?p (cached_prod (pview s)))) (unat nb)"
    have t: "t = s\<lparr>pview := (pview s)\<lparr>cached_prod := cached_prod (pview s) + nb, cached_cons := cc\<rparr>\<rparr>"
      using r(3) True ex by simp
    have "?w ?p (dist ?p (cached_prod (pview s)) + unat nb) =
        ?w ?p (dist ?p (cached_prod (pview s))) @ xs"
      unfolding xs_def by (rule window_append)
    then have "abs_ring t = (abs_ring s)\<lparr>staged := staged (abs_ring s) @ xs\<rparr>"
      by (simp add: t abs_ring_def len window_def slot_index_def)
    moreover have "length xs = unat nb" by (simp add: xs_def)
    ultimately show ?thesis using l(1,2) d(9) True by (simp add: abs_step.reserved)
  next
    case False
    then have "abs_ring t = abs_ring s"
      using r(3) ex by (auto simp: abs_ring_def window_def slot_index_def)
    then show ?thesis using l(1,2) d(9) False by (simp add: abs_step.refused)
  qed
qed

lemma sim_write:
  assumes inv: "ring_inv k s" and ex: "exec_op s (Write idx v) = Some t"
  shows "abs_step (2 ^ k) (abs_ring s) (Write idx v) (abs_ring t)"
proof -
  note d = ring_invD [OF inv] and l = abs_ring_length [OF inv]
  let ?p = "producer (mem s)" and ?b = "consumer (mem s)"
  from ex have i: "dist ?p idx < dist ?p (cached_prod (pview s))"
    and t: "t = s\<lparr>mem := (mem s)\<lparr>ring := (ring (mem s))[slot_index (pview s) idx := v]\<rparr>\<rparr>"
    by (auto simp: write_result [OF inv] split: if_splits)
  have "dist ?b (?p + (idx - ?p)) = filled s + unat (idx - ?p)"
    by (rule dist_add) (use i l(3) d in \<open>simp add: dist_def\<close>)
  then have idx: "dist ?b idx = filled s + dist ?p idx" by (simp add: dist_def)
  have "dist ?b idx < 2 ^ k" using idx i l(3) d(9-11) by linarith
  then have "abs_ring t = (abs_ring s)\<lparr>staged := (staged (abs_ring s))[dist ?p idx := v]\<rparr>"
    using window_write_outside [OF d(1,3), of ?b ?b "filled s" idx "mem s" v]
      window_write_inside [OF d(1,3,6), of "dist ?p (cached_prod (pview s))" ?p idx v] idx i l(3) d(9-11)
    by (simp add: t abs_ring_def)
  moreover have "idx = first_staged (abs_ring s) + of_nat (dist ?p idx)"
    by (simp add: abs_ring_def dist_def)
  ultimately show ?thesis using i by (simp add: abs_step.written abs_ring_sel)
qed

lemma sim_submit:
  assumes inv: "ring_inv k s" and ex: "exec_op s (Submit nb) = Some t"
  shows "abs_step (2 ^ k) (abs_ring s) (Submit nb) (abs_ring t)"
proof -
  note d = ring_invD [OF inv] and l = abs_ring_length [OF inv]
  let ?p = "producer (mem s)" and ?b = "consumer (mem s)" and ?w = "window (pview s) (mem s)"
  from ex have nb: "unat nb \<le> dist ?p (cached_prod (pview s))"
    and t: "t = s\<lparr>mem := (mem s)\<lparr>producer := ?p + nb\<rparr>\<rparr>"
    by (auto simp: xsk_ring_prod__submit_def split: if_splits)
  have q: "dist ?b (?p + nb) = filled s + unat nb"
    by (rule dist_add) (use nb l(3) d in simp)
  have "?p = ?b + of_nat (filled s)" by (simp add: dist_def)
  then have "?w ?b (filled s + unat nb) = ?w ?b (filled s) @ ?w ?p (unat nb)"
    using window_append [of "pview s" "mem s" ?b "filled s" "unat nb"] by simp
  then have "abs_ring t = (abs_ring s)\<lparr>queue := queue (abs_ring s) @ take (unat nb) (staged (abs_ring s)),
      staged := drop (unat nb) (staged (abs_ring s)), first_staged := first_staged (abs_ring s) + nb\<rparr>"
    using nb by (simp add: t abs_ring_def q dist_base window_take window_drop)
      (simp add: window_def)
  then show ?thesis using nb by (simp add: abs_step.submitted abs_ring_sel)
qed

lemma sim_peek:
  assumes inv: "ring_inv k s" and ex: "exec_op s (Peek nb) = Some t"
  shows "abs_step (2 ^ k) (abs_ring s) (Peek nb) (abs_ring t)"
proof -
  note d = ring_invD [OF inv]
  let ?b = "consumer (mem s)"
  obtain n cp where r: "seen s \<le> dist ?b cp" "dist ?b cp \<le> filled s"
    "unat n = min (unat nb) (dist ?b cp - taken_up s)" "cp = producer (mem s) \<or> seen s \<noteq> taken_up s"
    "xsk_ring_cons__peek (cview s) (mem s) nb =
      (n, if n = 0 then None else Some (cached_cons (cview s)),
       (cview s)\<lparr>cached_prod := cp, cached_cons := cached_cons (cview s) + n\<rparr>)"
    using peek_result [OF inv] by blast
  have "dist ?b (cached_cons (cview s) + n) = taken_up s + unat n"
    by (rule dist_add) (use r d in simp)
  then have "abs_ring t = (abs_ring s)\<lparr>taken := taken (abs_ring s) + unat n\<rparr>"
    using ex r(5) by (auto simp: abs_ring_def)
  moreover have "unat n = 0 \<longrightarrow> unat nb = 0 \<or> taken (abs_ring s) = length (queue (abs_ring s))"
    using r(1-4) d(7) by (auto simp: abs_ring_sel min_def split: if_splits)
  moreover have "unat n \<le> unat nb" "taken (abs_ring s) + unat n \<le> length (queue (abs_ring s))"
    using r(1-3) d(7,8) by (simp_all add: abs_ring_sel)
  ultimately show ?thesis by (metis abs_step.peeked)
qed

lemma sim_cancel:
  assumes inv: "ring_inv k s" and ex: "exec_op s (Cancel nb) = Some t"
  shows "abs_step (2 ^ k) (abs_ring s) (Cancel nb) (abs_ring t)"
proof -
  from ex have nb: "unat nb \<le> taken_up s"
    and t: "t = s\<lparr>cview := (cview s)\<lparr>cached_cons := cached_cons (cview s) - nb\<rparr>\<rparr>"
    by (auto simp: xsk_ring_cons__cancel_def split: if_splits)
  have "abs_ring t = (abs_ring s)\<lparr>taken := taken (abs_ring s) - unat nb\<rparr>"
    using dist_sub [OF nb] by (simp add: t abs_ring_def)
  then show ?thesis using nb by (metis abs_step.cancelled abs_ring_sel(3))
qed

lemma sim_release:
  assumes inv: "ring_inv k s" and ex: "exec_op s (Release nb) = Some t"
  shows "abs_step (2 ^ k) (abs_ring s) (Release nb) (abs_ring t)"
proof -
  note d = ring_invD [OF inv]
  let ?b = "consumer (mem s)"
  from ex have nb: "unat nb \<le> taken_up s"
    and t: "t = s\<lparr>mem := (mem s)\<lparr>consumer := ?b + nb\<rparr>\<rparr>"
    by (auto simp: xsk_ring_cons__release_def split: if_splits)
  have "unat nb \<le> filled s" using nb d(7,8) by simp
  then have "abs_ring t =
      (abs_ring s)\<lparr>queue := drop (unat nb) (queue (abs_ring s)), taken := taken (abs_ring s) - unat nb\<rparr>"
    using dist_base [OF nb] by (simp add: t abs_ring_def dist_base window_drop) (simp add: window_def)
  then show ?thesis using nb by (metis abs_step.released abs_ring_sel(3))
qed

lemma ring_simulation:
  "ring_inv k s \<Longrightarrow> exec_op s op = Some t \<Longrightarrow> abs_step (2 ^ k) (abs_ring s) op (abs_ring t)"
  by (cases op) (blast intro: sim_reserve sim_write sim_submit sim_peek sim_cancel sim_release)+

subsection \<open>A first-in first-out channel\<close>

text \<open>
  The contract a client of the ring relies on, for any step function with an invariant and a
  view of its contents: each step appends what it publishes and removes what it releases, and
  the contents stay within the capacity. Whole runs then lose, duplicate and reorder nothing.
\<close>

primrec run_ops :: "('s \<Rightarrow> 'op \<Rightarrow> 's option) \<Rightarrow> ('s \<Rightarrow> 'op \<Rightarrow> 'a list) \<Rightarrow> ('s \<Rightarrow> 'op \<Rightarrow> 'a list) \<Rightarrow>
    's \<Rightarrow> 'op list \<Rightarrow> ('s \<times> 'a list \<times> 'a list) option" where
  "run_ops step pub rel s [] = Some (s, [], [])"
| "run_ops step pub rel s (op # ops) =
     do {
       t \<leftarrow> step s op;
       (u, ps, rs) \<leftarrow> run_ops step pub rel t ops;
       Some (u, pub s op @ ps, rel s op @ rs)
     }"

locale fifo_channel =
  fixes inv :: "'s \<Rightarrow> bool"
    and step :: "'s \<Rightarrow> 'op \<Rightarrow> 's option"
    and contents :: "'s \<Rightarrow> 'a list"
    and pub :: "'s \<Rightarrow> 'op \<Rightarrow> 'a list"
    and rel :: "'s \<Rightarrow> 'op \<Rightarrow> 'a list"
    and cap :: nat
  assumes step_inv: "inv s \<Longrightarrow> step s op = Some t \<Longrightarrow> inv t"
    and step_fifo: "inv s \<Longrightarrow> step s op = Some t \<Longrightarrow> contents s @ pub s op = rel s op @ contents t"
    and bounded: "inv s \<Longrightarrow> length (contents s) \<le> cap"
begin

lemma run_fifo:
  "inv s \<Longrightarrow> run_ops step pub rel s ops = Some (t, ps, rs) \<Longrightarrow>
     inv t \<and> contents s @ ps = rs @ contents t \<and> length (contents t) \<le> cap"
proof (induction ops arbitrary: s ps rs)
  case Nil
  then show ?case by (simp add: bounded)
next
  case (Cons op ops)
  then obtain u ps' rs' where u: "step s op = Some u" "run_ops step pub rel u ops = Some (t, ps', rs')"
    "ps = pub s op @ ps'" "rs = rel s op @ rs'"
    by (auto simp: bind_eq_Some_conv)
  have "inv u" using step_inv Cons.prems(1) u(1) by blast
  then have "inv t" "contents u @ ps' = rs' @ contents t" "length (contents t) \<le> cap"
    using Cons.IH u(2) by blast+
  then show ?case using step_fifo [OF Cons.prems(1) u(1)] u(3,4)
    by (metis append.assoc)
qed

end

definition ring_pub :: "'a ring_sys \<Rightarrow> 'a ring_op \<Rightarrow> 'a list" where
  "ring_pub s op = (case op of Submit nb \<Rightarrow> take (unat nb) (staged (abs_ring s)) | _ \<Rightarrow> [])"

definition ring_rel :: "'a ring_sys \<Rightarrow> 'a ring_op \<Rightarrow> 'a list" where
  "ring_rel s op = (case op of Release nb \<Rightarrow> take (unat nb) (queue (abs_ring s)) | _ \<Rightarrow> [])"

lemma abs_step_fifo:
  "abs_step cap (abs_ring s) op b \<Longrightarrow> queue (abs_ring s) @ ring_pub s op = ring_rel s op @ queue b"
  by (erule abs_step.cases) (auto simp: ring_pub_def ring_rel_def)

interpretation xsk: fifo_channel "ring_inv k" exec_op "\<lambda>s. queue (abs_ring s)" ring_pub ring_rel "2 ^ k"
  for k
proof
  fix s t :: "'a ring_sys" and op
  assume "ring_inv k s"
  then show "length (queue (abs_ring s)) \<le> 2 ^ k" using abs_ring_length(4) [of k s] by simp
  assume "exec_op s op = Some t"
  with \<open>ring_inv k s\<close> show "ring_inv k t"
    "queue (abs_ring s) @ ring_pub s op = ring_rel s op @ queue (abs_ring t)"
    by (blast intro: exec_op_inv abs_step_fifo ring_simulation)+
qed

subsection \<open>Properties\<close>

text \<open>
  C3. In every interleaving of the two sides' steps on a freshly set up ring of \<open>2 ^ k\<close> slots,
  whatever index the kernel counters start at (so across wrap-around of the 32-bit counters),
  the entries published are exactly those released followed by those still queued, in order,
  and the queue never holds more than the ring's size.
\<close>

theorem xsk_ring_fifo:
  assumes "k < 32" "length slots = 2 ^ k"
    "run_ops exec_op ring_pub ring_rel (fresh_ring k slots i fl) ops = Some (t, ps, rs)"
  shows "ps = rs @ queue (abs_ring t) \<and> length (queue (abs_ring t)) \<le> 2 ^ k"
proof -
  have "queue (abs_ring (fresh_ring k slots i fl)) = []"
    by (simp add: fresh_ring_def abs_ring_def window_def Let_def)
  then show ?thesis
    using xsk.run_fifo [OF fresh_ring_inv [OF assms(1,2)] assms(3)] by simp
qed

definition demo_ops :: "nat ring_op list" where
  "demo_ops = [Reserve 2, Write (- 1) 7, Write 0 8, Submit 2, Reserve 1, Peek 1, Release 1,
     Reserve 1, Write 1 9, Submit 1]"

theorem xsk_ring_fifo_witness:
  "\<exists>t. run_ops exec_op ring_pub ring_rel (fresh_ring 1 [0, 0] (- 1) 0) demo_ops = Some (t, [7, 8, 9], [7]) \<and>
     queue (abs_ring t) = [8, 9]"
proof -
  have run: "map_option (\<lambda>(t, ps, rs). (ps, rs))
      (run_ops exec_op ring_pub ring_rel (fresh_ring 1 [0, 0] (- 1) 0) demo_ops) = Some ([7, 8, 9], [7])"
    by code_simp
  then obtain t where t: "run_ops exec_op ring_pub ring_rel (fresh_ring 1 [0, 0] (- 1) 0) demo_ops =
      Some (t, [7, 8, 9], [7])" by auto
  have "[7, 8, 9] = [7] @ queue (abs_ring t)"
    using xsk_ring_fifo [OF _ _ t] by simp
  with t show ?thesis by auto
qed

text \<open>
  C22. Every step either side takes on a ring in a reachable state is a step of the abstract
  ring: a reservation is granted exactly when it fits, a write changes the one staged entry it
  names, a submission moves the oldest staged entries to the end of the queue, a peek takes up
  at least one entry if there is one to take, and a release removes the oldest entries.
\<close>

theorem xsk_ring_refines:
  assumes "k < 32" "length slots = 2 ^ k"
    "run_ops exec_op ring_pub ring_rel (fresh_ring k slots i fl) ops = Some (s, ps, rs)"
    "exec_op s op = Some t"
  shows "abs_step (2 ^ k) (abs_ring s) op (abs_ring t)"
  using xsk.run_fifo [OF fresh_ring_inv [OF assms(1,2)] assms(3)] assms(4) by (blast intro: ring_simulation)

definition demo_state :: "u32 \<Rightarrow> nat ring_sys" where
  "demo_state p =
     \<lparr>mem = \<lparr>producer = p, consumer = - 1, ring = [0, 0], flags = 0\<rparr>,
      pview = \<lparr>cached_prod = 1, cached_cons = 1, ring_mask = 1, ring_size = 2\<rparr>,
      cview = \<lparr>cached_prod = - 1, cached_cons = - 1, ring_mask = 1, ring_size = 2\<rparr>\<rparr>"

theorem xsk_ring_refines_witness:
  "run_ops exec_op ring_pub ring_rel (fresh_ring 1 [0, 0] (- 1) 0) [Reserve 2] = Some (demo_state (- 1), [], []) \<and>
   exec_op (demo_state (- 1)) (Submit 2) = Some (demo_state 1) \<and>
   abs_step (2 ^ 1) (abs_ring (demo_state (- 1))) (Submit 2) (abs_ring (demo_state 1))"
proof (intro conjI)
  show r: "run_ops exec_op ring_pub ring_rel (fresh_ring 1 [0, 0] (- 1) 0) [Reserve 2] =
      Some (demo_state (- 1), [], [])"
    by code_simp
  show e: "exec_op (demo_state (- 1)) (Submit 2) = Some (demo_state 1)" by code_simp
  show "abs_step (2 ^ 1) (abs_ring (demo_state (- 1))) (Submit 2) (abs_ring (demo_state 1))"
    by (rule xsk_ring_refines [OF _ _ r e]) simp_all
qed

text \<open>
  \<open>xsk_ring_prod__reserve\<close> grants a request exactly when the slots in use (published and
  not released, or reserved) leave room for all of it, although the producer's cached copy of
  the consumer index may be stale; it then hands out the next index and advances by the amount
  asked, and otherwise returns 0 without reserving anything.
\<close>

lemma xsk_reserve_spec:
  assumes "ring_inv k s" "xsk_ring_prod__reserve (pview s) (mem s) nb = (n, idx, p)"
  shows "if dist (consumer (mem s)) (cached_prod (pview s)) + unat nb \<le> 2 ^ k
    then n = nb \<and> idx = Some (cached_prod (pview s)) \<and> cached_prod p = cached_prod (pview s) + nb
    else n = 0 \<and> idx = None \<and> cached_prod p = cached_prod (pview s)"
  using reserve_result [OF assms(1), of nb] assms(2) by (auto split: if_splits)

text \<open>
  \<open>xsk_ring_cons__peek\<close> takes up at most the number asked, at least one entry unless none
  was asked or all published entries are taken up already, and the slots it hands out, read
  through \<open>xsk_ring_cons__rx_desc\<close>, hold the next entries of the queue in order.
\<close>

lemma xsk_peek_spec:
  assumes "ring_inv k s" "xsk_ring_cons__peek (cview s) (mem s) nb = (n, idx, r)"
  shows "unat n \<le> unat nb \<and> (n = 0 \<longleftrightarrow> nb = 0 \<or> taken (abs_ring s) = length (queue (abs_ring s))) \<and>
    (n = 0 \<longleftrightarrow> idx = None) \<and>
    (\<forall>j < unat n. slot_read r (mem s) (the idx + of_nat j) =
       Some (queue (abs_ring s) ! (taken (abs_ring s) + j)))"
proof -
  note d = ring_invD [OF assms(1)]
  let ?b = "consumer (mem s)" and ?c = "cached_cons (cview s)"
  obtain cp where r: "seen s \<le> dist ?b cp" "dist ?b cp \<le> filled s"
    "unat n = min (unat nb) (dist ?b cp - taken_up s)" "cp = producer (mem s) \<or> seen s \<noteq> taken_up s"
    "idx = (if n = 0 then None else Some ?c)" "r = (cview s)\<lparr>cached_prod := cp, cached_cons := ?c + n\<rparr>"
    using peek_result [OF assms(1), of nb] assms(2) by auto
  have zero: "n = 0 \<longleftrightarrow> nb = 0 \<or> taken_up s = filled s"
  proof -
    have "unat n = 0 \<longleftrightarrow> unat nb = 0 \<or> taken_up s = filled s"
      using r(1-4) d(7,8) by (auto simp: min_def)
    then show ?thesis by (simp only: unsigned_eq_0_iff)
  qed
  have "slot_read r (mem s) (?c + of_nat j) = Some (queue (abs_ring s) ! (taken_up s + j))"
    if "j < unat n" for j
  proof -
    have "taken_up s + j < filled s" using that r(1-3) d(7) by linarith
    moreover have "slot_index r = slot_index (pview s)"
      using d(3,5) r(6) by (simp add: slot_index_def fun_eq_iff)
    moreover have eq: "?c + of_nat j = ?b + of_nat (taken_up s + j)"
      by (simp add: dist_def)
    ultimately show ?thesis using d unfolding eq
      by (simp add: slot_read_def abs_ring_def window_nth mask_slot del: of_nat_add)
  qed
  then show ?thesis using r(3,5) zero by (auto simp: abs_ring_sel)
qed

lemma umem_addr_parts:
  fixes base off :: u64
  assumes "base < 2 ^ 48" "off < 2 ^ 16"
  shows "xsk_umem__extract_addr (base + push_bit 48 off) = base"
    "xsk_umem__extract_offset (base + push_bit 48 off) = off"
    "xsk_umem__add_offset_to_addr (base + push_bit 48 off) = base + off"
    "xsk_umem__extract_addr a + push_bit 48 (xsk_umem__extract_offset a) = a"
proof -
  let ?x = "base + push_bit 48 off"
  have b: "unat base < 2 ^ 48" "unat off < 2 ^ 16"
    using assms by (simp_all add: word_less_nat_alt)
  have m: "xsk_umem__extract_addr x = take_bit 48 x" for x
    by (simp add: xsk_umem__extract_addr_def XSK_UNALIGNED_BUF_ADDR_MASK_def
        XSK_UNALIGNED_BUF_OFFSET_SHIFT_def take_bit_eq_mask mask_eq_exp_minus_1 push_bit_eq_mult)
  have "unat (push_bit 48 off) = unat off * 2 ^ 48"
    using b by (simp add: push_bit_eq_mult unat_word_ariths)
  then have x: "unat ?x = unat base + unat off * 2 ^ 48"
    using b by (simp add: unat_word_ariths)
  have "unat (take_bit 48 ?x) = unat base"
    using b unfolding unsigned_take_bit_eq x by (simp add: take_bit_eq_mod)
  then show a: "xsk_umem__extract_addr ?x = base"
    by (simp add: m word_unat_eq_iff)
  have "unat (drop_bit 48 ?x) = unat off"
    using b unfolding unat_drop_bit_eq x by (simp add: drop_bit_eq_div)
  then show o: "xsk_umem__extract_offset ?x = off"
    by (simp add: xsk_umem__extract_offset_def XSK_UNALIGNED_BUF_OFFSET_SHIFT_def word_unat_eq_iff)
  show "xsk_umem__add_offset_to_addr ?x = base + off"
    using a o by (simp add: xsk_umem__add_offset_to_addr_def)
  show "xsk_umem__extract_addr a + push_bit 48 (xsk_umem__extract_offset a) = a"
    unfolding m xsk_umem__extract_offset_def XSK_UNALIGNED_BUF_OFFSET_SHIFT_def
    by (subst add.commute) (rule bits_ident)
qed

text \<open>
  An unaligned-chunk descriptor address carries a 48-bit base and a 16-bit offset: for
  every address the base and the offset together rebuild it, and where an address is packed
  from a base and an offset, \<open>xsk_umem__extract_addr\<close>, \<open>xsk_umem__extract_offset\<close> and
  \<open>xsk_umem__add_offset_to_addr\<close> give the base, the offset and their sum.
\<close>

lemma xsk_umem_addr_roundtrip:
  fixes base off a :: u64
  assumes "base < 2 ^ 48" "off < 2 ^ 16"
  shows "xsk_umem__extract_addr (base + push_bit 48 off) = base \<and>
    xsk_umem__extract_offset (base + push_bit 48 off) = off \<and>
    xsk_umem__add_offset_to_addr (base + push_bit 48 off) = base + off \<and>
    xsk_umem__extract_addr a + push_bit 48 (xsk_umem__extract_offset a) = a"
  by (intro conjI umem_addr_parts [OF assms])

end
