(* ===== verification/C_Runtime.thy ===== *)
theory C_Runtime
  imports Kbn_Prelude "HOL-Library.Multiset"
begin

section \<open>Conventions of the C run time\<close>

text \<open>
  What several components take from the C library and the kernel headers: error numbers, the
  pointers of \<open>linux/err.h\<close> that may encode an error, string and memory comparison, and
  sorting with a three-way comparison. \<open>qsort\<close> is not stable and may order equal elements
  in any way, so it is a parameter of the definitions that call it; \<open>qsort_ok\<close> states what
  the C standard promises.
\<close>

abbreviation (input) ENOENT :: int where "ENOENT \<equiv> 2"
abbreviation (input) E2BIG :: int where "E2BIG \<equiv> 7"
abbreviation (input) EAGAIN :: int where "EAGAIN \<equiv> 11"
abbreviation (input) ENOMEM :: int where "ENOMEM \<equiv> 12"
abbreviation (input) EBUSY :: int where "EBUSY \<equiv> 16"
abbreviation (input) EEXIST :: int where "EEXIST \<equiv> 17"
abbreviation (input) EINVAL :: int where "EINVAL \<equiv> 22"
abbreviation (input) ENOSPC :: int where "ENOSPC \<equiv> 28"
abbreviation (input) ENAMETOOLONG :: int where "ENAMETOOLONG \<equiv> 36"
abbreviation (input) EOPNOTSUPP :: int where "EOPNOTSUPP \<equiv> 95"

subsection \<open>Pointers that encode errors\<close>

datatype 'a eptr = Null | ErrPtr int | Ptr 'a

fun IS_ERR :: "'a eptr \<Rightarrow> bool" where
  "IS_ERR (ErrPtr e) = True"
| "IS_ERR _ = False"

fun IS_ERR_OR_NULL :: "'a eptr \<Rightarrow> bool" where
  "IS_ERR_OR_NULL (Ptr a) = False"
| "IS_ERR_OR_NULL _ = True"

subsection \<open>Comparison\<close>

text \<open>
  \<open>strcmp\<close> and \<open>memcmp\<close> promise the sign of their result only; the model returns the sign.
  Bytes compare as unsigned numbers.
\<close>

fun lex_sign :: "nat list \<Rightarrow> nat list \<Rightarrow> int" where
  "lex_sign [] [] = 0"
| "lex_sign [] (y # ys) = - 1"
| "lex_sign (x # xs) [] = 1"
| "lex_sign (x # xs) (y # ys) = (if x < y then - 1 else if y < x then 1 else lex_sign xs ys)"

definition strcmp :: "string \<Rightarrow> string \<Rightarrow> int" where
  "strcmp s t = lex_sign (map of_char s) (map of_char t)"

definition memcmp :: "u8 list \<Rightarrow> u8 list \<Rightarrow> int" where
  "memcmp s t = lex_sign (map unat s) (map unat t)"

lemma lex_sign_zero: "lex_sign xs ys = 0 \<longleftrightarrow> xs = ys"
  by (induction xs ys rule: lex_sign.induct) auto

lemma memcmp_zero: "memcmp a b = 0 \<longleftrightarrow> a = b"
  by (simp add: memcmp_def lex_sign_zero inj_map_eq_map [OF inj_on_inverseI [of _ of_nat]])

text \<open>A three-way comparison that orders: changing sides changes the sign, and it is transitive.\<close>

locale three_way =
  fixes cmp :: "'a \<Rightarrow> 'a \<Rightarrow> int"
  assumes flip: "sgn (cmp b a) = - sgn (cmp a b)"
    and trans: "cmp a b \<le> 0 \<Longrightarrow> cmp b c \<le> 0 \<Longrightarrow> cmp a c \<le> 0"
begin

lemma total: "cmp a b \<le> 0 \<or> cmp b a \<le> 0"
  using flip [of a b] by (auto simp: sgn_if split: if_splits)

lemma refl: "cmp a a = 0"
  using flip [of a a] by (auto simp: sgn_if split: if_splits)

lemma le_flip: "cmp a b \<le> 0 \<longleftrightarrow> cmp b a \<ge> 0"
  using flip [of a b] by (auto simp: sgn_if split: if_splits)

lemma zero_flip: "cmp a b = 0 \<longleftrightarrow> cmp b a = 0"
  using flip [of a b] by (auto simp: sgn_if split: if_splits)

lemma strict_trans: "cmp a b < 0 \<Longrightarrow> cmp b c \<le> 0 \<Longrightarrow> cmp a c < 0"
  using trans [of b c a] le_flip [of c a] le_flip [of b a] by (meson not_le)

lemma strict_trans': "cmp a b \<le> 0 \<Longrightarrow> cmp b c < 0 \<Longrightarrow> cmp a c < 0"
  using trans [of c a b] le_flip [of c a] le_flip [of c b] by (meson not_le)

end

definition then_cmp :: "('a \<Rightarrow> 'a \<Rightarrow> int) \<Rightarrow> ('a \<Rightarrow> 'a \<Rightarrow> int) \<Rightarrow> 'a \<Rightarrow> 'a \<Rightarrow> int" where
  "then_cmp c d a b = (if c a b \<noteq> 0 then c a b else d a b)"

definition key_cmp :: "('a \<Rightarrow> 'k::linorder) \<Rightarrow> 'a \<Rightarrow> 'a \<Rightarrow> int" where
  "key_cmp f a b = (if f a < f b then - 1 else if f b < f a then 1 else 0)"

lemma three_way_key: "three_way (key_cmp f)"
  by unfold_locales (auto simp: key_cmp_def split: if_splits)

lemma lex_sign_flip: "lex_sign ys xs = - lex_sign xs ys"
  by (induction xs ys rule: lex_sign.induct) auto

lemma lex_sign_trans: "lex_sign xs ys \<le> 0 \<Longrightarrow> lex_sign ys zs \<le> 0 \<Longrightarrow> lex_sign xs zs \<le> 0"
proof (induction xs arbitrary: ys zs)
  case Nil
  then show ?case by (cases zs) auto
next
  case (Cons x xs)
  show ?case
  proof (cases ys)
    case ys: (Cons y ys')
    show ?thesis
    proof (cases zs)
      case (Cons z zs')
      then show ?thesis using ys Cons.prems Cons.IH [of ys' zs'] by (simp split: if_split_asm)
    qed (use ys Cons.prems in simp)
  qed (use Cons.prems in simp)
qed

lemma three_way_lex: "three_way (\<lambda>a b. lex_sign (f a) (f b))"
proof
  fix a b c
  show "sgn (lex_sign (f b) (f a)) = - sgn (lex_sign (f a) (f b))"
    by (subst lex_sign_flip) simp
  show "lex_sign (f a) (f b) \<le> 0 \<Longrightarrow> lex_sign (f b) (f c) \<le> 0 \<Longrightarrow> lex_sign (f a) (f c) \<le> 0"
    by (rule lex_sign_trans)
qed

lemma three_way_then:
  assumes "three_way c" "three_way d"
  shows "three_way (then_cmp c d)"
proof
  fix a b e
  show "sgn (then_cmp c d b a) = - sgn (then_cmp c d a b)"
    using three_way.flip [OF assms(1), of b a] three_way.flip [OF assms(2), of b a]
      three_way.zero_flip [OF assms(1), of a b]
    by (simp add: then_cmp_def)
  assume "then_cmp c d a b \<le> 0" "then_cmp c d b e \<le> 0"
  then show "then_cmp c d a e \<le> 0"
    using three_way.strict_trans [OF assms(1), of a b e] three_way.strict_trans' [OF assms(1), of a b e]
      three_way.trans [OF assms(1), of a b e] three_way.trans [OF assms(2), of a b e]
    by (auto simp: then_cmp_def split: if_splits)
qed

subsection \<open>Sorting\<close>

definition sorted_cmp :: "('a \<Rightarrow> 'a \<Rightarrow> int) \<Rightarrow> 'a list \<Rightarrow> bool" where
  "sorted_cmp c = sorted_wrt (\<lambda>a b. c a b \<le> 0)"

text \<open>
  \<open>qsort\<close> permutes the array, and sorts it if the comparison orders its elements.
\<close>

definition qsort_ok :: "(('a \<Rightarrow> 'a \<Rightarrow> int) \<Rightarrow> 'a list \<Rightarrow> 'a list) \<Rightarrow> bool" where
  "qsort_ok qs \<longleftrightarrow>
     (\<forall>c xs. mset (qs c xs) = mset xs \<and>
        (\<forall>d. three_way d \<longrightarrow> (\<forall>a \<in> set xs. \<forall>b \<in> set xs. c a b = d a b) \<longrightarrow> sorted_cmp c (qs c xs)))"

fun insert_cmp :: "('a \<Rightarrow> 'a \<Rightarrow> int) \<Rightarrow> 'a \<Rightarrow> 'a list \<Rightarrow> 'a list" where
  "insert_cmp c x [] = [x]"
| "insert_cmp c x (y # ys) = (if c x y \<le> 0 then x # y # ys else y # insert_cmp c x ys)"

definition insertion_sort :: "('a \<Rightarrow> 'a \<Rightarrow> int) \<Rightarrow> 'a list \<Rightarrow> 'a list" where
  "insertion_sort c xs = foldr (insert_cmp c) xs []"

lemma mset_insert_cmp: "mset (insert_cmp c x ys) = add_mset x (mset ys)"
  by (induction ys) auto

lemma mset_insertion_sort: "mset (insertion_sort c xs) = mset xs"
  by (induction xs) (auto simp: insertion_sort_def mset_insert_cmp)

lemma set_insert_cmp: "set (insert_cmp c x ys) = insert x (set ys)"
  by (metis mset_insert_cmp set_mset_add_mset_insert set_mset_mset)

lemma sorted_insert_cmp:
  "three_way d \<Longrightarrow> sorted_cmp d ys \<Longrightarrow> sorted_cmp d (insert_cmp d x ys)"
proof (induction ys)
  case (Cons y ys)
  then show ?case
    using three_way.trans [OF Cons.prems(1), of x y] three_way.total [OF Cons.prems(1), of x y]
    by (auto simp: sorted_cmp_def set_insert_cmp)
qed (simp add: sorted_cmp_def)

lemma insert_cmp_cong:
  "(\<And>b. b \<in> set ys \<Longrightarrow> c x b = d x b) \<Longrightarrow> insert_cmp c x ys = insert_cmp d x ys"
  by (induction ys) auto

lemma insertion_sort_cong:
  "(\<And>a b. a \<in> set xs \<Longrightarrow> b \<in> set xs \<Longrightarrow> c a b = d a b) \<Longrightarrow> insertion_sort c xs = insertion_sort d xs"
proof (induction xs)
  case (Cons x xs)
  have "set (insertion_sort d xs) = set xs" by (metis mset_insertion_sort set_mset_mset)
  then show ?case using Cons by (auto simp: insertion_sort_def intro!: insert_cmp_cong)
qed (simp add: insertion_sort_def)

lemma sorted_cmp_cong:
  "(\<And>a b. a \<in> set xs \<Longrightarrow> b \<in> set xs \<Longrightarrow> c a b = d a b) \<Longrightarrow> sorted_cmp c xs = sorted_cmp d xs"
  by (auto simp: sorted_cmp_def intro: sorted_wrt_mono_rel [rotated])

lemma insertion_sort_ok: "qsort_ok insertion_sort"
  unfolding qsort_ok_def
proof (intro allI conjI impI)
  fix c d :: "'a \<Rightarrow> 'a \<Rightarrow> int" and xs
  show "mset (insertion_sort c xs) = mset xs" by (rule mset_insertion_sort)
  assume d: "three_way d" and eq: "\<forall>a\<in>set xs. \<forall>b\<in>set xs. c a b = d a b"
  have "sorted_cmp d (insertion_sort d ys)" for ys
    by (induction ys) (simp_all add: insertion_sort_def sorted_insert_cmp [OF d], simp add: sorted_cmp_def)
  moreover have "insertion_sort c xs = insertion_sort d xs" using eq by (intro insertion_sort_cong) blast
  moreover have "set (insertion_sort d xs) = set xs" by (metis mset_insertion_sort set_mset_mset)
  ultimately show "sorted_cmp c (insertion_sort c xs)"
    using eq sorted_cmp_cong [of "insertion_sort d xs" c d] by simp
qed

end
