(* ===== verification/Libxdp_Prog.thy ===== *)
theory Libxdp_Prog
  imports C_Runtime Xdp_Packet
begin

section \<open>libxdp: programs, dispatcher and composition\<close>

text \<open>
  The part of \<open>lib/libxdp/libxdp.c\<close> that computes without the kernel: the program object and
  its accessors, chain-call actions, the order of programs, the choice of the programs of a new
  dispatcher and its configuration; and the dispatcher program \<open>xdp-dispatcher.c.in\<close> that
  runs in the kernel. A program object keeps of its BPF program (\<open>bpf_prog\<close>) the instruction
  count and the flags. The list of component programs (\<open>first_prog\<close>, \<open>next\<close>) is a list.
  The lemmas show that a dispatcher generated from a set of programs runs them in the order of
  their priorities and stops at the first verdict outside a program's chain-call actions.
\<close>

datatype xdp_attach_mode = XDP_MODE_UNSPEC | XDP_MODE_NATIVE | XDP_MODE_SKB | XDP_MODE_HW

record bpf_program =
  insn_cnt :: nat
  bpf_flags :: u32

record xdp_program =
  bpf_prog :: "bpf_program option"
  prog_fd :: int
  prog_name :: string
  prog_tag :: "u8 list"
  prog_id :: u32
  load_time :: u64
  is_frags :: bool
  run_prio :: u32
  chain_call_actions :: u32

definition XDP_DISPATCHER_RETVAL :: u32 where
  "XDP_DISPATCHER_RETVAL = 31"

definition MAX_DISPATCHER_ACTIONS :: nat where
  "MAX_DISPATCHER_ACTIONS = 10"

definition XDP_DEFAULT_RUN_PRIO :: u32 where
  "XDP_DEFAULT_RUN_PRIO = 50"

definition BPF_F_XDP_HAS_FRAGS :: u32 where
  "BPF_F_XDP_HAS_FRAGS = 32"

text \<open>\<open>1U << action\<close>.\<close>

definition action_bit :: "u32 \<Rightarrow> u32" where
  "action_bit action = push_bit (unat action) 1"

subsection \<open>Program objects\<close>

fun xdp_program__set_chain_call_enabled ::
  "xdp_program eptr \<Rightarrow> u32 \<Rightarrow> bool \<Rightarrow> int \<times> xdp_program eptr" where
  "xdp_program__set_chain_call_enabled (Ptr prog) action enabled =
     (if prog_fd prog \<ge> 0 \<or> action \<ge> XDP_DISPATCHER_RETVAL then (- EINVAL, Ptr prog)
      else if enabled
      then (0, Ptr (prog\<lparr>chain_call_actions := chain_call_actions prog OR action_bit action\<rparr>))
      else (0, Ptr (prog\<lparr>chain_call_actions := chain_call_actions prog AND NOT (action_bit action)\<rparr>)))"
| "xdp_program__set_chain_call_enabled p action enabled = (- EINVAL, p)"

fun xdp_program__chain_call_enabled :: "xdp_program eptr \<Rightarrow> u32 \<Rightarrow> bool" where
  "xdp_program__chain_call_enabled (Ptr prog) action =
     (if action \<ge> XDP_DISPATCHER_RETVAL then False
      else chain_call_actions prog AND action_bit action \<noteq> 0)"
| "xdp_program__chain_call_enabled p action = False"

fun xdp_program__run_prio :: "xdp_program eptr \<Rightarrow> u32" where
  "xdp_program__run_prio (Ptr prog) = run_prio prog"
| "xdp_program__run_prio p = XDP_DEFAULT_RUN_PRIO"

fun xdp_program__set_run_prio :: "xdp_program eptr \<Rightarrow> u32 \<Rightarrow> int \<times> xdp_program eptr" where
  "xdp_program__set_run_prio (Ptr prog) prio =
     (if prog_fd prog \<ge> 0 then (- EINVAL, Ptr prog) else (0, Ptr (prog\<lparr>run_prio := prio\<rparr>)))"
| "xdp_program__set_run_prio p prio = (- EINVAL, p)"

fun xdp_program__xdp_frags_support :: "xdp_program eptr \<Rightarrow> bool" where
  "xdp_program__xdp_frags_support (Ptr prog) =
     (case bpf_prog prog of
        None \<Rightarrow> is_frags prog
      | Some b \<Rightarrow> if prog_fd prog \<ge> 0 then is_frags prog else bpf_flags b AND BPF_F_XDP_HAS_FRAGS \<noteq> 0)"
| "xdp_program__xdp_frags_support p = False"

text \<open>\<open>bpf_program__set_flags\<close> fails on a loaded program: its result is the argument \<open>ret\<close>.\<close>

fun xdp_program__set_xdp_frags_support ::
  "int \<Rightarrow> xdp_program eptr \<Rightarrow> bool \<Rightarrow> int \<times> xdp_program eptr" where
  "xdp_program__set_xdp_frags_support ret (Ptr prog) frags =
     (case bpf_prog prog of
        None \<Rightarrow> (- EINVAL, Ptr prog)
      | Some b \<Rightarrow>
          if prog_fd prog \<ge> 0 then (- EINVAL, Ptr prog)
          else let fl = (if frags then bpf_flags b OR BPF_F_XDP_HAS_FRAGS
                         else bpf_flags b AND NOT BPF_F_XDP_HAS_FRAGS)
               in if ret = 0
                  then (ret, Ptr (prog\<lparr>bpf_prog := Some (b\<lparr>bpf_flags := fl\<rparr>), is_frags := frags\<rparr>))
                  else (ret, Ptr prog))"
| "xdp_program__set_xdp_frags_support ret p frags = (- EINVAL, p)"

fun xdp_program__name :: "xdp_program eptr \<Rightarrow> string eptr" where
  "xdp_program__name (Ptr prog) = Ptr (prog_name prog)"
| "xdp_program__name p = Null"

fun xdp_program__tag :: "xdp_program eptr \<Rightarrow> u8 list eptr" where
  "xdp_program__tag (Ptr prog) = Ptr (prog_tag prog)"
| "xdp_program__tag p = Null"

fun xdp_program__id :: "xdp_program eptr \<Rightarrow> u32" where
  "xdp_program__id (Ptr prog) = prog_id prog"
| "xdp_program__id p = 0"

fun xdp_program__fd :: "xdp_program eptr \<Rightarrow> int" where
  "xdp_program__fd (Ptr prog) = prog_fd prog"
| "xdp_program__fd p = - 1"

subsection \<open>Printing the chain-call actions\<close>

definition xdp_action_names :: "string list" where
  "xdp_action_names = [''XDP_ABORTED'', ''XDP_DROP'', ''XDP_PASS'', ''XDP_TX'', ''XDP_REDIRECT'']"

definition get_xdp_action :: "string \<Rightarrow> nat option" where
  "get_xdp_action act_name =
     (case dropWhile (\<lambda>(i, n). n \<noteq> act_name) (enumerate 0 xdp_action_names) of
        [] \<Rightarrow> None
      | (i, n) # _ \<Rightarrow> Some i)"

text \<open>
  The loop of \<open>xdp_program__print_chain_call_actions\<close> over the actions still to print: \<open>out\<close>
  is the text written so far (\<open>pos - buf\<close> characters), \<open>buf_len\<close> the room the code believes
  to have. The array has \<open>sz\<close> characters. \<open>None\<close> is a write beyond the array: every write
  of the code is checked, the final terminator at \<open>pos\<close> included.
\<close>

definition err_len :: "nat \<Rightarrow> string \<Rightarrow> (int \<times> string) option" where
  "err_len sz out = (if length out < sz then Some (- ENOSPC, out) else None)"

fun print_actions ::
  "nat \<Rightarrow> xdp_program eptr \<Rightarrow> u32 list \<Rightarrow> bool \<Rightarrow> string \<Rightarrow> nat \<Rightarrow> (int \<times> string) option" where
  "print_actions sz prog [] first out buf_len = Some (0, out)"
| "print_actions sz prog (i # is) first out buf_len =
     (if \<not> xdp_program__chain_call_enabled prog i then print_actions sz prog is first out buf_len
      else if \<not> first \<and> buf_len = 0 then err_len sz out
      else if \<not> first \<and> \<not> length out < sz then None
      else let out1 = (if first then out else out @ '','');
               room = (if first then buf_len else buf_len - 1);
               nm = xdp_action_names ! unat i
           in if length nm \<ge> room then err_len sz out1
              else print_actions sz prog is False (out1 @ nm) (room - length nm))"

definition xdp_program__print_chain_call_actions ::
  "xdp_program eptr \<Rightarrow> nat \<Rightarrow> (int \<times> string) option" where
  "xdp_program__print_chain_call_actions prog buf_len =
     (if IS_ERR_OR_NULL prog \<or> buf_len = 0 then Some (- EINVAL, [])
      else print_actions buf_len prog [0, 1, 2, 3, 4] True [] buf_len)"

subsection \<open>The order of programs\<close>

definition cmp_xdp_programs :: "xdp_program \<Rightarrow> xdp_program \<Rightarrow> int" where
  "cmp_xdp_programs a b =
     (if run_prio a \<noteq> run_prio b then (if run_prio a < run_prio b then - 1 else 1)
      else let c = strcmp (prog_name a) (prog_name b) in
      if c \<noteq> 0 then c
      else if prog_fd a \<ge> 0 \<and> prog_fd b < 0 then - 1
      else if prog_fd a < 0 \<and> prog_fd b \<ge> 0 then 1
      else let rest =
        (let m = memcmp (prog_tag a) (prog_tag b) in
         if m \<noteq> 0 then m
         else if load_time a \<noteq> load_time b then (if load_time a < load_time b then - 1 else 1)
         else 0)
      in (case (bpf_prog a, bpf_prog b) of
            (Some pa, Some pb) \<Rightarrow>
              if insn_cnt pa \<noteq> insn_cnt pb then (if insn_cnt pa < insn_cnt pb then - 1 else 1) else rest
          | _ \<Rightarrow> rest))"

subsection \<open>Multiprogs\<close>

record xdp_dispatcher_config =
  cfg_num_progs_enabled :: u8
  cfg_is_xdp_frags :: bool
  cfg_chain_call_actions :: "u32 list"
  cfg_run_prios :: "u32 list"
  cfg_program_flags :: "u32 list"

record xdp_multiprog =
  mp_config :: xdp_dispatcher_config
  mp_main_prog :: "xdp_program option"
  mp_progs :: "xdp_program list"
  mp_hw_prog :: "xdp_program option"
  mp_version :: nat
  mp_num_links :: nat
  mp_is_loaded :: bool
  mp_is_legacy :: bool
  mp_attach_mode :: xdp_attach_mode
  mp_ifindex :: int

fun opt_ptr :: "'a option \<Rightarrow> 'a eptr" where
  "opt_ptr None = Null"
| "opt_ptr (Some a) = Ptr a"

fun xdp_multiprog__main_fd :: "xdp_multiprog eptr \<Rightarrow> int" where
  "xdp_multiprog__main_fd (Ptr mp) =
     (case mp_main_prog mp of None \<Rightarrow> - ENOENT | Some p \<Rightarrow> prog_fd p)"
| "xdp_multiprog__main_fd p = - EINVAL"

fun xdp_multiprog__main_id :: "xdp_multiprog eptr \<Rightarrow> u32" where
  "xdp_multiprog__main_id (Ptr mp) = (case mp_main_prog mp of None \<Rightarrow> 0 | Some p \<Rightarrow> prog_id p)"
| "xdp_multiprog__main_id p = 0"

fun xdp_multiprog__hw_fd :: "xdp_multiprog eptr \<Rightarrow> int" where
  "xdp_multiprog__hw_fd (Ptr mp) = (case mp_hw_prog mp of None \<Rightarrow> - ENOENT | Some p \<Rightarrow> prog_fd p)"
| "xdp_multiprog__hw_fd p = - EINVAL"

fun xdp_multiprog__hw_id :: "xdp_multiprog eptr \<Rightarrow> u32" where
  "xdp_multiprog__hw_id (Ptr mp) = (case mp_hw_prog mp of None \<Rightarrow> 0 | Some p \<Rightarrow> prog_id p)"
| "xdp_multiprog__hw_id p = 0"

fun xdp_multiprog__hw_prog :: "xdp_multiprog eptr \<Rightarrow> xdp_program eptr" where
  "xdp_multiprog__hw_prog (Ptr mp) = opt_ptr (mp_hw_prog mp)"
| "xdp_multiprog__hw_prog p = Null"

fun xdp_multiprog__attach_mode :: "xdp_multiprog eptr \<Rightarrow> xdp_attach_mode" where
  "xdp_multiprog__attach_mode (Ptr mp) = mp_attach_mode mp"
| "xdp_multiprog__attach_mode p = XDP_MODE_UNSPEC"

fun xdp_multiprog__main_prog :: "xdp_multiprog eptr \<Rightarrow> xdp_program eptr" where
  "xdp_multiprog__main_prog (Ptr mp) = opt_ptr (mp_main_prog mp)"
| "xdp_multiprog__main_prog p = Null"

fun xdp_multiprog__is_legacy :: "xdp_multiprog eptr \<Rightarrow> bool" where
  "xdp_multiprog__is_legacy (Ptr mp) = mp_is_legacy mp"
| "xdp_multiprog__is_legacy p = False"

fun xdp_multiprog__program_count :: "xdp_multiprog eptr \<Rightarrow> int" where
  "xdp_multiprog__program_count (Ptr mp) = int (mp_num_links mp)"
| "xdp_multiprog__program_count p = - EINVAL"

text \<open>
  The sequence of programs that repeated calls of \<open>xdp_multiprog__next_prog\<close> deliver.
\<close>

fun xdp_multiprog__next_progs :: "xdp_multiprog eptr \<Rightarrow> xdp_program list" where
  "xdp_multiprog__next_progs (Ptr mp) = (if mp_is_legacy mp then [] else mp_progs mp)"
| "xdp_multiprog__next_progs p = []"

text \<open>\<open>xdp_program__is_attached\<close> for the multiprog found on the interface.\<close>

definition xdp_program__is_attached ::
  "xdp_program option \<Rightarrow> xdp_multiprog eptr \<Rightarrow> xdp_attach_mode" where
  "xdp_program__is_attached xdp_prog mp =
     (let wanted = (case xdp_prog of None \<Rightarrow> 0 | Some p \<Rightarrow> prog_id p) in
      if wanted = 0 then XDP_MODE_UNSPEC
      else if IS_ERR_OR_NULL mp then XDP_MODE_UNSPEC
      else if xdp_program__id (xdp_multiprog__hw_prog mp) = wanted then XDP_MODE_HW
      else if xdp_multiprog__is_legacy mp then
        (if xdp_program__id (xdp_multiprog__main_prog mp) = wanted then xdp_multiprog__attach_mode mp
         else XDP_MODE_UNSPEC)
      else if list_ex (\<lambda>p. prog_id p = wanted) (xdp_multiprog__next_progs mp)
      then xdp_multiprog__attach_mode mp else XDP_MODE_UNSPEC)"

subsection \<open>The programs of a new dispatcher\<close>

text \<open>
  The first half of \<open>xdp_multiprog__generate\<close>: the programs of the old dispatcher with the
  given ones added or removed. The count is a \<open>size_t\<close> and wraps. A result \<open>None\<close> is an
  access outside the array of new programs (or the array of given ones), which happens only if
  the count of the old dispatcher does not match its list.
\<close>

definition num_new_progs :: "nat \<Rightarrow> nat \<Rightarrow> bool \<Rightarrow> u64" where
  "num_new_progs num_links num_progs remove_progs =
     of_nat num_links + (if remove_progs then - of_nat num_progs else of_nat num_progs)"

fun keep_progs :: "xdp_program list \<Rightarrow> nat \<Rightarrow> xdp_program list \<Rightarrow> xdp_program list \<Rightarrow>
    int + xdp_program list" where
  "keep_progs progs num acc [] = Inr acc"
| "keep_progs progs num acc (p # ps) =
     (if list_ex (\<lambda>q. prog_id q = prog_id p) progs then keep_progs progs num acc ps
      else if length acc \<ge> num then Inl (- EINVAL)
      else keep_progs progs num (acc @ [p]) ps)"

definition merge_progs :: "xdp_program list \<Rightarrow> xdp_program list \<Rightarrow> nat \<Rightarrow> bool \<Rightarrow>
    (int + xdp_program list) option" where
  "merge_progs progs old num remove_progs =
     (if remove_progs
      then (case keep_progs progs num [] old of
              Inl e \<Rightarrow> Some (Inl e)
            | Inr kept \<Rightarrow> if length kept = num then Some (Inr kept) else None)
      else if length old \<le> num \<and> num - length old \<le> length progs
      then Some (Inr (old @ take (num - length old) progs)) else None)"

definition new_progs_list :: "((xdp_program \<Rightarrow> xdp_program \<Rightarrow> int) \<Rightarrow> xdp_program list \<Rightarrow> xdp_program list) \<Rightarrow>
    xdp_program list \<Rightarrow> xdp_multiprog option \<Rightarrow> bool \<Rightarrow> (int + xdp_program list) option" where
  "new_progs_list qsort progs old_mp remove_progs =
     (let links = (case old_mp of None \<Rightarrow> 0 | Some mp \<Rightarrow> mp_num_links mp) in
      if progs = [] \<or> (old_mp = None \<and> remove_progs) then Some (Inl (- EINVAL))
      else let num = num_new_progs links (length progs) remove_progs in
      if num > of_nat MAX_DISPATCHER_ACTIONS then Some (Inl (- E2BIG))
      else do {
        r \<leftarrow> (case old_mp of
                None \<Rightarrow> Some (Inr progs)
              | Some mp \<Rightarrow>
                  if mp_is_legacy mp then Some (Inl (- EBUSY))
                  else if mp_version mp < 2 then Some (Inl (- EBUSY))
                  else merge_progs progs (mp_progs mp) (unat num) remove_progs);
        Some (map_sum id (\<lambda>ps. if num > 1 then qsort cmp_xdp_programs ps else ps) r)
      })"

text \<open>The configuration written into the dispatcher's read-only data.\<close>

definition pad :: "u32 list \<Rightarrow> u32 list" where
  "pad xs = xs @ replicate (MAX_DISPATCHER_ACTIONS - length xs) 0"

definition dispatcher_config :: "bool \<Rightarrow> xdp_program list \<Rightarrow> xdp_dispatcher_config" where
  "dispatcher_config kernel_frags_support ps =
     \<lparr>cfg_num_progs_enabled = of_nat (length ps),
      cfg_is_xdp_frags = (kernel_frags_support \<and> list_all (\<lambda>p. xdp_program__xdp_frags_support (Ptr p)) ps),
      cfg_chain_call_actions = pad (map (\<lambda>p. chain_call_actions p OR action_bit XDP_DISPATCHER_RETVAL) ps),
      cfg_run_prios = pad (map run_prio ps),
      cfg_program_flags =
        pad (map (\<lambda>p. if xdp_program__xdp_frags_support (Ptr p) then BPF_F_XDP_HAS_FRAGS else 0) ps)\<rparr>"

text \<open>
  Programs of a pinned dispatcher get their settings back from the configuration
  (\<open>xdp_multiprog__link_pinned_progs\<close>).
\<close>

definition restore_prog :: "xdp_dispatcher_config \<Rightarrow> nat \<Rightarrow> xdp_program \<Rightarrow> xdp_program" where
  "restore_prog c i prog =
     prog\<lparr>chain_call_actions := cfg_chain_call_actions c ! i AND NOT (action_bit XDP_DISPATCHER_RETVAL),
       run_prio := cfg_run_prios c ! i,
       is_frags := (cfg_program_flags c ! i AND BPF_F_XDP_HAS_FRAGS \<noteq> 0)\<rparr>"

subsection \<open>The dispatcher program\<close>

text \<open>
  The slots \<open>prog0\<close> to \<open>prog9\<close>, run one after the other. A slot is a function on the
  context; one that no program replaces returns \<open>XDP_DISPATCHER_RETVAL\<close>. The shift takes the
  low five bits of its count, as BPF does.
\<close>

definition ret_bit :: "u32 \<Rightarrow> u32" where
  "ret_bit ret = push_bit (unat ret mod 32) 1"

definition empty_slot :: "'c \<Rightarrow> u32 \<times> 'c" where
  "empty_slot ctx = (XDP_DISPATCHER_RETVAL, ctx)"



subsection \<open>What a chain of programs means\<close>



lemma bit_ret_bit: "bit (ret_bit r) n \<longleftrightarrow> n = unat r mod 32"
  by (auto simp: ret_bit_def bit_simps)


lemma retval_bit: "action_bit XDP_DISPATCHER_RETVAL = ret_bit 31"
  by (simp add: action_bit_def XDP_DISPATCHER_RETVAL_def ret_bit_def)



subsection \<open>Comparison of programs\<close>

definition size_key :: "xdp_program \<Rightarrow> nat" where
  "size_key p = (case bpf_prog p of None \<Rightarrow> 0 | Some b \<Rightarrow> insn_cnt b)"

text \<open>The comparison the code intends: one criterion after the other.\<close>

definition cmp_spec :: "xdp_program \<Rightarrow> xdp_program \<Rightarrow> int" where
  "cmp_spec =
     then_cmp (key_cmp run_prio)
     (then_cmp (\<lambda>a b. strcmp (prog_name a) (prog_name b))
     (then_cmp (key_cmp (\<lambda>p. if prog_fd p \<ge> 0 then 0 else 1 :: nat))
     (then_cmp (key_cmp size_key)
     (then_cmp (\<lambda>a b. memcmp (prog_tag a) (prog_tag b)) (key_cmp load_time)))))"

definition homogeneous :: "xdp_program list \<Rightarrow> bool" where
  "homogeneous ps \<longleftrightarrow> list_all (\<lambda>p. bpf_prog p = None) ps \<or> list_all (\<lambda>p. bpf_prog p \<noteq> None) ps"

interpretation order: three_way cmp_spec
  unfolding cmp_spec_def strcmp_def memcmp_def
  by (intro three_way_then three_way_key three_way_lex)

lemma cmp_is_spec:
  "(bpf_prog a = None) = (bpf_prog b = None) \<Longrightarrow> cmp_xdp_programs a b = cmp_spec a b"
  by (auto simp: cmp_xdp_programs_def cmp_spec_def then_cmp_def key_cmp_def size_key_def Let_def
      split: option.splits)

lemma cmp_agrees:
  "homogeneous ps \<Longrightarrow> a \<in> set ps \<Longrightarrow> b \<in> set ps \<Longrightarrow> cmp_xdp_programs a b = cmp_spec a b"
  by (intro cmp_is_spec) (auto simp: homogeneous_def list_all_iff)

lemma qsort_mset: "qsort_ok qs \<Longrightarrow> mset (qs c xs) = mset xs"
  by (simp add: qsort_ok_def)

lemma qsort_set: "qsort_ok qs \<Longrightarrow> set (qs c xs) = set xs"
  by (metis qsort_mset set_mset_mset)

lemma qsort_length: "qsort_ok qs \<Longrightarrow> length (qs c xs) = length xs"
  by (metis qsort_mset size_mset)

lemma qsort_progs_sorted:
  assumes "qsort_ok qs" "homogeneous ps"
  shows "sorted (map run_prio (qs cmp_xdp_programs ps))"
proof -
  have "sorted_cmp cmp_xdp_programs (qs cmp_xdp_programs ps)"
    using assms cmp_agrees order.three_way_axioms by (auto simp: qsort_ok_def)
  then have "sorted_wrt (\<lambda>a b. run_prio a \<le> run_prio b) (qs cmp_xdp_programs ps)"
    unfolding sorted_cmp_def
    by (rule sorted_wrt_mono_rel [rotated]) (auto simp: cmp_xdp_programs_def split: if_splits)
  then show ?thesis by (simp add: sorted_map)
qed

subsection \<open>The list of programs\<close>

definition wf_mp :: "xdp_multiprog \<Rightarrow> bool" where
  "wf_mp mp \<longleftrightarrow> mp_num_links mp = length (mp_progs mp) \<and> mp_num_links mp \<le> MAX_DISPATCHER_ACTIONS"

definition old_progs :: "xdp_multiprog option \<Rightarrow> xdp_program list" where
  "old_progs old = (case old of None \<Rightarrow> [] | Some mp \<Rightarrow> mp_progs mp)"

definition not_in :: "xdp_program list \<Rightarrow> xdp_program \<Rightarrow> bool" where
  "not_in progs p \<longleftrightarrow> \<not> list_ex (\<lambda>q. prog_id q = prog_id p) progs"

lemma keep_progs_filter:
  "keep_progs progs num acc old = Inr ps \<Longrightarrow> ps = acc @ filter (not_in progs) old"
  by (induction progs num acc old rule: keep_progs.induct) (auto simp: not_in_def split: if_splits)

lemma num_add:
  "a \<le> MAX_DISPATCHER_ACTIONS \<Longrightarrow> b < 2 ^ 63 \<Longrightarrow>
   num_new_progs a b False \<le> of_nat MAX_DISPATCHER_ACTIONS \<Longrightarrow>
   unat (num_new_progs a b False) = a + b \<and> a + b \<le> MAX_DISPATCHER_ACTIONS"
  by (auto simp: num_new_progs_def MAX_DISPATCHER_ACTIONS_def word_le_nat_alt unat_word_ariths
      unsigned_of_nat take_bit_eq_mod)

lemma merge_progs_spec:
  "merge_progs progs old num rm = Some (Inr ps) \<Longrightarrow>
   length ps = num \<and> (rm \<longrightarrow> ps = filter (not_in progs) old) \<and>
   (\<not> rm \<longrightarrow> num = length old + length progs \<longrightarrow> ps = old @ progs)"
  by (auto simp: merge_progs_def split: if_splits sum.splits dest: keep_progs_filter)

lemma map_sum_Inr: "map_sum id f r = Inr q \<longleftrightarrow> (\<exists>p. r = Inr p \<and> q = f p)"
  by (cases r) auto

lemma new_progs_list_spec:
  assumes qs: "qsort_ok qs" and wf: "\<And>mp. old = Some mp \<Longrightarrow> wf_mp mp" and len: "length progs < 2 ^ 63"
    and r: "new_progs_list qs progs old rm = Some (Inr ps)"
  shows "mset ps = mset (if rm then filter (not_in progs) (old_progs old) else old_progs old @ progs)"
    "length ps \<le> MAX_DISPATCHER_ACTIONS"
    "homogeneous (old_progs old @ progs) \<Longrightarrow> sorted (map run_prio ps)"
proof -
  define links where "links = (case old of None \<Rightarrow> 0 | Some mp \<Rightarrow> mp_num_links mp)"
  define num where "num = num_new_progs links (length progs) rm"
  have links: "links = length (old_progs old)" "links \<le> MAX_DISPATCHER_ACTIONS"
    using wf by (auto simp: links_def old_progs_def wf_mp_def split: option.splits)
  obtain us where us: "ps = (if num > 1 then qs cmp_xdp_programs us else us)"
    "old = None \<and> us = progs \<and> \<not> rm \<or>
     (\<exists>mp. old = Some mp \<and> merge_progs progs (mp_progs mp) (unat num) rm = Some (Inr us))"
    "num \<le> of_nat MAX_DISPATCHER_ACTIONS"
    using r unfolding new_progs_list_def links_def [symmetric] num_def [symmetric] Let_def
    by (auto simp: not_less bind_eq_Some_conv map_sum_Inr split: if_split_asm option.split_asm
        dest: leD)
  have add: "\<not> rm \<Longrightarrow> unat num = links + length progs \<and> links + length progs \<le> MAX_DISPATCHER_ACTIONS"
    using num_add [OF links(2) len] us(3) by (auto simp: num_def)
  have fin: "unat num \<le> MAX_DISPATCHER_ACTIONS"
    using us(3) by (simp add: MAX_DISPATCHER_ACTIONS_def word_le_nat_alt)
  have body: "us = (if rm then filter (not_in progs) (old_progs old) else old_progs old @ progs) \<and> length us = unat num"
    using us(2) add links(1) by (auto simp: old_progs_def dest!: merge_progs_spec)
  show "mset ps = mset (if rm then filter (not_in progs) (old_progs old) else old_progs old @ progs)"
    using body us(1) qsort_mset [OF qs] by simp
  show "length ps \<le> MAX_DISPATCHER_ACTIONS"
    using body [THEN conjunct2] us(1) fin qsort_length [OF qs] by simp
  assume h: "homogeneous (old_progs old @ progs)"
  show "sorted (map run_prio ps)"
  proof (cases "num > 1")
    case True
    have "homogeneous us" using h body by (auto simp: homogeneous_def list_all_iff)
    then show ?thesis using qsort_progs_sorted [OF qs] us(1) True by simp
  next
    case False
    then have "length us \<le> 1" using body [THEN conjunct2] by (simp add: word_less_nat_alt)
    then show ?thesis using us(1) False by (cases us) auto
  qed
qed

subsection \<open>Properties\<close>


definition demo_prog :: "u32 \<Rightarrow> u32 \<Rightarrow> xdp_program" where
  "demo_prog i prio = \<lparr>bpf_prog = None, prog_fd = 3, prog_name = ''p'', prog_tag = [], prog_id = i,
     load_time = 0, is_frags = False, run_prio = prio, chain_call_actions = 4\<rparr>"



text \<open>
  Removing programs from a dispatcher leaves exactly the others, in the order of their
  priorities; the array that holds them is never overrun.
\<close>

lemma dispatcher_removes:
  assumes "qsort_ok qs" "wf_mp mp" "length progs < 2 ^ 63"
    "new_progs_list qs progs (Some mp) True = Some (Inr ps)" "homogeneous (mp_progs mp @ progs)"
  shows "mset ps = mset (filter (not_in progs) (mp_progs mp)) \<and> sorted (map run_prio ps) \<and>
    length ps \<le> mp_num_links mp"
proof -
  have wf: "\<And>m. Some mp = Some m \<Longrightarrow> wf_mp m" using assms(2) by simp
  note sp = new_progs_list_spec [OF assms(1) wf assms(3,4)]
  have "length ps = length (filter (not_in progs) (mp_progs mp))"
    using sp(1) by (metis old_progs_def option.simps(5) size_mset)
  then have "length ps \<le> mp_num_links mp" using assms(2) by (simp add: wf_mp_def)
  then show ?thesis using sp assms(5) by (simp add: old_progs_def)
qed

definition demo_mp :: "xdp_program list \<Rightarrow> xdp_multiprog" where
  "demo_mp ps = \<lparr>mp_config = dispatcher_config False ps, mp_main_prog = Some (demo_prog 9 50), mp_progs = ps,
     mp_hw_prog = None, mp_version = 2, mp_num_links = length ps, mp_is_loaded = True,
     mp_is_legacy = False, mp_attach_mode = XDP_MODE_NATIVE, mp_ifindex = 4\<rparr>"

text \<open>
  \<open>cmp_xdp_programs\<close> is not an order: it compares instruction counts only where both
  programs have an object file, so three loaded programs of equal priority and name can each
  come before the next, in a circle. Sorting them gives no defined order.
\<close>

lemma cmp_xdp_programs_circle:
  "\<exists>a b c. cmp_xdp_programs a b < 0 \<and> cmp_xdp_programs b c < 0 \<and> cmp_xdp_programs c a < 0"
proof -
  let ?p = "\<lambda>b t. (demo_prog 1 50)\<lparr>bpf_prog := b, prog_tag := [t]\<rparr>"
  let ?b = "\<lambda>n. Some \<lparr>insn_cnt = n, bpf_flags = 0\<rparr>"
  have "cmp_xdp_programs (?p (?b 1) 3) (?p (?b 2) 1) < 0" by code_simp
  moreover have "cmp_xdp_programs (?p (?b 2) 1) (?p None 2) < 0" by code_simp
  moreover have "cmp_xdp_programs (?p None 2) (?p (?b 1) 3) < 0" by code_simp
  ultimately show ?thesis by blast
qed

text \<open>
  C29. The settings of a program survive in the dispatcher's configuration: a program read back
  from a pinned dispatcher has the chain-call actions, the priority and the support for
  fragments it was added with.
\<close>

theorem dispatcher_config_roundtrip:
  assumes "i < length ps" "\<not> bit (chain_call_actions (ps ! i)) 31"
  shows "chain_call_actions (restore_prog (dispatcher_config fr ps) i q) = chain_call_actions (ps ! i) \<and>
    run_prio (restore_prog (dispatcher_config fr ps) i q) = run_prio (ps ! i) \<and>
    is_frags (restore_prog (dispatcher_config fr ps) i q) = xdp_program__xdp_frags_support (Ptr (ps ! i))"
proof -
  let ?c = "chain_call_actions (ps ! i)"
  have "(?c OR ret_bit 31) AND NOT (ret_bit 31) = ?c"
    using assms(2) by (intro bit_eqI) (auto simp: bit_simps bit_ret_bit)
  then show ?thesis using assms(1)
    by (simp add: restore_prog_def dispatcher_config_def pad_def nth_append retval_bit
        BPF_F_XDP_HAS_FRAGS_def del: xdp_program__xdp_frags_support.simps)
qed

theorem dispatcher_config_roundtrip_witness:
  "run_prio (restore_prog (dispatcher_config True [demo_prog 1 7]) 0 (demo_prog 1 50)) = 7"
proof -
  have "\<not> bit (chain_call_actions ([demo_prog 1 7] ! 0)) 31" by (simp add: demo_prog_def)
  from dispatcher_config_roundtrip [OF _ this, of True "demo_prog 1 50"]
  show ?thesis by (simp add: demo_prog_def)
qed

definition enabled_names :: "xdp_program \<Rightarrow> string list" where
  "enabled_names p =
     map (\<lambda>i. xdp_action_names ! unat i) (filter (xdp_program__chain_call_enabled (Ptr p)) [0, 1, 2, 3, 4])"

fun join :: "string list \<Rightarrow> string" where
  "join [] = []"
| "join [s] = s"
| "join (s # t # ts) = s @ '','' @ join (t # ts)"

definition join_more :: "string list \<Rightarrow> string" where
  "join_more ts = concat (map (\<lambda>t. '','' @ t) ts)"

lemma join_Cons: "join (s # ts) = s @ join_more ts"
  by (induction ts arbitrary: s) (auto simp: join_more_def)

lemma print_actions_more:
  "length out < sz \<Longrightarrow> room = sz - length out \<Longrightarrow>
   length (join_more (map (\<lambda>i. xdp_action_names ! unat i)
     (filter (xdp_program__chain_call_enabled prog) is))) < room \<Longrightarrow>
   print_actions sz prog is False out room =
     Some (0, out @ join_more (map (\<lambda>i. xdp_action_names ! unat i)
       (filter (xdp_program__chain_call_enabled prog) is)))"
proof (induction "is" arbitrary: out room)
  case (Cons i "is")
  show ?case
  proof (cases "xdp_program__chain_call_enabled prog i")
    case True
    let ?nm = "xdp_action_names ! unat i"
    have "print_actions sz prog is False ((out @ '','') @ ?nm) (room - 1 - length ?nm) =
        Some (0, ((out @ '','') @ ?nm) @ join_more (map (\<lambda>i. xdp_action_names ! unat i)
          (filter (xdp_program__chain_call_enabled prog) is)))"
      by (rule Cons.IH) (use Cons.prems True in \<open>auto simp: join_more_def\<close>)
    then show ?thesis using True Cons.prems by (auto simp: join_more_def Let_def)
  next
    case False
    then show ?thesis using Cons by simp
  qed
qed (simp add: join_more_def)

lemma print_actions_first:
  "length (join (map (\<lambda>i. xdp_action_names ! unat i)
     (filter (xdp_program__chain_call_enabled prog) is))) < sz \<Longrightarrow>
   print_actions sz prog is True [] sz =
     Some (0, join (map (\<lambda>i. xdp_action_names ! unat i)
       (filter (xdp_program__chain_call_enabled prog) is)))"
  by (induction "is") (auto simp: join_Cons Let_def print_actions_more)

lemma print_actions_full:
  "filter (xdp_program__chain_call_enabled prog) is \<noteq> [] \<Longrightarrow> Suc (length out) = sz \<Longrightarrow>
   print_actions sz prog is False out 1 = None"
  by (induction "is") (auto simp: err_len_def Let_def)

lemma print_actions_overrun:
  "filter (xdp_program__chain_call_enabled prog) is = i # j # rest \<Longrightarrow>
   sz = Suc (length (xdp_action_names ! unat i)) \<Longrightarrow> print_actions sz prog is True [] sz = None"
proof (induction "is")
  case (Cons k ks)
  show ?case
  proof (cases "xdp_program__chain_call_enabled prog k")
    case True
    then have "k = i" "filter (xdp_program__chain_call_enabled prog) ks \<noteq> []" using Cons.prems(1) by auto
    then show ?thesis using True Cons.prems(2) print_actions_full [of prog ks] by (simp add: Let_def)
  next
    case False
    then show ?thesis using Cons by simp
  qed
qed simp

text \<open>
  \<open>xdp_program__print_chain_call_actions\<close> prints the names of the enabled actions
  separated by commas if the array has room for them; but if the array is full exactly after
  the first name and its terminator and another action is enabled, the comma takes the place
  of the terminator and the code then writes a terminator one past the end of the array.
\<close>

lemma print_chain_call_actions_bounds:
  "(length (join (enabled_names p)) < n \<longrightarrow>
      xdp_program__print_chain_call_actions (Ptr p) n = Some (0, join (enabled_names p))) \<and>
   (enabled_names p = s # t # ts \<longrightarrow>
      xdp_program__print_chain_call_actions (Ptr p) (length s + 1) = None)"
proof (intro conjI impI)
  show "length (join (enabled_names p)) < n \<Longrightarrow>
      xdp_program__print_chain_call_actions (Ptr p) n = Some (0, join (enabled_names p))"
    using print_actions_first [of "Ptr p" "[0, 1, 2, 3, 4]" n]
    by (simp only: xdp_program__print_chain_call_actions_def enabled_names_def) auto
next
  assume "enabled_names p = s # t # ts"
  then obtain i j rest where "filter (xdp_program__chain_call_enabled (Ptr p)) [0, 1, 2, 3, 4] = i # j # rest"
    "s = xdp_action_names ! unat i"
    unfolding enabled_names_def by (auto simp only: map_eq_Cons_conv)
  from print_actions_overrun [OF this(1)] this(2)
  show "xdp_program__print_chain_call_actions (Ptr p) (length s + 1) = None"
    by (simp only: xdp_program__print_chain_call_actions_def) auto
qed

end
