(* ===== verification/Libxdp_Attach.thy ===== *)
theory Libxdp_Attach
  imports Libxdp_Prog
begin

section \<open>libxdp: attaching and detaching\<close>

text \<open>
  The control paths of \<open>lib/libxdp/libxdp.c\<close>: reading what is attached to an interface,
  attaching programs behind a dispatcher (or directly), and detaching them. The kernel and the
  code that loads, links and pins BPF objects are the operations of the record \<open>kops\<close>, over
  an unspecified state \<open>'w\<close>. The state of the model is the kernel's, the error number where
  the code reads it (\<open>errno\<close>), and the number of multiprog objects that are allocated and not
  closed (\<open>open_mps\<close>), which the leak theorems are about. Waiting between retries is left out.
\<close>

record xdp_query =
  q_drv_prog_id :: u32
  q_skb_prog_id :: u32
  q_hw_prog_id :: u32
  q_attach_mode :: u8

text \<open>
  One element of the kernel's list of BPF links as \<open>xdp_detach_link\<close> meets it: the file
  descriptor (or error) it gets, the error of the information call, the information, and what
  detaching the link does.
\<close>

record 'w link =
  l_fd :: int
  l_info_err :: int
  l_is_xdp :: bool
  l_ifindex :: int
  l_prog_id :: u32
  l_detach :: "int \<times> 'w"

record 'w kops =
  k_attach :: "'w \<Rightarrow> int \<Rightarrow> int \<Rightarrow> int \<Rightarrow> u32 \<Rightarrow> int \<times> 'w"
  k_query :: "'w \<Rightarrow> int \<Rightarrow> (int + xdp_query) \<times> 'w"
  k_fd_by_id :: "'w \<Rightarrow> u32 \<Rightarrow> int \<times> 'w"
  k_from_fd :: "'w \<Rightarrow> int \<Rightarrow> int \<Rightarrow> int \<Rightarrow> (int + xdp_multiprog) \<times> 'w"
  k_close :: "'w \<Rightarrow> int \<Rightarrow> 'w"
  k_frags_support :: "'w \<Rightarrow> bool \<times> 'w"
  k_load :: "'w \<Rightarrow> xdp_program \<Rightarrow> (int \<times> xdp_program) \<times> 'w"
  k_set_ifindex :: "'w \<Rightarrow> xdp_program \<Rightarrow> int \<Rightarrow> 'w"
  k_generate :: "'w \<Rightarrow> xdp_program list \<Rightarrow> int \<Rightarrow> xdp_multiprog option \<Rightarrow> bool \<Rightarrow> (int + xdp_multiprog) \<times> 'w"
  k_pin :: "'w \<Rightarrow> xdp_multiprog \<Rightarrow> int \<times> 'w"
  k_unpin :: "'w \<Rightarrow> xdp_multiprog \<Rightarrow> int \<times> 'w"
  k_links :: "'w \<Rightarrow> 'w link list"

record 'w lx =
  kern :: 'w
  errno :: int
  open_mps :: int

definition XDP_FLAGS_UPDATE_IF_NOEXIST :: u32 where "XDP_FLAGS_UPDATE_IF_NOEXIST = 1"
definition XDP_FLAGS_SKB_MODE :: u32 where "XDP_FLAGS_SKB_MODE = 2"
definition XDP_FLAGS_DRV_MODE :: u32 where "XDP_FLAGS_DRV_MODE = 4"
definition XDP_FLAGS_HW_MODE :: u32 where "XDP_FLAGS_HW_MODE = 8"

definition MAX_RETRY :: nat where "MAX_RETRY = 10"

subsection \<open>Exchanging the program of an interface\<close>

definition do_xdp_attach :: "'w kops \<Rightarrow> int \<Rightarrow> int \<Rightarrow> int \<Rightarrow> u32 \<Rightarrow> 'w lx \<Rightarrow> int \<times> 'w lx" where
  "do_xdp_attach k ifindex pfd old_fd flags s =
     (case k_attach k (kern s) ifindex pfd old_fd flags of (err, w) \<Rightarrow>
        (err, s\<lparr>kern := w, errno := if err < 0 then - err else errno s\<rparr>))"

fun mode_flag :: "xdp_attach_mode \<Rightarrow> u32" where
  "mode_flag XDP_MODE_SKB = XDP_FLAGS_SKB_MODE"
| "mode_flag XDP_MODE_NATIVE = XDP_FLAGS_DRV_MODE"
| "mode_flag XDP_MODE_HW = XDP_FLAGS_HW_MODE"
| "mode_flag XDP_MODE_UNSPEC = 0"

text \<open>The label \<open>again\<close>: a second attempt without the old program.\<close>

function attach_again :: "'w kops \<Rightarrow> int \<Rightarrow> int \<Rightarrow> int \<Rightarrow> u32 \<Rightarrow> 'w lx \<Rightarrow> int \<times> 'w lx" where
  "attach_again k ifindex pfd old_fd flags s =
     (case do_xdp_attach k ifindex pfd old_fd flags s of (err, s1) \<Rightarrow>
        if err < 0 then
          if err = - EINVAL \<and> old_fd \<noteq> 0 then attach_again k ifindex pfd 0 flags s1
          else if err = - EEXIST \<and> old_fd \<noteq> 0 then (- EAGAIN, s1)
          else (err, s1)
        else (err, s1))"
  by pat_completeness auto
termination
  by (relation "measure (\<lambda>(k, i, p, old_fd, f, s). if old_fd = 0 then 0 else 1)") auto

declare attach_again.simps [simp del]

definition xdp_attach_fd :: "'w kops \<Rightarrow> int \<Rightarrow> int \<Rightarrow> int \<Rightarrow> xdp_attach_mode \<Rightarrow> 'w lx \<Rightarrow> int \<times> 'w lx" where
  "xdp_attach_fd k pfd old_fd ifindex mode s =
     (let flags0 = (if old_fd = - 1 then XDP_FLAGS_UPDATE_IF_NOEXIST else 0);
          old = (if old_fd = - 1 then 0 else old_fd)
      in attach_again k ifindex pfd old (flags0 OR mode_flag mode) s)"

subsection \<open>What is attached to an interface\<close>

text \<open>
  The variables \<open>prog_id\<close>, \<open>hw_prog_id\<close> and \<open>mode\<close> of the caller, which the switch on the
  kernel's answer sets or leaves.
\<close>

fun xdp_get_ifindex_prog_id :: "xdp_query \<Rightarrow> u32 \<times> u32 \<times> xdp_attach_mode \<Rightarrow> u32 \<times> u32 \<times> xdp_attach_mode" where
  "xdp_get_ifindex_prog_id q (pid, hw_prog_id, mode) =
     (if q_attach_mode q = 2 then (q_skb_prog_id q, hw_prog_id, XDP_MODE_SKB)
      else if q_attach_mode q = 1 then (q_drv_prog_id q, hw_prog_id, XDP_MODE_NATIVE)
      else if q_attach_mode q = 4 then
        (if q_drv_prog_id q \<noteq> 0 then (q_drv_prog_id q, q_hw_prog_id q, XDP_MODE_NATIVE)
         else if q_skb_prog_id q \<noteq> 0 then (q_skb_prog_id q, q_hw_prog_id q, XDP_MODE_SKB)
         else (pid, q_hw_prog_id q, mode))
      else if q_attach_mode q = 3 then (pid, q_hw_prog_id q, XDP_MODE_UNSPEC)
      else (pid, hw_prog_id, XDP_MODE_UNSPEC))"

definition close_if :: "'w kops \<Rightarrow> int \<Rightarrow> 'w \<Rightarrow> 'w" where
  "close_if k fd w = (if fd > 0 then k_close k w fd else w)"

definition xdp_multiprog__from_id ::
  "'w kops \<Rightarrow> u32 \<Rightarrow> u32 \<Rightarrow> int \<Rightarrow> 'w \<Rightarrow> (int + xdp_multiprog) \<times> 'w" where
  "xdp_multiprog__from_id k pid hw_id ifindex w =
     (case (if pid \<noteq> 0 then k_fd_by_id k w pid else (0, w)) of (fd, w1) \<Rightarrow>
        if pid \<noteq> 0 \<and> fd < 0 then (Inl fd, w1)
        else (case (if hw_id \<noteq> 0 then k_fd_by_id k w1 hw_id else (0, w1)) of (hw_fd, w2) \<Rightarrow>
          if hw_id \<noteq> 0 \<and> hw_fd < 0 then (Inl hw_fd, close_if k fd w2)
          else (case k_from_fd k w2 fd hw_fd ifindex of (r, w3) \<Rightarrow>
            (r, close_if k hw_fd (close_if k fd w3)))))"

function get_retry ::
  "'w kops \<Rightarrow> int \<Rightarrow> u32 \<times> u32 \<times> xdp_attach_mode \<Rightarrow> nat \<Rightarrow> 'w lx \<Rightarrow> xdp_multiprog eptr \<times> 'w lx" where
  "get_retry k ifindex vars retry_counter s =
     (case k_query k (kern s) ifindex of
        (Inl err, w) \<Rightarrow> (ErrPtr err, s\<lparr>kern := w\<rparr>)
      | (Inr q, w) \<Rightarrow>
          (case xdp_get_ifindex_prog_id q vars of (pid, hw_prog_id, mode) \<Rightarrow>
             if pid = 0 \<and> hw_prog_id = 0 then (ErrPtr (- ENOENT), s\<lparr>kern := w\<rparr>)
             else (case xdp_multiprog__from_id k pid hw_prog_id ifindex w of
                 (Inr mp, w1) \<Rightarrow>
                   (Ptr (mp\<lparr>mp_attach_mode := mode\<rparr>), s\<lparr>kern := w1, open_mps := open_mps s + 1\<rparr>)
               | (Inl err, w1) \<Rightarrow>
                   if err = - ENOENT then
                     if retry_counter + 1 > MAX_RETRY then (ErrPtr (- EBUSY), s\<lparr>kern := w1\<rparr>)
                     else get_retry k ifindex (pid, hw_prog_id, mode) (retry_counter + 1) (s\<lparr>kern := w1\<rparr>)
                   else (ErrPtr err, s\<lparr>kern := w1\<rparr>))))"
  by pat_completeness auto
termination
  by (relation "measure (\<lambda>(k, i, v, c, s). MAX_RETRY - c)") (auto split: if_splits)

declare get_retry.simps [simp del]

definition xdp_multiprog__get_from_ifindex ::
  "'w kops \<Rightarrow> int \<Rightarrow> 'w lx \<Rightarrow> xdp_multiprog eptr \<times> 'w lx" where
  "xdp_multiprog__get_from_ifindex k ifindex s = get_retry k ifindex (0, 0, XDP_MODE_UNSPEC) 0 s"

definition xdp_multiprog__close :: "xdp_multiprog eptr \<Rightarrow> 'w lx \<Rightarrow> 'w lx" where
  "xdp_multiprog__close mp s = (if IS_ERR_OR_NULL mp then s else s\<lparr>open_mps := open_mps s - 1\<rparr>)"

subsection \<open>Attaching\<close>

definition xdp_program__attach_single ::
  "'w kops \<Rightarrow> xdp_program \<Rightarrow> int \<Rightarrow> xdp_attach_mode \<Rightarrow> 'w lx \<Rightarrow> int \<times> 'w lx" where
  "xdp_program__attach_single k prog ifindex mode s =
     (case (if prog_fd prog < 0 then
              (case k_frags_support k (kern s) of (fr, w) \<Rightarrow>
                 let p = (if fr then prog
                          else (case xdp_program__set_xdp_frags_support 0 (Ptr prog) False of
                                  (r, Ptr p') \<Rightarrow> p' | _ \<Rightarrow> prog))
                 in (case k_load k w p of ((err, p'), w') \<Rightarrow> ((err, p'), s\<lparr>kern := w'\<rparr>)))
            else ((0, prog), s)) of
        ((err, p), s1) \<Rightarrow>
          if err \<noteq> 0 then (err, s1)
          else if prog_fd p < 0 then (- EINVAL, s1)
          else xdp_attach_fd k (prog_fd p) (- 1) ifindex mode s1)"

definition xdp_program__attach_hw :: "'w kops \<Rightarrow> xdp_program \<Rightarrow> int \<Rightarrow> 'w lx \<Rightarrow> int \<times> 'w lx" where
  "xdp_program__attach_hw k prog ifindex s =
     xdp_program__attach_single k prog ifindex XDP_MODE_HW
       (s\<lparr>kern := k_set_ifindex k (kern s) prog ifindex\<rparr>)"

definition xdp_multiprog__detach_hw :: "'w kops \<Rightarrow> xdp_multiprog option \<Rightarrow> 'w lx \<Rightarrow> int \<times> 'w lx" where
  "xdp_multiprog__detach_hw k old_mp s =
     (case old_mp of
        None \<Rightarrow> (- EINVAL, s)
      | Some mp \<Rightarrow>
          let hw_fd = xdp_multiprog__hw_fd (Ptr mp) in
          if hw_fd < 0 then (- EINVAL, s)
          else (case xdp_attach_fd k (- 1) hw_fd (mp_ifindex mp) XDP_MODE_HW s of (err, s1) \<Rightarrow>
            if err < 0 then (err, s1) else (0, s1)))"

text \<open>
  \<open>xdp_detach_link\<close>: the search through the kernel's links, with the number of file
  descriptors left open. Running out of links is the error \<open>ENOENT\<close> of the iterator.
\<close>

fun xdp_detach_link :: "'w link list \<Rightarrow> int \<Rightarrow> u32 \<Rightarrow> int \<Rightarrow> 'w \<Rightarrow> int \<times> int \<times> 'w" where
  "xdp_detach_link [] ifindex pid fds w = (- ENOENT, fds, w)"
| "xdp_detach_link (l # ls) ifindex pid fds w =
     (if l_fd l < 0 then (l_fd l, fds, w)
      else let fds1 = fds + 1 in
      if l_info_err l \<noteq> 0 then (l_info_err l, fds1 - 1, w)
      else if l_is_xdp l \<and> l_ifindex l = ifindex \<and> l_prog_id l = pid
      then (case l_detach l of (err, w1) \<Rightarrow> (err, fds1 - 1, w1))
      else xdp_detach_link ls ifindex pid (fds1 - 1) w)"

definition xdp_multiprog__attach ::
  "'w kops \<Rightarrow> xdp_multiprog option \<Rightarrow> xdp_multiprog option \<Rightarrow> xdp_attach_mode \<Rightarrow> 'w lx \<Rightarrow> int \<times> 'w lx" where
  "xdp_multiprog__attach k old_mp mp mode s =
     (if mp = None \<and> old_mp = None then (- EINVAL, s)
      else if mode = XDP_MODE_HW then (- EINVAL, s)
      else let pfd = (case mp of None \<Rightarrow> - 1 | Some m \<Rightarrow> xdp_multiprog__main_fd (Ptr m));
               ifindex = (case mp of None \<Rightarrow> - 1 | Some m \<Rightarrow> mp_ifindex m);
               old_fd = (case old_mp of None \<Rightarrow> - 1 | Some m \<Rightarrow> xdp_multiprog__main_fd (Ptr m))
      in if mp \<noteq> None \<and> pfd < 0 then (- EINVAL, s)
      else if old_mp \<noteq> None \<and> old_fd < 0 then (- EINVAL, s)
      else if old_mp \<noteq> None \<and> ifindex > - 1 \<and> ifindex \<noteq> mp_ifindex (the old_mp) then (- EINVAL, s)
      else let ifx = (case old_mp of None \<Rightarrow> ifindex | Some m \<Rightarrow> mp_ifindex m)
      in (case xdp_attach_fd k pfd old_fd ifx mode s of (err, s1) \<Rightarrow>
            if err < 0 then
              if errno s1 = EBUSY \<and> mp = None
              then (case xdp_detach_link (k_links k (kern s1)) ifx
                       (xdp_multiprog__main_id (opt_ptr old_mp)) 0 (kern s1) of
                      (err', fds, w) \<Rightarrow> (err', s1\<lparr>kern := w\<rparr>))
              else (err, s1)
            else (0, s1)))"

definition lift_k :: "('w \<Rightarrow> 'a \<times> 'w) \<Rightarrow> 'w lx \<Rightarrow> 'a \<times> 'w lx" where
  "lift_k f s = (case f (kern s) of (r, w) \<Rightarrow> (r, s\<lparr>kern := w\<rparr>))"

text \<open>
  \<open>generate\<close> allocates a multiprog when it succeeds. The end of \<open>xdp_program__attach_multi\<close>:
  the labels \<open>out_close\<close> and \<open>out\<close>.
\<close>

definition generate :: "'w kops \<Rightarrow> xdp_program list \<Rightarrow> int \<Rightarrow> xdp_multiprog option \<Rightarrow> bool \<Rightarrow> 'w lx \<Rightarrow>
    (int + xdp_multiprog) \<times> 'w lx" where
  "generate k progs ifindex old_mp remove s =
     (case k_generate k (kern s) progs ifindex old_mp remove of
        (Inl err, w) \<Rightarrow> (Inl err, s\<lparr>kern := w\<rparr>)
      | (Inr mp, w) \<Rightarrow> (Inr mp, s\<lparr>kern := w, open_mps := open_mps s + 1\<rparr>))"

definition out_close :: "xdp_multiprog \<Rightarrow> xdp_multiprog option \<Rightarrow> int \<Rightarrow> 'w lx \<Rightarrow> int \<times> 'w lx" where
  "out_close mp old_mp err s = (err, xdp_multiprog__close (opt_ptr old_mp) (xdp_multiprog__close (Ptr mp) s))"

fun ptr_opt :: "'a eptr \<Rightarrow> 'a option" where
  "ptr_opt (Ptr a) = Some a"
| "ptr_opt p = None"

function attach_retry :: "'w kops \<Rightarrow> bool \<Rightarrow> xdp_program list \<Rightarrow> int \<Rightarrow> xdp_attach_mode \<Rightarrow> nat \<Rightarrow> 'w lx \<Rightarrow>
    int \<times> 'w lx" where
  "attach_retry k skip_dispatcher progs ifindex mode retry_counter s =
     (case xdp_multiprog__get_from_ifindex k ifindex s of (r, s1) \<Rightarrow>
        let old_mp = ptr_opt r in
        if mode = XDP_MODE_HW then
          (let s2 = xdp_multiprog__close (opt_ptr old_mp) s1 in
           if xdp_multiprog__hw_prog (opt_ptr old_mp) \<noteq> Null then (- EEXIST, s2)
           else if length progs > 1 then (- EINVAL, s2)
           else xdp_program__attach_hw k (hd progs) ifindex s2)
        else if length progs = 1 \<and> skip_dispatcher then xdp_program__attach_single k (hd progs) ifindex mode s1
        else (case generate k progs ifindex old_mp False s1 of
            (Inl err, s2) \<Rightarrow>
              if err = - EOPNOTSUPP \<and> length progs = 1
              then xdp_program__attach_single k (hd progs) ifindex mode s2
              else (err, xdp_multiprog__close (opt_ptr old_mp) s2)
          | (Inr mp, s2) \<Rightarrow>
              (case lift_k (\<lambda>w. k_pin k w mp) s2 of (err, s3) \<Rightarrow>
                 if err \<noteq> 0 then out_close mp old_mp err s3
                 else (case xdp_multiprog__attach k old_mp (Some mp) mode s3 of (err, s4) \<Rightarrow>
                   if err \<noteq> 0 then
                     (case lift_k (\<lambda>w. k_unpin k w mp) s4 of (_, s5) \<Rightarrow>
                        if err = - EAGAIN then
                          if retry_counter + 1 > MAX_RETRY then out_close mp old_mp (- EBUSY) s5
                          else attach_retry k skip_dispatcher progs ifindex mode (retry_counter + 1)
                                 (xdp_multiprog__close (Ptr mp) (xdp_multiprog__close (opt_ptr old_mp) s5))
                        else out_close mp old_mp err s5)
                   else (case (case old_mp of None \<Rightarrow> (0, s4) | Some m \<Rightarrow> lift_k (\<lambda>w. k_unpin k w m) s4) of
                       (_, s5) \<Rightarrow> out_close mp old_mp 0 s5)))))"
  by pat_completeness auto
termination
  by (relation "measure (\<lambda>(k, sk, p, i, m, c, s). MAX_RETRY - c)") auto

declare attach_retry.simps [simp del]

definition xdp_program__attach_multi ::
  "'w kops \<Rightarrow> bool \<Rightarrow> xdp_program list \<Rightarrow> int \<Rightarrow> xdp_attach_mode \<Rightarrow> u32 \<Rightarrow> 'w lx \<Rightarrow> int \<times> 'w lx" where
  "xdp_program__attach_multi k skip_dispatcher progs ifindex mode flags s =
     (if progs = [] \<or> flags \<noteq> 0 then (- EINVAL, s)
      else attach_retry k skip_dispatcher progs ifindex mode 0 s)"

definition xdp_program__attach ::
  "'w kops \<Rightarrow> bool \<Rightarrow> xdp_program eptr \<Rightarrow> int \<Rightarrow> xdp_attach_mode \<Rightarrow> u32 \<Rightarrow> 'w lx \<Rightarrow> int \<times> 'w lx" where
  "xdp_program__attach k skip_dispatcher prog ifindex mode flags s =
     (case prog of
        Ptr p \<Rightarrow> xdp_program__attach_multi k skip_dispatcher [p] ifindex mode flags s
      | _ \<Rightarrow> (- EINVAL, s))"

subsection \<open>Detaching\<close>

text \<open>
  The checks of \<open>xdp_program__detach_multi\<close> before it changes anything (0 or an error), its
  body up to the label \<open>out\<close> (the error and the new multiprog, if one was built), and the
  retry loop around it.
\<close>

definition check_single :: "xdp_program list \<Rightarrow> xdp_multiprog \<Rightarrow> xdp_attach_mode \<Rightarrow> int" where
  "check_single progs mp mode =
     (let i = (if mode = XDP_MODE_HW then xdp_multiprog__hw_id (Ptr mp) else xdp_multiprog__main_id (Ptr mp)) in
      if length progs > 1 then - EINVAL
      else if prog_id (hd progs) = 0 then - EINVAL
      else if i \<noteq> prog_id (hd progs) then - ENOENT
      else 0)"

fun check_progs :: "xdp_program list \<Rightarrow> xdp_multiprog \<Rightarrow> int" where
  "check_progs [] mp = 0"
| "check_progs (p # ps) mp =
     (if prog_id p = 0 then - EINVAL
      else if \<not> list_ex (\<lambda>q. prog_id p = prog_id q) (xdp_multiprog__next_progs (Ptr mp)) then - ENOENT
      else check_progs ps mp)"

definition detach_body :: "'w kops \<Rightarrow> xdp_program list \<Rightarrow> int \<Rightarrow> xdp_attach_mode \<Rightarrow> xdp_multiprog \<Rightarrow> 'w lx \<Rightarrow>
    int \<times> xdp_multiprog option \<times> 'w lx" where
  "detach_body k progs ifindex mode mp s =
     (let c = (if mode = XDP_MODE_HW \<or> mp_is_legacy mp then check_single progs mp mode else 0) in
      if c \<noteq> 0 then (c, None, s)
      else if mode = XDP_MODE_HW then
        (case xdp_multiprog__detach_hw k (Some mp) s of (err, s1) \<Rightarrow> (err, None, s1))
      else if mode \<noteq> XDP_MODE_UNSPEC \<and> mp_attach_mode mp \<noteq> mode then (- ENOENT, None, s)
      else if mp_is_legacy mp then
        (case xdp_multiprog__attach k (Some mp) None mode s of (err, s1) \<Rightarrow> (err, None, s1))
      else let c2 = check_progs progs mp in
      if c2 \<noteq> 0 then (c2, None, s)
      else if length progs = mp_num_links mp then
        (case xdp_multiprog__attach k (Some mp) None (mp_attach_mode mp) s of (err, s1) \<Rightarrow>
           if err \<noteq> 0 then (err, None, s1)
           else (case lift_k (\<lambda>w. k_unpin k w mp) s1 of (err, s2) \<Rightarrow> (err, None, s2)))
      else (case generate k progs ifindex (Some mp) True s of
          (Inl err, s1) \<Rightarrow> (err, None, s1)
        | (Inr new_mp, s1) \<Rightarrow>
            (case lift_k (\<lambda>w. k_pin k w new_mp) s1 of (err, s2) \<Rightarrow>
               if err \<noteq> 0 then (err, Some new_mp, s2)
               else (case xdp_multiprog__attach k (Some mp) (Some new_mp) mode s2 of (err, s3) \<Rightarrow>
                 if err \<noteq> 0 then
                   (case lift_k (\<lambda>w. k_unpin k w new_mp) s3 of (_, s4) \<Rightarrow> (err, Some new_mp, s4))
                 else (case lift_k (\<lambda>w. k_unpin k w mp) s3 of (_, s4) \<Rightarrow> (0, Some new_mp, s4))))))"

function detach_retry :: "'w kops \<Rightarrow> xdp_program list \<Rightarrow> int \<Rightarrow> xdp_attach_mode \<Rightarrow> nat \<Rightarrow> 'w lx \<Rightarrow> int \<times> 'w lx" where
  "detach_retry k progs ifindex mode retry_counter s =
     (case xdp_multiprog__get_from_ifindex k ifindex s of
        (Ptr mp, s1) \<Rightarrow>
          (case detach_body k progs ifindex mode mp s1 of (err, new_mp, s2) \<Rightarrow>
             let s3 = xdp_multiprog__close (opt_ptr new_mp) (xdp_multiprog__close (Ptr mp) s2) in
             if err = - EAGAIN then
               if retry_counter + 1 > MAX_RETRY then (- EBUSY, s3)
               else detach_retry k progs ifindex mode (retry_counter + 1) s3
             else (err, s3))
      | (_, s1) \<Rightarrow> (- ENOENT, s1))"
  by pat_completeness auto
termination
  by (relation "measure (\<lambda>(k, p, i, m, c, s). MAX_RETRY - c)") auto

declare detach_retry.simps [simp del]

definition xdp_program__detach_multi ::
  "'w kops \<Rightarrow> xdp_program list \<Rightarrow> int \<Rightarrow> xdp_attach_mode \<Rightarrow> u32 \<Rightarrow> 'w lx \<Rightarrow> int \<times> 'w lx" where
  "xdp_program__detach_multi k progs ifindex mode flags s =
     (if flags \<noteq> 0 \<or> progs = [] then (- EINVAL, s) else detach_retry k progs ifindex mode 0 s)"

definition xdp_program__detach ::
  "'w kops \<Rightarrow> xdp_program eptr \<Rightarrow> int \<Rightarrow> xdp_attach_mode \<Rightarrow> u32 \<Rightarrow> 'w lx \<Rightarrow> int \<times> 'w lx" where
  "xdp_program__detach k prog ifindex mode flags s =
     (case prog of
        Ptr p \<Rightarrow> xdp_program__detach_multi k [p] ifindex mode flags s
      | _ \<Rightarrow> (- EINVAL, s))"

definition xdp_multiprog__detach :: "'w kops \<Rightarrow> xdp_multiprog eptr \<Rightarrow> 'w lx \<Rightarrow> int \<times> 'w lx" where
  "xdp_multiprog__detach k p s =
     (case p of
        Ptr mp \<Rightarrow>
          if \<not> mp_is_loaded mp then (- EINVAL, s)
          else (case (if mp_hw_prog mp \<noteq> None then xdp_multiprog__detach_hw k (Some mp) s else (0, s)) of
              (err, s1) \<Rightarrow>
                if err \<noteq> 0 then (err, s1)
                else if mp_main_prog mp = None then (0, s1)
                else (case xdp_multiprog__attach k (Some mp) None (mp_attach_mode mp) s1 of (err, s2) \<Rightarrow>
                  if err \<noteq> 0 then (err, s2)
                  else if \<not> mp_is_legacy mp then lift_k (\<lambda>w. k_unpin k w mp) s2
                  else (err, s2)))
      | _ \<Rightarrow> (- EINVAL, s))"

subsection \<open>No operation but opening and closing changes the number of open multiprogs\<close>

named_theorems keeps_mps

lemma do_xdp_attach_mps [keeps_mps]: "do_xdp_attach k i p old f s = (err, s') \<Longrightarrow> open_mps s' = open_mps s"
  by (auto simp: do_xdp_attach_def split: prod.splits)

text \<open>The second attempt is the last.\<close>

lemma attach_again_0: "attach_again k i p 0 f s = do_xdp_attach k i p 0 f s"
  by (subst attach_again.simps) (simp split: prod.splits)

lemma attach_again_eq:
  "attach_again k i p old f s =
     (case do_xdp_attach k i p old f s of (err, s1) \<Rightarrow>
        if err = - EINVAL \<and> old \<noteq> 0 then do_xdp_attach k i p 0 f s1
        else if err = - EEXIST \<and> old \<noteq> 0 then (- EAGAIN, s1) else (err, s1))"
  by (subst attach_again.simps) (auto simp: attach_again_0 split: prod.splits)

lemma attach_again_mps [keeps_mps]: "attach_again k i p old f s = (err, s') \<Longrightarrow> open_mps s' = open_mps s"
  unfolding attach_again_eq by (auto split: prod.split_asm if_split_asm dest!: do_xdp_attach_mps)

lemma xdp_attach_fd_mps [keeps_mps]: "xdp_attach_fd k p old i m s = (err, s') \<Longrightarrow> open_mps s' = open_mps s"
  by (auto simp: xdp_attach_fd_def Let_def dest: attach_again_mps)

lemma attach_single_mps [keeps_mps]:
  "xdp_program__attach_single k p i m s = (err, s') \<Longrightarrow> open_mps s' = open_mps s"
  unfolding xdp_program__attach_single_def
  by (auto simp: Let_def split: if_split_asm prod.split_asm dest: xdp_attach_fd_mps)

lemma attach_hw_mps [keeps_mps]: "xdp_program__attach_hw k p i s = (err, s') \<Longrightarrow> open_mps s' = open_mps s"
  by (auto simp: xdp_program__attach_hw_def dest: attach_single_mps)

lemma detach_hw_mps [keeps_mps]: "xdp_multiprog__detach_hw k mp s = (err, s') \<Longrightarrow> open_mps s' = open_mps s"
  by (auto simp: xdp_multiprog__detach_hw_def Let_def split: option.split_asm if_split_asm prod.split_asm
      dest: xdp_attach_fd_mps)

lemma multiprog_attach_mps [keeps_mps]:
  "xdp_multiprog__attach k old mp m s = (err, s') \<Longrightarrow> open_mps s' = open_mps s"
  unfolding xdp_multiprog__attach_def
  by (auto simp: Let_def split: if_split_asm prod.split_asm dest: xdp_attach_fd_mps)

lemma lift_k_mps [keeps_mps]: "lift_k f s = (r, s') \<Longrightarrow> open_mps s' = open_mps s"
  by (auto simp: lift_k_def split: prod.splits)

lemma multiprog_detach_mps: "xdp_multiprog__detach k p s = (err, s') \<Longrightarrow> open_mps s' = open_mps s"
  unfolding xdp_multiprog__detach_def
  by (auto split: eptr.split_asm if_split_asm prod.split_asm dest!: keeps_mps)

text \<open>Opening counts one, whatever the number of retries; closing takes one back.\<close>

definition held :: "'a eptr \<Rightarrow> int" where
  "held p = (if IS_ERR_OR_NULL p then 0 else 1)"

lemma held_simps [simp]: "held (Ptr a) = 1" "held Null = 0" "held (ErrPtr e) = 0"
  by (simp_all add: held_def)

lemma held_opt: "held (opt_ptr (ptr_opt r)) = held r"
  by (cases r) auto

lemma ptr_opt_Some [simp]: "ptr_opt r = Some a \<longleftrightarrow> r = Ptr a"
  by (cases r) auto

lemma ptr_opt_None: "ptr_opt r = None \<Longrightarrow> held r = 0"
  by (cases r) auto

lemma close_mps [simp]: "open_mps (xdp_multiprog__close p s) = open_mps s - held p"
  by (simp add: xdp_multiprog__close_def held_def)

lemma get_retry_mps: "get_retry k i v c s = (r, s') \<Longrightarrow> open_mps s' = open_mps s + held r"
proof (induction "MAX_RETRY - c" arbitrary: v c s rule: less_induct)
  case less
  have IH: "c < MAX_RETRY \<Longrightarrow> get_retry k i v' (Suc c) u = (r, s') \<Longrightarrow> open_mps s' = open_mps u + held r" for v' u
    by (rule less.hyps) auto
  from less.prems show ?case
    by (subst (asm) get_retry.simps)
      (auto split: prod.split_asm sum.split_asm if_split_asm dest!: IH [rotated])
qed

lemma get_from_ifindex_mps:
  "xdp_multiprog__get_from_ifindex k i s = (r, s') \<Longrightarrow> open_mps s' = open_mps s + held r"
  by (auto simp: xdp_multiprog__get_from_ifindex_def dest: get_retry_mps)

lemma generate_mps:
  "generate k ps i old rm s = (r, s') \<Longrightarrow> open_mps s' = open_mps s + (case r of Inl e \<Rightarrow> 0 | Inr mp \<Rightarrow> 1)"
  by (auto simp: generate_def split: prod.splits sum.splits)

lemma detach_body_mps:
  "detach_body k ps i m mp s = (err, new, s') \<Longrightarrow> open_mps s' = open_mps s + held (opt_ptr new)"
  unfolding detach_body_def
  by (auto simp: Let_def split: if_split_asm prod.split_asm sum.split_asm dest!: keeps_mps generate_mps)

lemma detach_retry_mps: "detach_retry k ps i m c s = (err, s') \<Longrightarrow> open_mps s' = open_mps s"
proof (induction "MAX_RETRY - c" arbitrary: c s rule: less_induct)
  case less
  have IH: "c < MAX_RETRY \<Longrightarrow> detach_retry k ps i m (Suc c) u = (err, s') \<Longrightarrow> open_mps s' = open_mps u" for u
    by (rule less.hyps) auto
  from less.prems show ?case
    by (subst (asm) detach_retry.simps)
      (auto simp: Let_def split: prod.split_asm eptr.split_asm if_split_asm
        dest!: get_from_ifindex_mps detach_body_mps IH [rotated])
qed

lemma out_close_mps: "out_close mp old e s = (err, s') \<Longrightarrow> open_mps s' = open_mps s - 1 - held (opt_ptr old)"
  by (auto simp: out_close_def)

lemma attach_retry_mps:
  assumes "length ps \<noteq> 1 \<or> m = XDP_MODE_HW"
  shows "attach_retry k sk ps i m c s = (err, s') \<Longrightarrow> open_mps s' = open_mps s"
proof (induction "MAX_RETRY - c" arbitrary: c s rule: less_induct)
  case less
  have IH: "c < MAX_RETRY \<Longrightarrow> attach_retry k sk ps i m (Suc c) u = (err, s') \<Longrightarrow> open_mps s' = open_mps u" for u
    by (rule less.hyps) auto
  from less.prems show ?case using assms
    by (subst (asm) attach_retry.simps)
      (auto simp: Let_def held_opt split: prod.split_asm sum.split_asm if_split_asm option.split_asm
        dest!: get_from_ifindex_mps generate_mps keeps_mps out_close_mps IH [rotated] ptr_opt_None)
qed

subsection \<open>Properties\<close>

text \<open>
  C28. Detaching programs leaks no multiprog object: whatever the kernel answers and however
  often the operation is retried, as many are allocated after it as before.
\<close>

theorem detach_balanced:
  "open_mps (snd (xdp_program__detach_multi k progs ifindex mode flags s)) = open_mps s"
proof -
  obtain err s' where r: "detach_retry k progs ifindex mode 0 s = (err, s')"
    by (cases "detach_retry k progs ifindex mode 0 s")
  from detach_retry_mps [OF r] r show ?thesis by (simp add: xdp_program__detach_multi_def)
qed

text \<open>
  Attaching several programs, or one in hardware mode, leaks no multiprog object. Attaching
  one program with the dispatcher switched off leaks the object that describes what was
  attached before.
\<close>

lemma attach_leaks:
  "(length progs \<noteq> 1 \<or> mode = XDP_MODE_HW \<longrightarrow>
      open_mps (snd (xdp_program__attach_multi k skip progs ifindex mode flags s)) = open_mps s) \<and>
   (mode \<noteq> XDP_MODE_HW \<and> fst (xdp_multiprog__get_from_ifindex k ifindex s) = Ptr mp \<longrightarrow>
      open_mps (snd (xdp_program__attach_multi k True [p] ifindex mode 0 s)) = open_mps s + 1)"
proof (intro conjI impI)
  assume a: "length progs \<noteq> 1 \<or> mode = XDP_MODE_HW"
  obtain err s' where r: "attach_retry k skip progs ifindex mode 0 s = (err, s')"
    by (cases "attach_retry k skip progs ifindex mode 0 s")
  from attach_retry_mps [OF a r] r
  show "open_mps (snd (xdp_program__attach_multi k skip progs ifindex mode flags s)) = open_mps s"
    by (simp add: xdp_program__attach_multi_def)
next
  assume a: "mode \<noteq> XDP_MODE_HW \<and> fst (xdp_multiprog__get_from_ifindex k ifindex s) = Ptr mp"
  then obtain s1 where g: "xdp_multiprog__get_from_ifindex k ifindex s = (Ptr mp, s1)"
    by (cases "xdp_multiprog__get_from_ifindex k ifindex s") auto
  obtain err s' where r: "xdp_program__attach_single k p ifindex mode s1 = (err, s')"
    by (cases "xdp_program__attach_single k p ifindex mode s1")
  have "attach_retry k True [p] ifindex mode 0 s = (err, s')"
    using a g r by (subst attach_retry.simps) (simp add: Let_def)
  then show "open_mps (snd (xdp_program__attach_multi k True [p] ifindex mode 0 s)) = open_mps s + 1"
    using get_from_ifindex_mps [OF g] attach_single_mps [OF r] by (simp add: xdp_program__attach_multi_def)
qed

definition demo_kops :: "unit kops" where
  "demo_kops = \<lparr>k_attach = \<lambda>w i p old f. (0, w),
     k_query = \<lambda>w i. (Inr \<lparr>q_drv_prog_id = 9, q_skb_prog_id = 0, q_hw_prog_id = 0, q_attach_mode = 1\<rparr>, w),
     k_fd_by_id = \<lambda>w i. (3, w), k_from_fd = \<lambda>w fd hw i. (Inr (demo_mp [demo_prog 1 50]), w),
     k_close = \<lambda>w fd. w, k_frags_support = \<lambda>w. (True, w), k_load = \<lambda>w p. ((0, p), w),
     k_set_ifindex = \<lambda>w p i. w, k_generate = \<lambda>w ps i old rm. (Inl (- EINVAL), w),
     k_pin = \<lambda>w mp. (0, w), k_unpin = \<lambda>w mp. (0, w), k_links = \<lambda>w. []\<rparr>"

definition demo_lx :: "unit lx" where
  "demo_lx = \<lparr>kern = (), errno = 0, open_mps = 0\<rparr>"

lemma get_retry_stale:
  assumes p: "p \<noteq> 0" and q0: "q_attach_mode q0 = 0"
    and op: "\<And>w. gone w \<Longrightarrow> \<exists>w'. gone w' \<and> k_fd_by_id k w p = (- ENOENT, w')"
    and qu: "\<And>w. gone w \<Longrightarrow> \<exists>w'. gone w' \<and> k_query k w i = (Inr q0, w')"
  shows "gone (kern s) \<Longrightarrow> \<exists>s'. get_retry k i (p, 0, m) c s = (ErrPtr (- EBUSY), s')"
proof (induction "MAX_RETRY - c" arbitrary: m c s rule: less_induct)
  case less
  obtain w1 where w1: "gone w1" "k_query k (kern s) i = (Inr q0, w1)" using qu less.prems by blast
  obtain w2 where w2: "gone w2" "k_fd_by_id k w1 p = (- ENOENT, w2)" using op w1(1) by blast
  have f: "xdp_multiprog__from_id k p 0 i w1 = (Inl (- ENOENT), w2)"
    using p w2(2) by (simp add: xdp_multiprog__from_id_def)
  have IH: "c < MAX_RETRY \<Longrightarrow>
      \<exists>s'. get_retry k i (p, 0, XDP_MODE_UNSPEC) (Suc c) (s\<lparr>kern := w2\<rparr>) = (ErrPtr (- EBUSY), s')"
    by (rule less.hyps) (use w2 in auto)
  show ?case using IH p q0 by (subst get_retry.simps) (simp add: w1(2) f)
qed

text \<open>
  The identifier of the attached program survives a retry: if the program is taken off the
  interface between the query and the attempt to open it, the later queries (nothing attached)
  leave the stale identifier in place, and after all retries the result is \<open>EBUSY\<close> rather than
  the \<open>ENOENT\<close> that stands for an interface without a program.
\<close>

lemma get_from_ifindex_stale:
  assumes "k_query k (kern s) i = (Inr q, w1)" "q_attach_mode q = 1" "q_drv_prog_id q \<noteq> 0" "gone w1"
    "\<And>w. gone w \<Longrightarrow> \<exists>w'. gone w' \<and> k_fd_by_id k w (q_drv_prog_id q) = (- ENOENT, w')"
    "\<And>w. gone w \<Longrightarrow> \<exists>w'. gone w' \<and> k_query k w i = (Inr q0, w')" "q_attach_mode q0 = 0"
  shows "\<exists>s'. xdp_multiprog__get_from_ifindex k i s = (ErrPtr (- EBUSY), s')"
proof -
  let ?p = "q_drv_prog_id q"
  obtain w2 where w2: "gone w2" "k_fd_by_id k w1 ?p = (- ENOENT, w2)" using assms(4,5) by blast
  have f: "xdp_multiprog__from_id k ?p 0 i w1 = (Inl (- ENOENT), w2)"
    using assms(3) w2(2) by (simp add: xdp_multiprog__from_id_def)
  have "\<exists>s'. get_retry k i (?p, 0, XDP_MODE_NATIVE) 1 (s\<lparr>kern := w2\<rparr>) = (ErrPtr (- EBUSY), s')"
    by (rule get_retry_stale [of _ _ gone, OF assms(3,7,5,6)]) (simp_all add: w2)
  then show ?thesis using assms(1-3) unfolding xdp_multiprog__get_from_ifindex_def
    by (subst get_retry.simps) (simp add: f MAX_RETRY_def)
qed

text \<open>A kernel whose only program is gone after the first query.\<close>

definition vanishing_kops :: "bool kops" where
  "vanishing_kops = \<lparr>k_attach = \<lambda>w i p old f. (0, w),
     k_query = \<lambda>w i. (Inr \<lparr>q_drv_prog_id = if w then 0 else 9, q_skb_prog_id = 0, q_hw_prog_id = 0,
       q_attach_mode = if w then 0 else 1\<rparr>, True),
     k_fd_by_id = \<lambda>w i. (- ENOENT, w), k_from_fd = \<lambda>w fd hw i. (Inl (- EINVAL), w),
     k_close = \<lambda>w fd. w, k_frags_support = \<lambda>w. (True, w), k_load = \<lambda>w p. ((0, p), w),
     k_set_ifindex = \<lambda>w p i. w, k_generate = \<lambda>w ps i old rm. (Inl (- EINVAL), w),
     k_pin = \<lambda>w mp. (0, w), k_unpin = \<lambda>w mp. (0, w), k_links = \<lambda>w. []\<rparr>"

end
