(* ===== verification/Common_Params.thy ===== *)
theory Common_Params
  imports Libxdp_Attach
begin

section \<open>Command-line options\<close>

text \<open>
  \<open>common/common_params.c\<close> with \<open>common_params.h\<close>, \<open>common_defines.h\<close> and the option
  table of \<open>xdp/xdp_pass_user.c\<close>: the help text, the conversion of the option table, and the
  parser that fills \<open>struct config\<close>.
  C strings are lists of characters without the terminator, fixed arrays of \<open>char\<close> are
  lists of their full size. \<open>None\<close> is undefined behaviour (a read past the end of an array,
  a null pointer, a write past a buffer). \<open>getopt_long\<close> is modelled as its manual describes
  it; it reorders non-options, which the callers never look at, so the model skips them
  (\<open>POSIXLY_CORRECT\<close> unset). \<open>if_nametoindex\<close> is a parameter, and so is whether
  \<open>malloc\<close> succeeds.
\<close>

unbundle bit_operations_syntax

record c_option =
  name :: "string option"
  has_arg :: nat
  flag :: bool
  val :: int

record option_wrapper =
  opt :: c_option
  help_text :: "string option"
  metavar :: "string option"
  required :: bool

subsection \<open>The help text\<close>

definition BUFSIZE :: nat where
  "BUFSIZE = 30"

text \<open>
  \<open>snprintf(buf, n, ...)\<close> of a text into an array: the characters that end up in the string,
  and the length the text would have had.
\<close>

definition snprintf :: "nat \<Rightarrow> string \<Rightarrow> string \<times> nat" where
  "snprintf n s = (take (n - 1) s, length s)"

definition pad_right :: "nat \<Rightarrow> string \<Rightarrow> string" where
  "pad_right n s = s @ replicate (n - length s) (CHR 0x20)"

text \<open>The missing value of a null string argument is what the C library prints.\<close>

definition str_arg :: "string option \<Rightarrow> string" where
  "str_arg s = (case s of Some t \<Rightarrow> t | None \<Rightarrow> ''(null)'')"

text \<open>
  The second \<open>snprintf\<close> writes at \<open>buf + pos\<close> with room \<open>BUFSIZE - pos\<close>, converted to
  \<open>size_t\<close>: for \<open>pos\<close> beyond the buffer that is a wild write.
\<close>

definition print_option :: "option_wrapper \<Rightarrow> string \<Rightarrow> string option" where
  "print_option w nm =
     (let short = (if val (opt w) > 64 then '' -'' @ [char_of (nat (val (opt w)) mod 256)] @ '',''
                   else ''    '');
          (buf, pos) = snprintf BUFSIZE ('' --'' @ nm)
      in do {
        text \<leftarrow> (case metavar w of
            None \<Rightarrow> Some buf
          | Some mv \<Rightarrow>
              if pos > BUFSIZE then None
              else if pos = BUFSIZE then Some buf
              else Some (buf @ fst (snprintf (BUFSIZE - pos) ('' '' @ mv))));
        Some (short @ pad_right 22 text @ ''  '' @ str_arg (help_text w) @ [CHR 0x0A])
      })"

fun print_opts :: "option_wrapper list \<Rightarrow> bool \<Rightarrow> string option" where
  "print_opts [] req = None"
| "print_opts (w # ws) req =
     (case name (opt w) of
        None \<Rightarrow> Some []
      | Some nm \<Rightarrow>
          if required w \<noteq> req then print_opts ws req
          else do {
            line \<leftarrow> print_option w nm;
            rest \<leftarrow> print_opts ws req;
            Some (line @ rest)
          })"

definition usage :: "string \<Rightarrow> string \<Rightarrow> option_wrapper list \<Rightarrow> bool \<Rightarrow> string option" where
  "usage prog doc long_options full =
     (let l1 = ''Usage: '' @ prog @ '' [options]'' @ [CHR 0x0A] in
      if \<not> full then Some (l1 @ ''Use --help (or -h) to see full option list.'' @ [CHR 0x0A])
      else do {
        req \<leftarrow> print_opts long_options True;
        oth \<leftarrow> print_opts long_options False;
        Some (l1 @ [CHR 0x0A] @ ''DOCUMENTATION:'' @ [CHR 0x0A] @ '' '' @ doc @ [CHR 0x0A] @
          ''Required options:'' @ [CHR 0x0A] @ req @ [CHR 0x0A] @
          ''Other options:'' @ [CHR 0x0A] @ oth @ [CHR 0x0A])
      })"

text \<open>Names of at most 27 characters leave room in the buffer; longer ones with a metavariable do not.\<close>

definition fits :: "option_wrapper \<Rightarrow> bool" where
  "fits w \<longleftrightarrow> metavar w = None \<or> (case name (opt w) of None \<Rightarrow> True | Some nm \<Rightarrow> length nm \<le> 27)"

lemma print_option_safe: "name (opt w) = Some nm \<Longrightarrow> print_option w nm \<noteq> None \<longleftrightarrow> fits w"
  by (auto simp: print_option_def fits_def snprintf_def BUFSIZE_def Let_def split: option.splits)

lemma print_opts_safe:
  "list_ex (\<lambda>w. name (opt w) = None) ws \<Longrightarrow> list_all fits ws \<Longrightarrow> print_opts ws req \<noteq> None"
proof (induction ws)
  case (Cons w ws)
  show ?case
  proof (cases "name (opt w)")
    case (Some nm)
    then have "print_option w nm \<noteq> None" "print_opts ws req \<noteq> None"
      using Cons print_option_safe [OF Some] by auto
    then show ?thesis using Some by auto
  qed simp
qed simp

lemma usage_safe:
  "list_ex (\<lambda>w. name (opt w) = None) ws \<Longrightarrow> list_all fits ws \<Longrightarrow> usage prog doc ws full \<noteq> None"
  using print_opts_safe [of ws True] print_opts_safe [of ws False] by (auto simp: usage_def Let_def)

subsection \<open>The table for getopt\<close>

fun wrapper_count :: "option_wrapper list \<Rightarrow> nat option" where
  "wrapper_count [] = None"
| "wrapper_count (w # ws) =
     (if name (opt w) = None then Some 0 else map_option Suc (wrapper_count ws))"

definition option_wrappers_to_options ::
  "bool \<Rightarrow> option_wrapper list \<Rightarrow> (int \<times> c_option list) option" where
  "option_wrappers_to_options malloc_ok wrapper = do {
     num \<leftarrow> wrapper_count wrapper;
     if \<not> malloc_ok then Some (- 1, [])
     else Some (0, map opt (take num wrapper))
   }"

subsection \<open>getopt\<close>

record getopt_st =
  nextchar :: string
  args :: "string list"

fun short_lookup :: "string \<Rightarrow> char \<Rightarrow> bool option" where
  "short_lookup [] c = None"
| "short_lookup (x # xs) c =
     (if x = c \<and> c \<noteq> CHR '':'' then Some (xs \<noteq> [] \<and> hd xs = CHR '':'') else short_lookup xs c)"

definition getopt_short :: "string \<Rightarrow> char \<Rightarrow> getopt_st \<Rightarrow> int \<times> string option \<times> getopt_st" where
  "getopt_short shortopts c gs =
     (case short_lookup shortopts c of
        None \<Rightarrow> (63, None, gs)
      | Some False \<Rightarrow> (int (of_char c), None, gs)
      | Some True \<Rightarrow>
          if nextchar gs \<noteq> [] then (int (of_char c), Some (nextchar gs), gs\<lparr>nextchar := []\<rparr>)
          else (case args gs of
              [] \<Rightarrow> (63, None, gs)
            | a # as \<Rightarrow> (int (of_char c), Some a, gs\<lparr>args := as\<rparr>)))"

text \<open>
  A long option is searched in the table up to the entry without a name: first for an exact
  match, then for names it abbreviates. Several abbreviated names are ambiguous unless they
  mean the same. A table without the closing entry is read past its end.
\<close>

fun long_exact :: "c_option list \<Rightarrow> string \<Rightarrow> c_option option option" where
  "long_exact [] n = None"
| "long_exact (p # ps) n =
     (case name p of
        None \<Rightarrow> Some None
      | Some m \<Rightarrow> if m = n then Some (Some p) else long_exact ps n)"

fun long_prefixed :: "c_option list \<Rightarrow> string \<Rightarrow> c_option list" where
  "long_prefixed [] n = []"
| "long_prefixed (p # ps) n =
     (case name p of
        None \<Rightarrow> []
      | Some m \<Rightarrow> if take (length n) m = n then p # long_prefixed ps n else long_prefixed ps n)"

definition same_meaning :: "c_option \<Rightarrow> c_option \<Rightarrow> bool" where
  "same_meaning p q \<longleftrightarrow> has_arg p = has_arg q \<and> flag p = flag q \<and> val p = val q"

definition long_lookup :: "c_option list \<Rightarrow> string \<Rightarrow> c_option option option" where
  "long_lookup ps n = do {
     r \<leftarrow> long_exact ps n;
     Some (case r of
        Some p \<Rightarrow> Some p
      | None \<Rightarrow>
          (case long_prefixed ps n of
             [] \<Rightarrow> None
           | q # qs \<Rightarrow> if list_all (same_meaning q) qs then Some q else None))
   }"

definition long_ret :: "c_option \<Rightarrow> int" where
  "long_ret p = (if flag p then 0 else val p)"

definition getopt_long_opt ::
  "c_option list \<Rightarrow> string \<Rightarrow> getopt_st \<Rightarrow> (int \<times> string option \<times> getopt_st) option" where
  "getopt_long_opt longopts body gs = do {
     let nm = takeWhile (\<lambda>c. c \<noteq> CHR ''='') body;
     let eq = dropWhile (\<lambda>c. c \<noteq> CHR ''='') body;
     found \<leftarrow> long_lookup longopts nm;
     Some (case found of
        None \<Rightarrow> (63, None, gs)
      | Some p \<Rightarrow>
          if eq \<noteq> [] then
            (if has_arg p = 0 then (63, None, gs) else (long_ret p, Some (tl eq), gs))
          else if has_arg p = 1 then
            (case args gs of
               [] \<Rightarrow> (63, None, gs)
             | a # as \<Rightarrow> (long_ret p, Some a, gs\<lparr>args := as\<rparr>))
          else (long_ret p, None, gs))
   }"

definition is_option_elem :: "string \<Rightarrow> bool" where
  "is_option_elem a \<longleftrightarrow> length a \<ge> 2 \<and> hd a = CHR ''-''"

definition getopt_long ::
  "string \<Rightarrow> c_option list \<Rightarrow> getopt_st \<Rightarrow> (int \<times> string option \<times> getopt_st) option" where
  "getopt_long shortopts longopts gs =
     (case nextchar gs of
        c # cs \<Rightarrow> Some (getopt_short shortopts c (gs\<lparr>nextchar := cs\<rparr>))
      | [] \<Rightarrow>
          (case dropWhile (\<lambda>a. \<not> is_option_elem a) (args gs) of
             [] \<Rightarrow> Some (- 1, None, gs\<lparr>args := []\<rparr>)
           | a # as \<Rightarrow>
               if a = ''--'' then Some (- 1, None, gs\<lparr>args := as\<rparr>)
               else if a ! 1 = CHR ''-'' then getopt_long_opt longopts (drop 2 a) (gs\<lparr>args := as\<rparr>)
               else Some (getopt_short shortopts (a ! 1) \<lparr>nextchar = drop 2 a, args = as\<rparr>)))"

subsection \<open>The configuration\<close>

definition IF_NAMESIZE :: nat where
  "IF_NAMESIZE = 16"

text \<open>
  The pointers \<open>ifname\<close> and \<open>redirect_ifname\<close> are null or point to their buffers: a truth
  value says which. \<open>prog_id\<close> and the interface numbers are 32-bit words.
\<close>

record config =
  attach_mode :: xdp_attach_mode
  xdp_flags :: u32
  ifindex :: u32
  ifname :: bool
  ifname_buf :: string
  redirect_ifindex :: u32
  redirect_ifname :: bool
  redirect_ifname_buf :: string
  do_unload :: bool
  prog_id :: u32
  reuse_maps :: bool
  pin_dir :: string
  filename :: string
  progname :: string
  src_mac :: string
  dest_mac :: string
  xsk_bind_flags :: u16
  xsk_if_queue :: u32
  xsk_poll_mode :: bool
  unload_all :: bool

definition XDP_COPY :: u16 where
  "XDP_COPY = 2"

definition XDP_ZEROCOPY :: u16 where
  "XDP_ZEROCOPY = 4"

definition EXIT_FAIL_OPTION :: int where
  "EXIT_FAIL_OPTION = 2"

abbreviation (input) NUL :: char where
  "NUL \<equiv> CHR 0x00"

definition strncpy :: "string \<Rightarrow> string \<Rightarrow> nat \<Rightarrow> string" where
  "strncpy dest src n = take n (src @ replicate n NUL) @ drop n dest"

text \<open>The string in a character array; \<open>None\<close> if the array has no terminator.\<close>

definition buf_str :: "string \<Rightarrow> string option" where
  "buf_str b = (if NUL \<in> set b then Some (takeWhile (\<lambda>c. c \<noteq> NUL) b) else None)"

text \<open>\<open>atoi\<close>: \<open>strtol\<close> in base 10, saturating at 64 bits, cut to an \<open>int\<close>.\<close>

fun digits_val :: "int \<Rightarrow> string \<Rightarrow> int" where
  "digits_val acc [] = acc"
| "digits_val acc (c # cs) =
     (let d = int (of_char c) - 48 in
      if 0 \<le> d \<and> d \<le> 9 then digits_val (acc * 10 + d) cs else acc)"

definition is_space :: "char \<Rightarrow> bool" where
  "is_space c \<longleftrightarrow> (of_char c :: nat) = 32 \<or> 9 \<le> (of_char c :: nat) \<and> (of_char c :: nat) \<le> 13"

definition strtol10 :: "string \<Rightarrow> int" where
  "strtol10 s =
     (let t = dropWhile is_space s;
          v = (case t of
                 [] \<Rightarrow> 0
               | c # cs \<Rightarrow> if c = CHR ''-'' then - digits_val 0 cs
                   else if c = CHR ''+'' then digits_val 0 cs else digits_val 0 t)
      in max (- (2 ^ 63)) (min (2 ^ 63 - 1) v))"

definition atoi :: "string \<Rightarrow> u32" where
  "atoi s = word_of_int (strtol10 s)"

subsection \<open>The parser\<close>

text \<open>
  One turn of the loop: the \<open>switch\<close> on what \<open>getopt_long\<close> returned. The state is the
  configuration and the global \<open>verbose\<close>. \<open>Reject full\<close> is the jump to the usage message.
\<close>

datatype switch_result = Next config bool | Reject bool

definition set_dev :: "(string \<Rightarrow> u32) \<Rightarrow> config \<Rightarrow> bool \<Rightarrow> string \<Rightarrow> switch_result option" where
  "set_dev if_nametoindex cfg verbose arg =
     (if length arg \<ge> IF_NAMESIZE then Some (Reject False)
      else do {
        let buf = strncpy (ifname_buf cfg) arg IF_NAMESIZE;
        nm \<leftarrow> buf_str buf;
        let ix = if_nametoindex nm;
        if ix = 0 then Some (Reject False)
        else Some (Next (cfg\<lparr>ifname := True, ifname_buf := buf, ifindex := ix\<rparr>) verbose)
      })"

definition set_redirect :: "(string \<Rightarrow> u32) \<Rightarrow> config \<Rightarrow> bool \<Rightarrow> string \<Rightarrow> switch_result option" where
  "set_redirect if_nametoindex cfg verbose arg =
     (if length arg \<ge> IF_NAMESIZE then Some (Reject False)
      else do {
        let buf = strncpy (redirect_ifname_buf cfg) arg IF_NAMESIZE;
        nm \<leftarrow> buf_str buf;
        let ix = if_nametoindex nm;
        if ix = 0 then Some (Reject False)
        else Some (Next (cfg\<lparr>redirect_ifname := True, redirect_ifname_buf := buf,
                          redirect_ifindex := ix\<rparr>) verbose)
      })"

definition use_copy :: "config \<Rightarrow> config" where
  "use_copy cfg = cfg\<lparr>xsk_bind_flags := (xsk_bind_flags cfg AND NOT XDP_ZEROCOPY) OR XDP_COPY\<rparr>"

definition use_zerocopy :: "config \<Rightarrow> config" where
  "use_zerocopy cfg = cfg\<lparr>xsk_bind_flags := (xsk_bind_flags cfg AND NOT XDP_COPY) OR XDP_ZEROCOPY\<rparr>"

abbreviation (input) ord_of :: "char \<Rightarrow> int" where
  "ord_of c \<equiv> int (of_char c)"

definition switch_opt ::
  "(string \<Rightarrow> u32) \<Rightarrow> int \<Rightarrow> string option \<Rightarrow> config \<Rightarrow> bool \<Rightarrow> switch_result option" where
  "switch_opt if_nametoindex c optarg cfg verbose =
     (if c = ord_of CHR ''d'' then do { a \<leftarrow> optarg; set_dev if_nametoindex cfg verbose a }
      else if c = ord_of CHR ''r'' then do { a \<leftarrow> optarg; set_redirect if_nametoindex cfg verbose a }
      else if c = ord_of CHR ''A'' then Some (Next (cfg\<lparr>attach_mode := XDP_MODE_UNSPEC\<rparr>) verbose)
      else if c = ord_of CHR ''S'' then Some (Next (use_copy (cfg\<lparr>attach_mode := XDP_MODE_SKB\<rparr>)) verbose)
      else if c = ord_of CHR ''N'' then Some (Next (cfg\<lparr>attach_mode := XDP_MODE_NATIVE\<rparr>) verbose)
      else if c = 3 then Some (Next (cfg\<lparr>attach_mode := XDP_MODE_HW\<rparr>) verbose)
      else if c = ord_of CHR ''M'' then Some (Next (cfg\<lparr>reuse_maps := True\<rparr>) verbose)
      else if c = ord_of CHR ''U'' then
        do { a \<leftarrow> optarg; Some (Next (cfg\<lparr>do_unload := True, prog_id := atoi a\<rparr>) verbose) }
      else if c = ord_of CHR ''p'' then Some (Next (cfg\<lparr>xsk_poll_mode := True\<rparr>) verbose)
      else if c = ord_of CHR ''q'' then Some (Next cfg False)
      else if c = ord_of CHR ''Q'' then
        do { a \<leftarrow> optarg; Some (Next (cfg\<lparr>xsk_if_queue := atoi a\<rparr>) verbose) }
      else if c = 1 then
        do { a \<leftarrow> optarg; Some (Next (cfg\<lparr>filename := strncpy (filename cfg) a 512\<rparr>) verbose) }
      else if c = 2 then
        do { a \<leftarrow> optarg; Some (Next (cfg\<lparr>progname := strncpy (progname cfg) a 32\<rparr>) verbose) }
      else if c = ord_of CHR ''L'' then
        do { a \<leftarrow> optarg; Some (Next (cfg\<lparr>src_mac := strncpy (src_mac cfg) a 18\<rparr>) verbose) }
      else if c = ord_of CHR ''R'' then
        do { a \<leftarrow> optarg; Some (Next (cfg\<lparr>dest_mac := strncpy (dest_mac cfg) a 18\<rparr>) verbose) }
      else if c = ord_of CHR ''c'' then Some (Next (use_copy cfg) verbose)
      else if c = ord_of CHR ''z'' then Some (Next (use_zerocopy cfg) verbose)
      else if c = 4 then Some (Next (cfg\<lparr>unload_all := True\<rparr>) verbose)
      else if c = ord_of CHR ''h'' then Some (Reject True)
      else Some (Reject False))"

definition short_options :: string where
  "short_options = ''hd:r:L:R:ASNFU:MQ:czpq''"

text \<open>The outcome of the parser: it returns, or it prints and ends the process.\<close>

datatype outcome = Returns config bool | Exits int string

definition getopt_size :: "getopt_st \<Rightarrow> nat" where
  "getopt_size gs = length (nextchar gs) + sum_list (map (Suc \<circ> length) (args gs))"

lemma size_dropWhile:
  "sum_list (map (Suc \<circ> length) (dropWhile P as)) \<le> sum_list (map (Suc \<circ> length) as)"
  by (induction as) auto

lemma getopt_short_size:
  "getopt_short so c gs = (r, a, gs') \<Longrightarrow> getopt_size gs' \<le> getopt_size gs"
  by (auto simp: getopt_short_def getopt_size_def split: option.splits bool.splits if_splits list.splits)

lemma getopt_long_opt_size:
  "getopt_long_opt lo b gs = Some (r, a, gs') \<Longrightarrow> getopt_size gs' \<le> getopt_size gs"
  by (cases "args gs")
    (auto simp: getopt_long_opt_def getopt_size_def Let_def bind_eq_Some_conv
      split: option.split_asm if_split_asm)

lemma getopt_long_progress:
  assumes "getopt_long so lo gs = Some (r, a, gs')" "r \<noteq> - 1"
  shows "getopt_size gs' < getopt_size gs"
proof (cases "nextchar gs")
  case (Cons c cs)
  then have "getopt_size gs' \<le> getopt_size (gs\<lparr>nextchar := cs\<rparr>)"
    using assms(1) by (auto simp: getopt_long_def intro: getopt_short_size)
  then show ?thesis using Cons by (simp add: getopt_size_def)
next
  case Nil
  then obtain x as where x: "dropWhile (\<lambda>a. \<not> is_option_elem a) (args gs) = x # as"
    using assms by (auto simp: getopt_long_def split: list.splits)
  have "length x \<ge> 2"
    using x by (metis dropWhile_eq_Cons_conv is_option_elem_def)
  have "sum_list (map (Suc \<circ> length) (x # as)) \<le> getopt_size gs"
    using size_dropWhile [of "\<lambda>a. \<not> is_option_elem a" "args gs"] x Nil by (simp add: getopt_size_def)
  moreover have "getopt_size gs' \<le> getopt_size (gs\<lparr>args := as\<rparr>) \<or>
      getopt_size gs' \<le> getopt_size \<lparr>nextchar = drop 2 x, args = as\<rparr>"
    using assms Nil x
    by (auto simp: getopt_long_def split: if_splits dest: getopt_short_size getopt_long_opt_size)
  ultimately show ?thesis using Nil \<open>length x \<ge> 2\<close> by (auto simp: getopt_size_def)
qed

function parse_loop ::
  "(string \<Rightarrow> u32) \<Rightarrow> string \<Rightarrow> string \<Rightarrow> option_wrapper list \<Rightarrow> c_option list \<Rightarrow>
   getopt_st \<Rightarrow> config \<Rightarrow> bool \<Rightarrow> outcome option" where
  "parse_loop nti prog doc wrapper long_options gs cfg verbose =
     (case getopt_long short_options long_options gs of
        None \<Rightarrow> None
      | Some (c, optarg, gs') \<Rightarrow>
          if c = - 1 then Some (Returns cfg verbose)
          else (case switch_opt nti c optarg cfg verbose of
              None \<Rightarrow> None
            | Some (Next cfg' verbose') \<Rightarrow>
                parse_loop nti prog doc wrapper long_options gs' cfg' verbose'
            | Some (Reject full) \<Rightarrow>
                map_option (Exits EXIT_FAIL_OPTION) (usage prog doc wrapper full)))"
  by pat_completeness auto
termination
  by (relation "measure (\<lambda>(nti, prog, doc, w, lo, gs, cfg, v). getopt_size gs)")
    (auto dest: getopt_long_progress)

declare parse_loop.simps [simp del]

definition parse_cmdline_args ::
  "(string \<Rightarrow> u32) \<Rightarrow> bool \<Rightarrow> string \<Rightarrow> string list \<Rightarrow> option_wrapper list \<Rightarrow>
   config \<Rightarrow> bool \<Rightarrow> string \<Rightarrow> outcome option" where
  "parse_cmdline_args nti malloc_ok prog argv options_wrapper cfg verbose doc = do {
     (rc, long_options) \<leftarrow> option_wrappers_to_options malloc_ok options_wrapper;
     if rc \<noteq> 0 then Some (Exits EXIT_FAIL_OPTION [])
     else parse_loop nti prog doc options_wrapper long_options \<lparr>nextchar = [], args = argv\<rparr> cfg verbose
   }"

subsection \<open>The option table of the loader\<close>

definition mk_opt :: "string option \<Rightarrow> nat \<Rightarrow> int \<Rightarrow> string option \<Rightarrow> string option \<Rightarrow> bool \<Rightarrow> option_wrapper" where
  "mk_opt n a v h mv r =
     \<lparr>opt = \<lparr>name = n, has_arg = a, flag = False, val = v\<rparr>, help_text = h, metavar = mv, required = r\<rparr>"

definition pass_long_options :: "option_wrapper list" where
  "pass_long_options =
    [mk_opt (Some ''help'') 0 (ord_of CHR ''h'') (Some ''Show help'') None False,
     mk_opt (Some ''dev'') 1 (ord_of CHR ''d'') (Some ''Operate on device <ifname>'') (Some ''<ifname>'') True,
     mk_opt (Some ''skb-mode'') 0 (ord_of CHR ''S'')
       (Some ''Install XDP program in SKB (AKA generic) mode'') None False,
     mk_opt (Some ''native-mode'') 0 (ord_of CHR ''N'')
       (Some ''Install XDP program in native mode'') None False,
     mk_opt (Some ''auto-mode'') 0 (ord_of CHR ''A'')
       (Some ''Auto-detect SKB or native mode'') None False,
     mk_opt (Some ''unload'') 1 (ord_of CHR ''U'')
       (Some ''Unload XDP program <id> instead of loading'') (Some ''<id>'') False,
     mk_opt (Some ''unload-all'') 0 4 (Some ''Unload all XDP programs on device'') None False,
     mk_opt None 0 0 None None False]"

subsection \<open>The configuration stays consistent\<close>

text \<open>
  The character arrays keep their sizes, an interface that is set has a terminated name and the
  number the system gives that name, and copy and zero-copy mode are never both requested.
\<close>

definition named_if :: "(string \<Rightarrow> u32) \<Rightarrow> string \<Rightarrow> u32 \<Rightarrow> bool" where
  "named_if nti buf ix \<longleftrightarrow> buf_str buf \<noteq> None \<and> nti (the (buf_str buf)) = ix \<and> ix \<noteq> 0"

definition cfg_ok :: "(string \<Rightarrow> u32) \<Rightarrow> config \<Rightarrow> bool" where
  "cfg_ok nti cfg \<longleftrightarrow>
     length (ifname_buf cfg) = IF_NAMESIZE \<and> length (redirect_ifname_buf cfg) = IF_NAMESIZE \<and>
     length (filename cfg) = 512 \<and> length (progname cfg) = 32 \<and>
     length (src_mac cfg) = 18 \<and> length (dest_mac cfg) = 18 \<and>
     (ifname cfg \<longrightarrow> named_if nti (ifname_buf cfg) (ifindex cfg)) \<and>
     (redirect_ifname cfg \<longrightarrow> named_if nti (redirect_ifname_buf cfg) (redirect_ifindex cfg)) \<and>
     (xsk_bind_flags cfg AND XDP_COPY = 0 \<or> xsk_bind_flags cfg AND XDP_ZEROCOPY = 0)"

lemma length_strncpy: "length dest = n \<Longrightarrow> length (strncpy dest src n) = n"
  by (simp add: strncpy_def)

lemma use_copy_flags: "xsk_bind_flags (use_copy cfg) AND XDP_ZEROCOPY = 0"
  by (rule bit_eqI) (auto simp: use_copy_def XDP_COPY_def XDP_ZEROCOPY_def bit_simps)

lemma use_zerocopy_flags: "xsk_bind_flags (use_zerocopy cfg) AND XDP_COPY = 0"
  by (rule bit_eqI) (auto simp: use_zerocopy_def XDP_COPY_def XDP_ZEROCOPY_def bit_simps)

lemma use_copy_keeps [simp]:
  "ifname_buf (use_copy cfg) = ifname_buf cfg" "redirect_ifname_buf (use_copy cfg) = redirect_ifname_buf cfg"
  "filename (use_copy cfg) = filename cfg" "progname (use_copy cfg) = progname cfg"
  "src_mac (use_copy cfg) = src_mac cfg" "dest_mac (use_copy cfg) = dest_mac cfg"
  "ifname (use_copy cfg) = ifname cfg" "redirect_ifname (use_copy cfg) = redirect_ifname cfg"
  "ifindex (use_copy cfg) = ifindex cfg" "redirect_ifindex (use_copy cfg) = redirect_ifindex cfg"
  by (simp_all add: use_copy_def)

lemma use_zerocopy_keeps [simp]:
  "ifname_buf (use_zerocopy cfg) = ifname_buf cfg"
  "redirect_ifname_buf (use_zerocopy cfg) = redirect_ifname_buf cfg"
  "filename (use_zerocopy cfg) = filename cfg" "progname (use_zerocopy cfg) = progname cfg"
  "src_mac (use_zerocopy cfg) = src_mac cfg" "dest_mac (use_zerocopy cfg) = dest_mac cfg"
  "ifname (use_zerocopy cfg) = ifname cfg" "redirect_ifname (use_zerocopy cfg) = redirect_ifname cfg"
  "ifindex (use_zerocopy cfg) = ifindex cfg" "redirect_ifindex (use_zerocopy cfg) = redirect_ifindex cfg"
  by (simp_all add: use_zerocopy_def)

lemma copy_modes_ok:
  "cfg_ok nti cfg \<Longrightarrow> cfg_ok nti (use_copy (cfg\<lparr>attach_mode := m\<rparr>))"
  "cfg_ok nti cfg \<Longrightarrow> cfg_ok nti (use_copy cfg)"
  "cfg_ok nti cfg \<Longrightarrow> cfg_ok nti (use_zerocopy cfg)"
  by (simp_all add: cfg_ok_def use_copy_flags use_zerocopy_flags)

lemma plain_updates_ok:
  assumes "cfg_ok nti cfg"
  shows "cfg_ok nti (cfg\<lparr>attach_mode := m\<rparr>)" "cfg_ok nti (cfg\<lparr>reuse_maps := b\<rparr>)"
    "cfg_ok nti (cfg\<lparr>do_unload := b, prog_id := i\<rparr>)" "cfg_ok nti (cfg\<lparr>xsk_poll_mode := b\<rparr>)"
    "cfg_ok nti (cfg\<lparr>xsk_if_queue := i\<rparr>)" "cfg_ok nti (cfg\<lparr>unload_all := b\<rparr>)"
    "cfg_ok nti (cfg\<lparr>filename := strncpy (filename cfg) a 512\<rparr>)"
    "cfg_ok nti (cfg\<lparr>progname := strncpy (progname cfg) a 32\<rparr>)"
    "cfg_ok nti (cfg\<lparr>src_mac := strncpy (src_mac cfg) a 18\<rparr>)"
    "cfg_ok nti (cfg\<lparr>dest_mac := strncpy (dest_mac cfg) a 18\<rparr>)"
  using assms by (simp_all add: cfg_ok_def length_strncpy)

text \<open>A branch of the \<open>switch\<close> that, if it goes on, goes on with a consistent configuration.\<close>

definition keeps_ok :: "(string \<Rightarrow> u32) \<Rightarrow> switch_result option \<Rightarrow> bool" where
  "keeps_ok nti r \<longleftrightarrow> (case r of Some (Next cfg v) \<Rightarrow> cfg_ok nti cfg | _ \<Rightarrow> True)"

lemma keeps_if: "keeps_ok nti x \<Longrightarrow> keeps_ok nti y \<Longrightarrow> keeps_ok nti (if b then x else y)"
  by simp

lemma keeps_next: "cfg_ok nti cfg \<Longrightarrow> keeps_ok nti (Some (Next cfg v))"
  by (simp add: keeps_ok_def)

lemma keeps_reject: "keeps_ok nti (Some (Reject b))"
  by (simp add: keeps_ok_def)

lemma keeps_bind: "(\<And>a. keeps_ok nti (f a)) \<Longrightarrow> keeps_ok nti (Option.bind x f)"
  by (cases x) (simp_all add: keeps_ok_def)

lemma keeps_dev:
  assumes "cfg_ok nti cfg"
  shows "keeps_ok nti (set_dev nti cfg v a)" "keeps_ok nti (set_redirect nti cfg v a)"
  using assms
  by (auto simp: keeps_ok_def set_dev_def set_redirect_def cfg_ok_def named_if_def length_strncpy Let_def
      split: Option.bind_split)

lemmas keeps_intros = keeps_if keeps_next keeps_reject keeps_bind keeps_dev plain_updates_ok copy_modes_ok

lemma switch_opt_keeps: "cfg_ok nti cfg \<Longrightarrow> keeps_ok nti (switch_opt nti c a cfg v)"
  unfolding switch_opt_def by (intro keeps_intros)

lemma switch_opt_ok:
  "cfg_ok nti cfg \<Longrightarrow> switch_opt nti c a cfg v = Some (Next cfg' v') \<Longrightarrow> cfg_ok nti cfg'"
  using switch_opt_keeps [of nti cfg c a v] by (simp add: keeps_ok_def)

lemma parse_loop_returns:
  assumes "parse_loop nti prog doc w lo gs cfg v = Some (Returns cfg' v')"
  obtains (finished) a gs' where "getopt_long short_options lo gs = Some (- 1, a, gs')" "cfg' = cfg" "v' = v"
  | (more) c a gs' cfg1 v1 where "getopt_long short_options lo gs = Some (c, a, gs')" "c \<noteq> - 1"
      "switch_opt nti c a cfg v = Some (Next cfg1 v1)"
      "parse_loop nti prog doc w lo gs' cfg1 v1 = Some (Returns cfg' v')"
  using assms
  by (subst (asm) parse_loop.simps) (auto split: option.split_asm if_split_asm switch_result.split_asm)

lemma parse_loop_exits:
  "parse_loop nti prog doc w lo gs cfg v = Some (Exits c out) \<Longrightarrow> c = EXIT_FAIL_OPTION"
proof (induction "getopt_size gs" arbitrary: gs cfg v rule: less_induct)
  case less
  have IH: "getopt_long short_options lo gs = Some (x, a, gs') \<Longrightarrow> x \<noteq> - 1 \<Longrightarrow>
      parse_loop nti prog doc w lo gs' cfg' v' = Some (Exits c out) \<Longrightarrow> c = EXIT_FAIL_OPTION" for x a gs' cfg' v'
    using less.hyps getopt_long_progress by blast
  from less.prems show ?case
    by (subst (asm) parse_loop.simps)
      (auto split: option.split_asm if_split_asm switch_result.split_asm dest: IH)
qed

lemma parse_loop_ok:
  "cfg_ok nti cfg \<Longrightarrow> parse_loop nti prog doc w lo gs cfg v = Some (Returns cfg' v') \<Longrightarrow> cfg_ok nti cfg'"
proof (induction "getopt_size gs" arbitrary: gs cfg v rule: less_induct)
  case less
  from less.prems(2) show ?case
  proof (cases rule: parse_loop_returns)
    case finished
    then show ?thesis using less.prems(1) by simp
  next
    case (more c a gs' cfg1 v1)
    then show ?thesis
      using less.hyps [OF getopt_long_progress] switch_opt_ok [OF less.prems(1)] by blast
  qed
qed

subsection \<open>From words to options\<close>





lemma while_all:
  "x \<notin> set xs \<Longrightarrow> takeWhile (\<lambda>c. c \<noteq> x) xs = xs" "x \<notin> set xs \<Longrightarrow> dropWhile (\<lambda>c. c \<noteq> x) xs = []"
  by (induction xs) auto




subsection \<open>Properties\<close>


definition zero_cfg :: config where
  "zero_cfg = \<lparr>attach_mode = XDP_MODE_UNSPEC, xdp_flags = 0, ifindex = - 1, ifname = False,
     ifname_buf = replicate IF_NAMESIZE NUL, redirect_ifindex = 0, redirect_ifname = False,
     redirect_ifname_buf = replicate IF_NAMESIZE NUL, do_unload = False, prog_id = 0,
     reuse_maps = False, pin_dir = replicate 512 NUL, filename = replicate 512 NUL,
     progname = replicate 32 NUL, src_mac = replicate 18 NUL, dest_mac = replicate 18 NUL,
     xsk_bind_flags = 0, xsk_if_queue = 0, xsk_poll_mode = False, unload_all = False\<rparr>"


text \<open>
  C39. Whatever the command line, a parser that returns leaves a consistent configuration: the
  arrays keep their sizes, an interface that was named has a terminated name and the non-zero
  number the system gives it, and copy and zero-copy mode are not both requested.
\<close>

theorem parse_cmdline_consistent:
  assumes "cfg_ok nti cfg"
    "parse_cmdline_args nti malloc_ok prog argv wrapper cfg verbose doc = Some (Returns cfg' verbose')"
  shows "cfg_ok nti cfg'"
  using assms
  by (auto simp: parse_cmdline_args_def bind_eq_Some_conv split: if_splits intro: parse_loop_ok)

theorem parse_cmdline_consistent_witness:
  "\<exists>cfg' v'. parse_cmdline_args (\<lambda>nm. 7) True ''p'' [''-d'', ''eth0'', ''-z''] pass_long_options zero_cfg True [] =
     Some (Returns cfg' v') \<and> cfg_ok (\<lambda>nm. 7) cfg'"
proof -
  have ok: "cfg_ok (\<lambda>nm. 7) zero_cfg" by (simp add: cfg_ok_def zero_cfg_def)
  have "case parse_cmdline_args (\<lambda>nm. 7) True ''p'' [''-d'', ''eth0'', ''-z''] pass_long_options zero_cfg True [] of
      Some (Returns cfg' v') \<Rightarrow> True | _ \<Rightarrow> False"
    by code_simp
  then obtain cfg' v' where r: "parse_cmdline_args (\<lambda>nm. 7) True ''p'' [''-d'', ''eth0'', ''-z'']
      pass_long_options zero_cfg True [] = Some (Returns cfg' v')"
    by (auto split: option.splits outcome.splits)
  show ?thesis using parse_cmdline_consistent [OF ok r] r by blast
qed

text \<open>
  The table handed to \<open>getopt_long\<close> has no closing entry: a long option that is not the
  exact name of an option (a typing error, or an abbreviation the manual allows) makes the
  search run past the end of the allocated table.
\<close>

lemma parse_cmdline_unterminated:
  assumes "wrapper_count wrapper = Some num" "nm \<noteq> []" "CHR ''='' \<notin> set nm"
    "Some nm \<notin> set (map (name \<circ> opt) (take num wrapper))"
  shows "parse_cmdline_args nti True prog ((''--'' @ nm) # argv) wrapper cfg verbose doc = None"
proof -
  have "wrapper_count ws = Some n \<Longrightarrow> Some nm \<notin> set (map (name \<circ> opt) (take n ws)) \<Longrightarrow>
      long_exact (map opt (take n ws)) nm = None" for ws n
    by (induction ws arbitrary: n) (auto split: if_splits option.splits)
  then have "long_exact (map opt (take num wrapper)) nm = None" using assms by blast
  then have "parse_loop nti prog doc wrapper (map opt (take num wrapper))
      \<lparr>nextchar = [], args = (''--'' @ nm) # argv\<rparr> cfg verbose = None"
    using assms(2,3)
    by (subst parse_loop.simps)
      (simp add: while_all getopt_long_def is_option_elem_def getopt_long_opt_def long_lookup_def Let_def)
  then show ?thesis using assms(1)
    by (simp add: parse_cmdline_args_def option_wrappers_to_options_def)
qed

end
