(* ===== verification/Xdp_User.thy ===== *)
theory Xdp_User
  imports Common_Params
begin

section \<open>The user-space loader\<close>

text \<open>
  \<open>common/common_user_bpf_xdp.c\<close> and \<open>xdp/xdp_pass_user.c\<close>: the loader that attaches an XDP
  program to an interface or takes programs off it, on top of the command-line parser
  (\<open>Common_Params\<close>) and libxdp (\<open>Libxdp_Attach\<close>). Opening a program object and the queries on
  file descriptors are parameters (\<open>uops\<close>); text written to the terminal is left out.
\<close>

subsection \<open>Creating a program object\<close>

text \<open>
  \<open>xdp_program__create\<close> of libxdp: exactly one source must be named. The fields of the options
  are null (\<open>None\<close>) or set.
\<close>

record xdp_program_opts =
  o_obj :: bool
  o_opts :: bool
  o_prog_name :: "string option"
  o_find_filename :: "string option"
  o_open_filename :: "string option"
  o_pin_path :: "string option"
  o_id :: u32
  o_fd :: int

datatype create_from =
    From_Obj "string option" | Find_File string "string option" | Open_File string "string option"
  | From_Pin string | From_Id u32 | From_Fd int

definition create_source :: "xdp_program_opts \<Rightarrow> create_from option" where
  "create_source opts =
     (if o_obj opts then
        (if o_opts opts \<or> o_find_filename opts \<noteq> None \<or> o_open_filename opts \<noteq> None \<or>
            o_pin_path opts \<noteq> None \<or> o_id opts \<noteq> 0 \<or> o_fd opts \<noteq> 0 then None
         else Some (From_Obj (o_prog_name opts)))
      else (case o_find_filename opts of
        Some f \<Rightarrow>
          if o_open_filename opts \<noteq> None \<or> o_pin_path opts \<noteq> None \<or> o_id opts \<noteq> 0 \<or> o_fd opts \<noteq> 0
          then None else Some (Find_File f (o_prog_name opts))
      | None \<Rightarrow> (case o_open_filename opts of
        Some f \<Rightarrow>
          if o_pin_path opts \<noteq> None \<or> o_id opts \<noteq> 0 \<or> o_fd opts \<noteq> 0
          then None else Some (Open_File f (o_prog_name opts))
      | None \<Rightarrow> (case o_pin_path opts of
        Some f \<Rightarrow>
          if o_opts opts \<or> o_prog_name opts \<noteq> None \<or> o_id opts \<noteq> 0 \<or> o_fd opts \<noteq> 0
          then None else Some (From_Pin f)
      | None \<Rightarrow>
          if o_id opts \<noteq> 0 then
            (if o_opts opts \<or> o_prog_name opts \<noteq> None \<or> o_fd opts \<noteq> 0 then None
             else Some (From_Id (o_id opts)))
          else if o_fd opts \<noteq> 0 then
            (if o_opts opts \<or> o_prog_name opts \<noteq> None then None else Some (From_Fd (o_fd opts)))
          else None))))"

record 'w uops =
  u_open :: "'w \<Rightarrow> create_from \<Rightarrow> xdp_program eptr \<times> 'w"
  u_prog_info :: "'w \<Rightarrow> int \<Rightarrow> int \<times> 'w"

definition xdp_program__create :: "'w uops \<Rightarrow> xdp_program_opts option \<Rightarrow> 'w lx \<Rightarrow> xdp_program eptr \<times> 'w lx" where
  "xdp_program__create u opts s =
     (case Option.bind opts create_source of
        None \<Rightarrow> (Null, s\<lparr>errno := EINVAL\<rparr>)
      | Some src \<Rightarrow>
          (case u_open u (kern s) src of
             (ErrPtr e, w) \<Rightarrow> (Null, s\<lparr>kern := w, errno := - e\<rparr>)
           | (p, w) \<Rightarrow> (p, s\<lparr>kern := w\<rparr>)))"

definition libxdp_get_error :: "'a eptr \<Rightarrow> 'w lx \<Rightarrow> int \<times> 'w lx" where
  "libxdp_get_error p s =
     (case p of
        Ptr a \<Rightarrow> (0, s)
      | ErrPtr e \<Rightarrow> (e, s\<lparr>errno := - e\<rparr>)
      | Null \<Rightarrow> (- errno s, s))"

subsection \<open>Helpers of the loader\<close>

definition PATH_MAX :: nat where
  "PATH_MAX = 4096"

definition EXIT_FAIL :: int where "EXIT_FAIL = 1"
definition EXIT_FAIL_XDP :: int where "EXIT_FAIL_XDP = 30"
definition EXIT_FAIL_BPF :: int where "EXIT_FAIL_BPF = 40"

text \<open>
  \<open>reuse_maps\<close>: the maps of an object are connected to the pinned ones of the same name.
  \<open>get\<close> is \<open>bpf_obj_get\<close> and \<open>reuse\<close> is \<open>bpf_map__reuse_fd\<close>, which duplicates the
  descriptor. The second component counts the descriptors the function got and still holds.
\<close>

fun reuse_maps_loop :: "('w \<Rightarrow> string \<Rightarrow> int \<times> 'w) \<Rightarrow> ('w \<Rightarrow> string \<Rightarrow> int \<Rightarrow> int \<times> 'w) \<Rightarrow> string \<Rightarrow>
    string list \<Rightarrow> nat \<Rightarrow> 'w \<Rightarrow> int \<times> nat \<times> 'w" where
  "reuse_maps_loop get reuse path [] fds w = (0, fds, w)"
| "reuse_maps_loop get reuse path (m # ms) fds w =
     (let buf = path @ ''/'' @ m in
      if length buf \<ge> PATH_MAX then (- ENAMETOOLONG, fds, w)
      else (case get w buf of (fd, w1) \<Rightarrow>
        if fd < 0 then (fd, fds, w1)
        else (case reuse w1 m fd of (err, w2) \<Rightarrow>
          if err \<noteq> 0 then (err, fds + 1, w2)
          else reuse_maps_loop get reuse path ms (fds + 1) w2)))"

definition reuse_object_maps :: "('w \<Rightarrow> string \<Rightarrow> int \<times> 'w) \<Rightarrow> ('w \<Rightarrow> string \<Rightarrow> int \<Rightarrow> int \<times> 'w) \<Rightarrow>
    string list option \<Rightarrow> string option \<Rightarrow> 'w \<Rightarrow> int \<times> nat \<times> 'w" where
  "reuse_object_maps get reuse obj path w =
     (case obj of
        None \<Rightarrow> (- ENOENT, 0, w)
      | Some ms \<Rightarrow> (case path of None \<Rightarrow> (- EINVAL, 0, w) | Some p \<Rightarrow> reuse_maps_loop get reuse p ms 0 w))"

definition user_action_names :: "string list" where
  "user_action_names = [''XDP_ABORTED'', ''XDP_DROP'', ''XDP_PASS'', ''XDP_TX'', ''XDP_REDIRECT'', ''XDP_UNKNOWN'']"

definition action2str :: "u32 \<Rightarrow> string option" where
  "action2str action = (if action < 6 then Some (user_action_names ! unat action) else None)"

record bpf_map_info =
  i_type :: u32
  i_key_size :: u32
  i_value_size :: u32
  i_max_entries :: u32

definition check_map_fd_info :: "bpf_map_info \<Rightarrow> bpf_map_info \<Rightarrow> int" where
  "check_map_fd_info info ex =
     (if i_key_size ex \<noteq> 0 \<and> i_key_size ex \<noteq> i_key_size info then EXIT_FAIL
      else if i_value_size ex \<noteq> 0 \<and> i_value_size ex \<noteq> i_value_size info then EXIT_FAIL
      else if i_max_entries ex \<noteq> 0 \<and> i_max_entries ex \<noteq> i_max_entries info then EXIT_FAIL
      else if i_type ex \<noteq> 0 \<and> i_type ex \<noteq> i_type info then EXIT_FAIL
      else 0)"

text \<open>
  \<open>open_bpf_map_file\<close>: the path is cut at \<open>PATH_MAX\<close>. With \<open>want_info\<close> the map information
  is read, whose failure is reported as a positive number.
\<close>

definition open_bpf_map_file :: "('w \<Rightarrow> string \<Rightarrow> int \<times> 'w) \<Rightarrow> ('w \<Rightarrow> int \<Rightarrow> int \<times> bpf_map_info \<times> 'w) \<Rightarrow>
    string \<Rightarrow> string \<Rightarrow> bool \<Rightarrow> 'w \<Rightarrow> int \<times> bpf_map_info option \<times> 'w" where
  "open_bpf_map_file get info dir mapname want_info w =
     (case get w (fst (snprintf PATH_MAX (dir @ ''/'' @ mapname))) of (fd, w1) \<Rightarrow>
        if fd < 0 then (fd, None, w1)
        else if \<not> want_info then (fd, None, w1)
        else (case info w1 fd of (err, mi, w2) \<Rightarrow>
          if err \<noteq> 0 then (EXIT_FAIL_BPF, None, w2) else (fd, Some mi, w2)))"

subsection \<open>Loading and unloading\<close>

text \<open>The outcome of a function that may end the process.\<close>

datatype 'a exits = Value 'a | Exit int

definition load_bpf_and_xdp_attach ::
  "'w kops \<Rightarrow> 'w uops \<Rightarrow> bool \<Rightarrow> config \<Rightarrow> 'w lx \<Rightarrow> (xdp_program exits \<times> 'w lx) option" where
  "load_bpf_and_xdp_attach k u skip cfg s = do {
     pn \<leftarrow> buf_str (progname cfg);
     fname \<leftarrow> buf_str (filename cfg);
     let opts = \<lparr>o_obj = False, o_opts = True, o_prog_name = Some pn, o_find_filename = None,
                 o_open_filename = Some fname, o_pin_path = None, o_id = 0, o_fd = 0\<rparr>;
     Some (case xdp_program__create u (Some opts) s of (prog, s1) \<Rightarrow>
      case libxdp_get_error prog s1 of (err, s2) \<Rightarrow>
        if err \<noteq> 0 then (Exit EXIT_FAIL_BPF, s2)
        else case xdp_program__attach k skip prog (sint (ifindex cfg)) (attach_mode cfg) 0 s2 of (err, s3) \<Rightarrow>
          if err \<noteq> 0 then (Exit err, s3)
          else if xdp_program__fd prog < 0 then (Exit EXIT_FAIL_BPF, s3)
          else (case prog of Ptr p \<Rightarrow> (Value p, s3) | _ \<Rightarrow> (Exit EXIT_FAIL_BPF, s3)))
   }"

text \<open>The program and mode \<open>do_unload\<close> picks for the identifier asked for.\<close>

definition pick_unload :: "u32 \<Rightarrow> xdp_multiprog \<Rightarrow> (xdp_program eptr \<times> xdp_attach_mode) option" where
  "pick_unload wanted mp =
     (case filter (\<lambda>p. xdp_program__id (Ptr p) = wanted) (xdp_multiprog__next_progs (Ptr mp)) of
        p # _ \<Rightarrow> Some (Ptr p, xdp_multiprog__attach_mode (Ptr mp))
      | [] \<Rightarrow>
          if xdp_multiprog__is_legacy (Ptr mp) \<and>
             xdp_program__id (xdp_multiprog__main_prog (Ptr mp)) = wanted
          then Some (xdp_multiprog__main_prog (Ptr mp), xdp_multiprog__attach_mode (Ptr mp))
          else if xdp_program__id (xdp_multiprog__hw_prog (Ptr mp)) = wanted
          then Some (xdp_multiprog__hw_prog (Ptr mp), XDP_MODE_HW)
          else None)"

definition unload :: "'w kops \<Rightarrow> config \<Rightarrow> 'w lx \<Rightarrow> int \<times> 'w lx" where
  "unload k cfg s =
     (case xdp_multiprog__get_from_ifindex k (sint (ifindex cfg)) s of (mp, s1) \<Rightarrow>
      case libxdp_get_error mp s1 of (e, s2) \<Rightarrow>
      case (if e \<noteq> 0 then (EXIT_FAIL, s2)
            else (case mp of
              Ptr m \<Rightarrow>
                if unload_all cfg then xdp_multiprog__detach k mp s2
                else (case pick_unload (config.prog_id cfg) m of
                    None \<Rightarrow> (- ENOENT, s2)
                  | Some (p, mode) \<Rightarrow> xdp_program__detach k p (sint (ifindex cfg)) mode 0 s2)
            | _ \<Rightarrow> (EXIT_FAIL, s2))) of (err, s3) \<Rightarrow>
        (if err \<noteq> 0 then 1 else 0, xdp_multiprog__close mp s3))"

subsection \<open>The loader program\<close>

definition initial_cfg :: config where
  "initial_cfg = zero_cfg"

definition pass_doc :: string where
  "pass_doc = ''Simple XDP prog doing XDP_PASS'' @ [CHR 0x0A]"

definition pass_opts :: xdp_program_opts where
  "pass_opts = \<lparr>o_obj = False, o_opts = True, o_prog_name = Some ''xdp_prog_simple'', o_find_filename = None,
     o_open_filename = Some ''xdp_pass_kern.o'', o_pin_path = None, o_id = 0, o_fd = 0\<rparr>"

definition pass_user_main :: "'w kops \<Rightarrow> 'w uops \<Rightarrow> bool \<Rightarrow> (string \<Rightarrow> u32) \<Rightarrow> bool \<Rightarrow> string \<Rightarrow> string list \<Rightarrow>
    'w lx \<Rightarrow> (int \<times> 'w lx) option" where
  "pass_user_main k u skip nti malloc_ok prog argv s =
     do {
       r \<leftarrow> parse_cmdline_args nti malloc_ok prog argv pass_long_options initial_cfg True pass_doc;
       (case r of
          Exits c out \<Rightarrow> Some (c, s)
        | Returns cfg verbose \<Rightarrow>
            if ifindex cfg = - 1 then
              map_option (\<lambda>out. (EXIT_FAIL_OPTION, s)) (usage prog pass_doc pass_long_options (argv = []))
            else if do_unload cfg \<or> unload_all cfg then Some (unload k cfg s)
            else Some
              (case xdp_program__create u (Some pass_opts) s of (p, s1) \<Rightarrow>
               case libxdp_get_error p s1 of (err, s2) \<Rightarrow>
                 if err \<noteq> 0 then (err, s2)
                 else case xdp_program__attach k skip p (sint (ifindex cfg)) (attach_mode cfg) 0 s2 of
                   (err, s3) \<Rightarrow>
                     if err \<noteq> 0 then (err, s3)
                     else (case u_prog_info u (kern s3) (xdp_program__fd p) of (err, w) \<Rightarrow>
                       if err \<noteq> 0 then (err, s3\<lparr>kern := w\<rparr>) else (0, s3\<lparr>kern := w\<rparr>))))
     }"

subsection \<open>Lemmas\<close>

text \<open>A program object is made from exactly one source.\<close>

definition sources :: "xdp_program_opts \<Rightarrow> nat" where
  "sources opts = of_bool (o_obj opts) + of_bool (o_find_filename opts \<noteq> None) +
     of_bool (o_open_filename opts \<noteq> None) + of_bool (o_pin_path opts \<noteq> None) +
     of_bool (o_id opts \<noteq> 0) + of_bool (o_fd opts \<noteq> 0)"

lemma create_source_one: "create_source opts \<noteq> None \<Longrightarrow> sources opts = 1"
  by (auto simp: create_source_def sources_def split: if_splits option.splits)

lemma get_error_Ptr [simp]: "libxdp_get_error (Ptr a) s = (0, s)"
  by (simp add: libxdp_get_error_def)



lemma reuse_maps_holds:
  "reuse_maps_loop get reuse path ms fds w = (0, n, w') \<Longrightarrow> n = fds + length ms"
proof (induction ms arbitrary: fds w)
  case (Cons m ms)
  from Cons.prems show ?case
    by (auto simp: Let_def split: if_split_asm prod.split_asm dest!: Cons.IH)
qed simp


lemma pick_unload_complete:
  "p \<in> set (mp_progs mp) \<Longrightarrow> \<not> mp_is_legacy mp \<Longrightarrow> xdp_program.prog_id p = wanted \<Longrightarrow> pick_unload wanted mp \<noteq> None"
  by (auto simp: pick_unload_def filter_empty_conv split: list.splits)

subsection \<open>Properties\<close>

text \<open>
  The loader touches the system only for a device: if the kernel's state changed, the
  command line was accepted and named an interface that exists. A command line without
  \<open>--dev\<close> ends with the option error and changes nothing.
\<close>

lemma pass_user_main_needs_dev:
  assumes "pass_user_main k u skip nti malloc_ok prog argv s = Some (code, s')"
  shows "s' = s \<and> code = EXIT_FAIL_OPTION \<or>
    (\<exists>cfg v. parse_cmdline_args nti malloc_ok prog argv pass_long_options initial_cfg True pass_doc =
        Some (Returns cfg v) \<and> ifindex cfg \<noteq> - 1 \<and> cfg_ok nti cfg)"
proof -
  have ok: "cfg_ok nti initial_cfg" by (simp add: initial_cfg_def zero_cfg_def cfg_ok_def)
  have exits: "parse_cmdline_args nti malloc_ok prog argv pass_long_options initial_cfg True pass_doc =
      Some (Exits c out) \<Longrightarrow> c = EXIT_FAIL_OPTION" for c out
    by (auto simp: parse_cmdline_args_def bind_eq_Some_conv dest: parse_loop_exits split: if_splits)
  have keeps: "parse_cmdline_args nti malloc_ok prog argv pass_long_options initial_cfg True pass_doc =
      Some (Returns cfg v) \<Longrightarrow> cfg_ok nti cfg" for cfg v
    using parse_loop_ok [OF ok] by (auto simp: parse_cmdline_args_def bind_eq_Some_conv split: if_splits)
  obtain r where r: "parse_cmdline_args nti malloc_ok prog argv pass_long_options initial_cfg True pass_doc = Some r"
    using assms by (auto simp: pass_user_main_def bind_eq_Some_conv)
  show ?thesis
  proof (cases r)
    case (Exits c out)
    then show ?thesis using assms exits r by (simp add: pass_user_main_def)
  next
    case (Returns cfg v)
    show ?thesis
    proof (cases "ifindex cfg = - 1")
      case True
      then show ?thesis using assms r Returns by (auto simp: pass_user_main_def)
    next
      case False
      then show ?thesis using keeps r Returns by blast
    qed
  qed
qed

subsection \<open>Unloading\<close>



end
