(* ===== verification/Xdp_Filter.thy ===== *)
theory Xdp_Filter
  imports Parsing_Helpers Xdp_Stats
begin

unbundle bit_operations_syntax

section \<open>The packet filter of xdp-tools\<close>

text \<open>
  \<open>lib/xdp-tools/xdp-filter/xdpfilt_prog.h\<close> with the parsers of
  \<open>lib/xdp-tools/headers/xdp/parsing_helpers.h\<close>. The parsers have the names of the
  parsers in \<open>common/parsing_helpers.h\<close> and are not the same code (they skip IPv6 extension
  headers, and do not check the least IPv4 and TCP header lengths); here they carry the prefix
  \<open>xt_\<close>. The macros that select the features of one of the ten filter programs are a record
  of flags. The maps are partial functions; they are per-CPU maps, so an update needs no
  synchronisation. A map value holds six flag bits and above them a counter.
\<close>

subsection \<open>Parsers\<close>

abbreviation (input) IPPROTO_HOPOPTS :: u8 where "IPPROTO_HOPOPTS \<equiv> 0"
abbreviation (input) IPPROTO_ROUTING :: u8 where "IPPROTO_ROUTING \<equiv> 43"
abbreviation (input) IPPROTO_FRAGMENT :: u8 where "IPPROTO_FRAGMENT \<equiv> 44"
abbreviation (input) IPPROTO_AH :: u8 where "IPPROTO_AH \<equiv> 51"
abbreviation (input) IPPROTO_DSTOPTS :: u8 where "IPPROTO_DSTOPTS \<equiv> 60"
abbreviation (input) IPPROTO_MH :: u8 where "IPPROTO_MH \<equiv> 135"
abbreviation (input) sizeof_ipv6_opt_hdr :: nat where "sizeof_ipv6_opt_hdr \<equiv> 2"
abbreviation (input) opt_nexthdr :: "ptr \<Rightarrow> ptr" where "opt_nexthdr h \<equiv> h"
abbreviation (input) opt_hdrlen :: "ptr \<Rightarrow> ptr" where "opt_hdrlen h \<equiv> h + 1"

definition XT_VLAN_MAX_DEPTH :: nat where
  "XT_VLAN_MAX_DEPTH = 4"

definition IPV6_EXT_MAX_CHAIN :: nat where
  "IPV6_EXT_MAX_CHAIN = 6"

text \<open>The loop over the tags is that of \<open>common/parsing_helpers.h\<close> without the collection.\<close>

definition xt_parse_ethhdr :: "xdp_md \<Rightarrow> ptr \<Rightarrow> ptr \<Rightarrow> parse_result" where
  "xt_parse_ethhdr m nh dend =
     (let eth = nh in
      if eth + sizeof_ethhdr > dend then Some (-1, nh, None)
      else do {
        hp \<leftarrow> ld16 m (h_proto eth);
        (vlh, h, _) \<leftarrow> vlan_loop m dend XT_VLAN_MAX_DEPTH 0 (eth + sizeof_ethhdr) hp None;
        Some (uint h, vlh, Some eth)
      })"

fun xt_skip_ip6hdrext :: "xdp_md \<Rightarrow> ptr \<Rightarrow> nat \<Rightarrow> ptr \<Rightarrow> u8 \<Rightarrow> (int \<times> ptr) option" where
  "xt_skip_ip6hdrext m dend 0 nh ty = Some (-1, nh)"
| "xt_skip_ip6hdrext m dend (Suc n) nh ty =
     (let hdr = nh in
      if hdr + sizeof_ipv6_opt_hdr > dend then Some (-1, nh)
      else if ty \<in> {IPPROTO_HOPOPTS, IPPROTO_DSTOPTS, IPPROTO_ROUTING, IPPROTO_MH} then do {
        l \<leftarrow> ld8 m (opt_hdrlen hdr);
        ty' \<leftarrow> ld8 m (opt_nexthdr hdr);
        xt_skip_ip6hdrext m dend n (hdr + (unat l + 1) * 8) ty'
      }
      else if ty = IPPROTO_AH then do {
        l \<leftarrow> ld8 m (opt_hdrlen hdr);
        ty' \<leftarrow> ld8 m (opt_nexthdr hdr);
        xt_skip_ip6hdrext m dend n (hdr + (unat l + 2) * 4) ty'
      }
      else if ty = IPPROTO_FRAGMENT then do {
        ty' \<leftarrow> ld8 m (opt_nexthdr hdr);
        xt_skip_ip6hdrext m dend n (hdr + 8) ty'
      }
      else Some (uint ty, nh))"

definition xt_parse_ip6hdr :: "xdp_md \<Rightarrow> ptr \<Rightarrow> ptr \<Rightarrow> parse_result" where
  "xt_parse_ip6hdr m nh dend =
     (let ip6h = nh in
      if ip6h + sizeof_ipv6hdr > dend then Some (-1, nh, None)
      else do {
        ty \<leftarrow> ld8 m (ip6_nexthdr ip6h);
        (r, nh') \<leftarrow> xt_skip_ip6hdrext m dend IPV6_EXT_MAX_CHAIN (ip6h + sizeof_ipv6hdr) ty;
        Some (r, nh', Some ip6h)
      })"

definition xt_parse_iphdr :: "xdp_md \<Rightarrow> ptr \<Rightarrow> ptr \<Rightarrow> parse_result" where
  "xt_parse_iphdr m nh dend =
     (let iph = nh in
      if iph + sizeof_iphdr > dend then Some (-1, nh, None)
      else do {
        b \<leftarrow> ld8 m (ip_version_ihl iph);
        let hdrsize = unat (ihl_of b) * 4;
        if nh + hdrsize > dend then Some (-1, nh, None)
        else do {
          proto \<leftarrow> ld8 m (ip_protocol iph);
          Some (uint proto, nh + hdrsize, Some iph)
        }
      })"

definition xt_parse_icmp6hdr :: "xdp_md \<Rightarrow> ptr \<Rightarrow> ptr \<Rightarrow> parse_result" where
  "xt_parse_icmp6hdr m nh dend =
     (let icmp6h = nh in
      if icmp6h + sizeof_icmp6hdr > dend then Some (-1, nh, None)
      else do {
        t \<leftarrow> ld8 m (icmp_type icmp6h);
        Some (uint t, icmp6h + sizeof_icmp6hdr, Some icmp6h)
      })"

definition xt_parse_icmphdr :: "xdp_md \<Rightarrow> ptr \<Rightarrow> ptr \<Rightarrow> parse_result" where
  "xt_parse_icmphdr m nh dend =
     (let icmph = nh in
      if icmph + sizeof_icmphdr > dend then Some (-1, nh, None)
      else do {
        t \<leftarrow> ld8 m (icmp_type icmph);
        Some (uint t, icmph + sizeof_icmphdr, Some icmph)
      })"

definition xt_parse_icmphdr_common :: "xdp_md \<Rightarrow> ptr \<Rightarrow> ptr \<Rightarrow> parse_result" where
  "xt_parse_icmphdr_common m nh dend =
     (let h = nh in
      if h + sizeof_icmphdr_common > dend then Some (-1, nh, None)
      else do {
        t \<leftarrow> ld8 m (icmp_type h);
        Some (uint t, h + sizeof_icmphdr_common, Some h)
      })"

definition xt_parse_udphdr :: "xdp_md \<Rightarrow> ptr \<Rightarrow> ptr \<Rightarrow> parse_result" where
  "xt_parse_udphdr m nh dend =
     (let h = nh in
      if h + sizeof_udphdr > dend then Some (-1, nh, None)
      else do {
        l \<leftarrow> ld16 m (udp_len h);
        let len = udp_payload_len l;
        if len < 0 then Some (-1, h + sizeof_udphdr, Some h)
        else Some (len, h + sizeof_udphdr, Some h)
      })"

definition xt_parse_tcphdr :: "xdp_md \<Rightarrow> ptr \<Rightarrow> ptr \<Rightarrow> parse_result" where
  "xt_parse_tcphdr m nh dend =
     (let h = nh in
      if h + sizeof_tcphdr > dend then Some (-1, nh, None)
      else do {
        b \<leftarrow> ld8 m (tcp_doff h);
        let len = unat (doff_of b) * 4;
        if h + len > dend then Some (-1, nh, None)
        else Some (int len, h + sizeof_tcphdr, Some h)
      })"

subsection \<open>The filter\<close>

definition MAP_FLAG_SRC :: u64 where "MAP_FLAG_SRC = 1"
definition MAP_FLAG_DST :: u64 where "MAP_FLAG_DST = 2"
definition MAP_FLAG_TCP :: u64 where "MAP_FLAG_TCP = 4"
definition MAP_FLAG_UDP :: u64 where "MAP_FLAG_UDP = 8"
definition COUNTER_SHIFT :: nat where "COUNTER_SHIFT = 6"

record features =
  FILT_MODE_DENY :: bool
  FILT_MODE_ETHERNET :: bool
  FILT_MODE_IPV4 :: bool
  FILT_MODE_IPV6 :: bool
  FILT_MODE_UDP :: bool
  FILT_MODE_TCP :: bool

record filters =
  filter_ports :: "u32 \<rightharpoonup> u64"
  filter_ipv4 :: "u32 \<rightharpoonup> u64"
  filter_ipv6 :: "u8 list \<rightharpoonup> u64"
  filter_ethernet :: "u8 list \<rightharpoonup> u64"

definition VERDICT_HIT :: "features \<Rightarrow> xdp_action" where
  "VERDICT_HIT f = (if FILT_MODE_DENY f then XDP_PASS else XDP_DROP)"

definition VERDICT_MISS :: "features \<Rightarrow> xdp_action" where
  "VERDICT_MISS f = (if FILT_MODE_DENY f then XDP_DROP else XDP_PASS)"

text \<open>\<open>CHECK_MAP\<close>: the map with the counter of the entry raised, if the entry has the flags.\<close>

definition CHECK_MAP :: "('k \<rightharpoonup> u64) \<Rightarrow> 'k \<Rightarrow> u64 \<Rightarrow> ('k \<rightharpoonup> u64) option" where
  "CHECK_MAP m k flags =
     (case m k of
        Some v \<Rightarrow> if v AND flags = flags then Some (m(k \<mapsto> v + push_bit COUNTER_SHIFT 1)) else None
      | None \<Rightarrow> None)"

definition lookup_verdict_tcp :: "features \<Rightarrow> xdp_md \<Rightarrow> ptr \<Rightarrow> filters \<Rightarrow> (xdp_action \<times> filters) option" where
  "lookup_verdict_tcp f m h fs = do {
     dest \<leftarrow> ld16 m (tcp_dest h);
     case CHECK_MAP (filter_ports fs) (ucast dest) (MAP_FLAG_DST OR MAP_FLAG_TCP) of
       Some p \<Rightarrow> Some (VERDICT_HIT f, fs\<lparr>filter_ports := p\<rparr>)
     | None \<Rightarrow> do {
         source \<leftarrow> ld16 m (tcp_source h);
         case CHECK_MAP (filter_ports fs) (ucast source) (MAP_FLAG_SRC OR MAP_FLAG_TCP) of
           Some p \<Rightarrow> Some (VERDICT_HIT f, fs\<lparr>filter_ports := p\<rparr>)
         | None \<Rightarrow> Some (VERDICT_MISS f, fs)
       }
   }"

definition lookup_verdict_udp :: "features \<Rightarrow> xdp_md \<Rightarrow> ptr \<Rightarrow> filters \<Rightarrow> (xdp_action \<times> filters) option" where
  "lookup_verdict_udp f m h fs = do {
     dest \<leftarrow> ld16 m (udp_dest h);
     case CHECK_MAP (filter_ports fs) (ucast dest) (MAP_FLAG_DST OR MAP_FLAG_UDP) of
       Some p \<Rightarrow> Some (VERDICT_HIT f, fs\<lparr>filter_ports := p\<rparr>)
     | None \<Rightarrow> do {
         source \<leftarrow> ld16 m (udp_source h);
         case CHECK_MAP (filter_ports fs) (ucast source) (MAP_FLAG_SRC OR MAP_FLAG_UDP) of
           Some p \<Rightarrow> Some (VERDICT_HIT f, fs\<lparr>filter_ports := p\<rparr>)
         | None \<Rightarrow> Some (VERDICT_MISS f, fs)
       }
   }"

definition lookup_verdict_ipv4 :: "features \<Rightarrow> xdp_md \<Rightarrow> ptr \<Rightarrow> filters \<Rightarrow> (xdp_action \<times> filters) option" where
  "lookup_verdict_ipv4 f m iph fs = do {
     daddr \<leftarrow> ld32 m (ip_daddr iph);
     case CHECK_MAP (filter_ipv4 fs) daddr MAP_FLAG_DST of
       Some p \<Rightarrow> Some (VERDICT_HIT f, fs\<lparr>filter_ipv4 := p\<rparr>)
     | None \<Rightarrow> do {
         saddr \<leftarrow> ld32 m (ip_saddr iph);
         case CHECK_MAP (filter_ipv4 fs) saddr MAP_FLAG_SRC of
           Some p \<Rightarrow> Some (VERDICT_HIT f, fs\<lparr>filter_ipv4 := p\<rparr>)
         | None \<Rightarrow> Some (VERDICT_MISS f, fs)
       }
   }"

definition lookup_verdict_ipv6 :: "features \<Rightarrow> xdp_md \<Rightarrow> ptr \<Rightarrow> filters \<Rightarrow> (xdp_action \<times> filters) option" where
  "lookup_verdict_ipv6 f m ip6h fs = do {
     daddr \<leftarrow> ld m (ip6_daddr ip6h) 16;
     case CHECK_MAP (filter_ipv6 fs) daddr MAP_FLAG_DST of
       Some p \<Rightarrow> Some (VERDICT_HIT f, fs\<lparr>filter_ipv6 := p\<rparr>)
     | None \<Rightarrow> do {
         saddr \<leftarrow> ld m (ip6_saddr ip6h) 16;
         case CHECK_MAP (filter_ipv6 fs) saddr MAP_FLAG_SRC of
           Some p \<Rightarrow> Some (VERDICT_HIT f, fs\<lparr>filter_ipv6 := p\<rparr>)
         | None \<Rightarrow> Some (VERDICT_MISS f, fs)
       }
   }"

definition lookup_verdict_ethernet :: "features \<Rightarrow> xdp_md \<Rightarrow> ptr \<Rightarrow> filters \<Rightarrow> (xdp_action \<times> filters) option" where
  "lookup_verdict_ethernet f m eth fs = do {
     addr \<leftarrow> ld m (h_dest eth) ETH_ALEN;
     case CHECK_MAP (filter_ethernet fs) addr MAP_FLAG_DST of
       Some p \<Rightarrow> Some (VERDICT_HIT f, fs\<lparr>filter_ethernet := p\<rparr>)
     | None \<Rightarrow> do {
         addr \<leftarrow> ld m (h_source eth) ETH_ALEN;
         case CHECK_MAP (filter_ethernet fs) addr MAP_FLAG_SRC of
           Some p \<Rightarrow> Some (VERDICT_HIT f, fs\<lparr>filter_ethernet := p\<rparr>)
         | None \<Rightarrow> Some (VERDICT_MISS f, fs)
       }
   }"

text \<open>
  \<open>CHECK_RET\<close> followed by \<open>CHECK_VERDICT\<close>: a negative parser result aborts; otherwise the
  lookup (if its feature is built in) either decides or lets the packet go on.
\<close>

definition check_header ::
  "features \<Rightarrow> xdp_md \<Rightarrow> ptr \<Rightarrow> filters \<Rightarrow> parse_result \<Rightarrow> bool \<Rightarrow>
   (features \<Rightarrow> xdp_md \<Rightarrow> ptr \<Rightarrow> filters \<Rightarrow> (xdp_action \<times> filters) option) \<Rightarrow>
   (int \<Rightarrow> ptr \<Rightarrow> filters \<Rightarrow> (xdp_action \<times> filters) option) \<Rightarrow> (xdp_action \<times> filters) option" where
  "check_header f m nh fs parsed enabled lookup rest = do {
     (r, nh', h) \<leftarrow> parsed;
     if r < 0 then Some (XDP_ABORTED, fs)
     else if \<not> enabled then rest r nh' fs
     else do {
       p \<leftarrow> h;
       (action, fs') \<leftarrow> lookup f m p fs;
       if action \<noteq> VERDICT_MISS f then Some (action, fs') else rest r nh' fs'
     }
   }"

definition filt_ports :: "features \<Rightarrow> xdp_md \<Rightarrow> int \<Rightarrow> ptr \<Rightarrow> filters \<Rightarrow> (xdp_action \<times> filters) option" where
  "filt_ports f m ip_type nh fs =
     (let tcp = (\<lambda>nh fs.
        if FILT_MODE_TCP f \<and> ip_type = uint IPPROTO_TCP
        then check_header f m nh fs (xt_parse_tcphdr m nh (data_end m)) True lookup_verdict_tcp
               (\<lambda>r nh fs. Some (VERDICT_MISS f, fs))
        else Some (VERDICT_MISS f, fs)) in
      if FILT_MODE_UDP f \<and> ip_type = uint IPPROTO_UDP
      then check_header f m nh fs (xt_parse_udphdr m nh (data_end m)) True lookup_verdict_udp
             (\<lambda>r nh fs. tcp nh fs)
      else tcp nh fs)"

definition filt_ip :: "features \<Rightarrow> xdp_md \<Rightarrow> int \<Rightarrow> ptr \<Rightarrow> filters \<Rightarrow> (xdp_action \<times> filters) option" where
  "filt_ip f m eth_type nh fs =
     (if \<not> (FILT_MODE_IPV4 f \<or> FILT_MODE_IPV6 f \<or> FILT_MODE_TCP f \<or> FILT_MODE_UDP f)
      then Some (VERDICT_MISS f, fs)
      else if eth_type = uint (bpf_htons ETH_P_IP)
      then check_header f m nh fs (xt_parse_iphdr m nh (data_end m)) (FILT_MODE_IPV4 f) lookup_verdict_ipv4
             (filt_ports f m)
      else if eth_type = uint (bpf_htons ETH_P_IPV6)
      then check_header f m nh fs (xt_parse_ip6hdr m nh (data_end m)) (FILT_MODE_IPV6 f) lookup_verdict_ipv6
             (filt_ports f m)
      else Some (VERDICT_MISS f, fs))"

definition xdpfilt_verdict :: "features \<Rightarrow> xdp_md \<Rightarrow> filters \<Rightarrow> (xdp_action \<times> filters) option" where
  "xdpfilt_verdict f m fs =
     check_header f m (data m) fs (xt_parse_ethhdr m (data m) (data_end m)) (FILT_MODE_ETHERNET f)
       lookup_verdict_ethernet (filt_ip f m)"

definition xdpfilt :: "features \<Rightarrow> xdp_md \<Rightarrow> filters \<Rightarrow> stats_map \<Rightarrow> (u32 \<times> filters \<times> stats_map) option" where
  "xdpfilt f m fs stats = do {
     (action, fs') \<leftarrow> xdpfilt_verdict f m fs;
     let (r, stats') = xdp_stats_record_action stats m (action_u32 action);
     Some (r, fs', stats')
   }"

subsection \<open>Parsers that may be trusted with a header\<close>

text \<open>
  What the filter needs of a parser, weaker than \<open>hdr_parser\<close>: it returns, and if it accepts,
  the whole fixed header is in the packet and so is the new cursor. The stronger contract
  gives this one.
\<close>

locale hdr_reader =
  fixes parse :: "xdp_md \<Rightarrow> ptr \<Rightarrow> ptr \<Rightarrow> parse_result" and hdrlen :: nat
  assumes reads: "cursor_in m nh \<Longrightarrow> \<exists>r nh' h. parse m nh (data_end m) = Some (r, nh', h) \<and>
    (0 \<le> r \<longrightarrow> h = Some nh \<and> nh + hdrlen \<le> data_end m \<and> cursor_in m nh')"
begin

lemma read_cases:
  assumes "cursor_in m nh"
  obtains (refused) r nh' h where "parse m nh (data_end m) = Some (r, nh', h)" "r < 0"
  | (accepted) r nh' where "parse m nh (data_end m) = Some (r, nh', Some nh)" "0 \<le> r"
      "nh + hdrlen \<le> data_end m" "cursor_in m nh'"
  using reads [OF assms] by (metis not_less)

end

sublocale hdr_parser \<subseteq> hdr_reader
proof
  fix m nh assume c: "cursor_in m nh"
  obtain r nh' h where r: "parse m nh (data_end m) = Some (r, nh', h)" "nh \<le> nh'" "nh' \<le> data_end m"
    "r \<noteq> -1 \<longrightarrow> 0 \<le> r \<and> h = Some nh \<and> nh + hdrlen \<le> nh'"
    using safe [OF c] by blast
  then show "\<exists>r nh' h. parse m nh (data_end m) = Some (r, nh', h) \<and>
      (0 \<le> r \<longrightarrow> h = Some nh \<and> nh + hdrlen \<le> data_end m \<and> cursor_in m nh')"
    using c by (auto simp: cursor_in_def)
qed

lemma skip_ip6hdrext_in:
  "data m \<le> nh \<Longrightarrow> \<exists>r nh'. xt_skip_ip6hdrext m (data_end m) n nh ty = Some (r, nh') \<and>
     (0 \<le> r \<longrightarrow> data m \<le> nh' \<and> nh' \<le> data_end m)"
proof (induction n arbitrary: nh ty)
  case (Suc n)
  show ?case
  proof (cases "nh + 2 \<le> data_end m")
    case True
    then have "ld8 m nh = Some (le_dec (seg nh 1 (frame m)))" "ld8 m (nh + 1) = Some (le_dec (seg (nh + 1) 1 (frame m)))"
      using Suc.prems by (simp_all add: mem_simps)
    moreover have "data m \<le> nh + x" for x using Suc.prems by simp
    ultimately show ?thesis using True Suc by (simp add: Let_def)
  qed (use Suc.prems in auto)
qed simp

interpretation xt_eth: hdr_reader xt_parse_ethhdr sizeof_ethhdr
proof
  fix m nh assume c: "cursor_in m nh"
  show "\<exists>r nh' h. xt_parse_ethhdr m nh (data_end m) = Some (r, nh', h) \<and>
      (0 \<le> r \<longrightarrow> h = Some nh \<and> nh + 14 \<le> data_end m \<and> cursor_in m nh')"
  proof (cases "nh + 14 \<le> data_end m")
    case True
    then have "cursor_in m (nh + 14)" using c by (simp add: cursor_in_def)
    from vlan_loop_total [OF this, of XT_VLAN_MAX_DEPTH 0 "le_dec (seg (nh + 12) 2 (frame m))" None]
    obtain vlh h vl where "vlan_loop m (data_end m) XT_VLAN_MAX_DEPTH 0 (nh + 14)
        (le_dec (seg (nh + 12) 2 (frame m))) None = Some (vlh, h, vl)" "nh + 14 \<le> vlh" "vlh \<le> data_end m" by blast
    then show ?thesis using True c by (simp add: xt_parse_ethhdr_def Let_def mem_simps cursor_in_def)
  qed (simp add: xt_parse_ethhdr_def)
qed

interpretation xt_ip4: hdr_reader xt_parse_iphdr sizeof_iphdr
  by unfold_locales (auto simp: xt_parse_iphdr_def cursor_in_def Let_def mem_simps)

interpretation xt_ip6: hdr_reader xt_parse_ip6hdr sizeof_ipv6hdr
proof
  fix m nh assume c: "cursor_in m nh"
  show "\<exists>r nh' h. xt_parse_ip6hdr m nh (data_end m) = Some (r, nh', h) \<and>
      (0 \<le> r \<longrightarrow> h = Some nh \<and> nh + 40 \<le> data_end m \<and> cursor_in m nh')"
  proof (cases "nh + 40 \<le> data_end m")
    case True
    have "data m \<le> nh + 40" using c by (simp add: cursor_in_def)
    from skip_ip6hdrext_in [OF this, of IPV6_EXT_MAX_CHAIN "le_dec (seg (nh + 6) 1 (frame m))"]
    show ?thesis using True c by (auto simp: xt_parse_ip6hdr_def mem_simps cursor_in_def)
  qed (simp add: xt_parse_ip6hdr_def)
qed

interpretation xt_icmp6: hdr_parser xt_parse_icmp6hdr sizeof_icmp6hdr
  by unfold_locales
    (auto simp: xt_parse_icmp6hdr_def cursor_in_def Let_def mem_simps split: if_splits)

interpretation xt_icmp: hdr_parser xt_parse_icmphdr sizeof_icmphdr
  by unfold_locales
    (auto simp: xt_parse_icmphdr_def cursor_in_def Let_def mem_simps split: if_splits)

interpretation xt_icmp_common: hdr_parser xt_parse_icmphdr_common sizeof_icmphdr_common
  by unfold_locales
    (auto simp: xt_parse_icmphdr_common_def cursor_in_def Let_def mem_simps split: if_splits)

interpretation xt_udp: hdr_reader xt_parse_udphdr sizeof_udphdr
  by unfold_locales (auto simp: xt_parse_udphdr_def cursor_in_def Let_def mem_simps)

interpretation xt_tcp: hdr_reader xt_parse_tcphdr sizeof_tcphdr
  by unfold_locales (auto simp: xt_parse_tcphdr_def cursor_in_def Let_def mem_simps)

subsection \<open>Rules\<close>

text \<open>
  The abstract filter: a packet has keys, each with the flags a rule must have to apply, and the
  first key with such a rule decides.
\<close>

datatype fkey = KEth "u8 list" | KIp4 u32 | KIp6 "u8 list" | KPort u32

fun fget :: "filters \<Rightarrow> fkey \<Rightarrow> u64 option" where
  "fget fs (KEth a) = filter_ethernet fs a"
| "fget fs (KIp4 a) = filter_ipv4 fs a"
| "fget fs (KIp6 a) = filter_ipv6 fs a"
| "fget fs (KPort p) = filter_ports fs p"

fun fput :: "filters \<Rightarrow> fkey \<Rightarrow> u64 \<Rightarrow> filters" where
  "fput fs (KEth a) v = fs\<lparr>filter_ethernet := (filter_ethernet fs)(a \<mapsto> v)\<rparr>"
| "fput fs (KIp4 a) v = fs\<lparr>filter_ipv4 := (filter_ipv4 fs)(a \<mapsto> v)\<rparr>"
| "fput fs (KIp6 a) v = fs\<lparr>filter_ipv6 := (filter_ipv6 fs)(a \<mapsto> v)\<rparr>"
| "fput fs (KPort p) v = fs\<lparr>filter_ports := (filter_ports fs)(p \<mapsto> v)\<rparr>"

fun run_rules :: "features \<Rightarrow> (fkey \<times> u64) list \<Rightarrow> filters \<Rightarrow> xdp_action \<times> filters" where
  "run_rules f [] fs = (VERDICT_MISS f, fs)"
| "run_rules f ((k, fl) # ks) fs =
     (case fget fs k of
        Some v \<Rightarrow> if v AND fl = fl then (VERDICT_HIT f, fput fs k (v + 64)) else run_rules f ks fs
      | None \<Rightarrow> run_rules f ks fs)"

lemma fget_fput: "fget (fput fs k v) k' = (if k' = k then Some v else fget fs k')"
  by (cases k; cases k') auto

lemma hit_miss [simp]: "VERDICT_HIT f \<noteq> VERDICT_MISS f" "VERDICT_MISS f \<noteq> VERDICT_HIT f"
  "VERDICT_MISS f \<noteq> XDP_ABORTED" "VERDICT_HIT f \<noteq> XDP_ABORTED"
  by (simp_all add: VERDICT_HIT_def VERDICT_MISS_def)

lemma run_rules_cases:
  obtains (miss) "run_rules f ks fs = (VERDICT_MISS f, fs)"
  | (hit) k v fl where "(k, fl) \<in> set ks" "fget fs k = Some v" "v AND fl = fl"
      "run_rules f ks fs = (VERDICT_HIT f, fput fs k (v + 64))"
proof (induction ks arbitrary: thesis)
  case (Cons kf ks)
  obtain k fl where kf: "kf = (k, fl)" by (cases kf)
  show ?case
  proof (cases "\<exists>v. fget fs k = Some v \<and> v AND fl = fl")
    case True
    then show ?thesis using Cons.prems(2) [of k fl] kf by auto
  next
    case False
    then have "run_rules f (kf # ks) fs = run_rules f ks fs" by (auto simp: kf split: option.split)
    then show ?thesis using Cons.IH [OF Cons.prems(1)] Cons.prems(2) by (metis list.set_intros(2))
  qed
qed simp

lemma run_rules_append:
  "run_rules f (ks @ ks') fs =
     (if fst (run_rules f ks fs) = VERDICT_MISS f then run_rules f ks' fs else run_rules f ks fs)"
  by (induction ks) (auto split: option.split)

lemma CHECK_MAP_None: "CHECK_MAP m k fl = None \<longleftrightarrow> (\<forall>v. m k = Some v \<longrightarrow> v AND fl \<noteq> fl)"
  by (auto simp: CHECK_MAP_def split: option.split)

lemmas lookup_defs = lookup_verdict_ethernet_def lookup_verdict_ipv4_def lookup_verdict_ipv6_def
  lookup_verdict_udp_def lookup_verdict_tcp_def CHECK_MAP_def COUNTER_SHIFT_def

lemma lookup_rules:
  assumes "wf_ctx m" "data m \<le> h"
  shows "h + 14 \<le> data_end m \<Longrightarrow> lookup_verdict_ethernet f m h fs =
      Some (run_rules f [(KEth (seg h 6 (frame m)), MAP_FLAG_DST), (KEth (seg (h + 6) 6 (frame m)), MAP_FLAG_SRC)] fs)"
    and "h + 20 \<le> data_end m \<Longrightarrow> lookup_verdict_ipv4 f m h fs =
      Some (run_rules f [(KIp4 (le_dec (seg (h + 16) 4 (frame m))), MAP_FLAG_DST), (KIp4 (le_dec (seg (h + 12) 4 (frame m))), MAP_FLAG_SRC)] fs)"
    and "h + 40 \<le> data_end m \<Longrightarrow> lookup_verdict_ipv6 f m h fs =
      Some (run_rules f [(KIp6 (seg (h + 24) 16 (frame m)), MAP_FLAG_DST), (KIp6 (seg (h + 8) 16 (frame m)), MAP_FLAG_SRC)] fs)"
    and "h + 8 \<le> data_end m \<Longrightarrow> lookup_verdict_udp f m h fs =
      Some (run_rules f [(KPort (ucast (le_dec (seg (h + 2) 2 (frame m)) :: u16)), MAP_FLAG_DST OR MAP_FLAG_UDP),
        (KPort (ucast (le_dec (seg h 2 (frame m)) :: u16)), MAP_FLAG_SRC OR MAP_FLAG_UDP)] fs)"
    and "h + 20 \<le> data_end m \<Longrightarrow> lookup_verdict_tcp f m h fs =
      Some (run_rules f [(KPort (ucast (le_dec (seg (h + 2) 2 (frame m)) :: u16)), MAP_FLAG_DST OR MAP_FLAG_TCP),
        (KPort (ucast (le_dec (seg h 2 (frame m)) :: u16)), MAP_FLAG_SRC OR MAP_FLAG_TCP)] fs)"
  using assms by (auto simp: lookup_defs mem_simps split: option.split)

subsection \<open>The filter decides by rules\<close>

definition decides :: "features \<Rightarrow> filters \<Rightarrow> (xdp_action \<times> filters) option \<Rightarrow> bool" where
  "decides f fs x \<longleftrightarrow> x = Some (XDP_ABORTED, fs) \<or> (\<exists>ks. x = Some (run_rules f ks fs))"

lemma decides_miss [simp]: "decides f fs (Some (VERDICT_MISS f, fs))"
  unfolding decides_def by (rule disjI2, rule exI [of _ "[]"]) simp

lemma check_header_rules:
  assumes "parsed = Some (r, nh', Some p)" "0 \<le> r" "lookup f m p fs = Some (run_rules f ks fs)"
  shows "check_header f m nh fs parsed True lookup rest =
    (if fst (run_rules f ks fs) = VERDICT_MISS f then rest r nh' fs else Some (run_rules f ks fs))"
  by (cases rule: run_rules_cases [of f ks fs]) (use assms in \<open>auto simp: check_header_def\<close>)

lemma check_header_decides:
  assumes "hdr_reader parse n" "cursor_in m nh"
    "nh + n \<le> data_end m \<Longrightarrow> \<exists>ks. lookup f m nh fs = Some (run_rules f ks fs)"
    "\<And>r nh'. cursor_in m nh' \<Longrightarrow> decides f fs (rest r nh' fs)"
  shows "decides f fs (check_header f m nh fs (parse m nh (data_end m)) en lookup rest)"
proof (rule hdr_reader.read_cases [OF assms(1,2)])
  fix r nh' h assume "parse m nh (data_end m) = Some (r, nh', h)" "r < 0"
  then show ?thesis by (simp add: check_header_def decides_def)
next
  fix r nh'
  assume a: "parse m nh (data_end m) = Some (r, nh', Some nh)" "0 \<le> r" "nh + n \<le> data_end m" "cursor_in m nh'"
  obtain ks where ks: "lookup f m nh fs = Some (run_rules f ks fs)" using assms(3) a by blast
  show ?thesis
  proof (cases en)
    case True
    have "decides f fs (Some (run_rules f ks fs))" by (auto simp: decides_def)
    then show ?thesis
      using check_header_rules [where lookup = lookup and rest = rest, OF a(1,2) ks] True assms(4) [OF a(4)] by simp
  next
    case False
    then show ?thesis using a assms(4) by (simp add: check_header_def)
  qed
qed

lemma cursor_inD: "cursor_in m nh \<Longrightarrow> wf_ctx m \<and> data m \<le> nh"
  by (simp add: cursor_in_def)

lemma filt_ports_decides:
  assumes "cursor_in m nh"
  shows "decides f fs (filt_ports f m ip_type nh fs)"
proof -
  have t: "decides f fs (check_header f m nh' fs (xt_parse_tcphdr m nh' (data_end m)) True lookup_verdict_tcp
      (\<lambda>r nh fs. Some (VERDICT_MISS f, fs)))" if "cursor_in m nh'" for nh'
    by (rule check_header_decides [OF xt_tcp.hdr_reader_axioms that])
      (use cursor_inD [OF that] in \<open>blast intro: lookup_rules(5) | simp\<close>)+
  have u: "decides f fs (check_header f m nh fs (xt_parse_udphdr m nh (data_end m)) True lookup_verdict_udp rest)"
    if "\<And>r nh'. cursor_in m nh' \<Longrightarrow> decides f fs (rest r nh' fs)" for rest
    by (rule check_header_decides [where lookup = lookup_verdict_udp and rest = rest, OF xt_udp.hdr_reader_axioms assms _ that])
      (use cursor_inD [OF assms] in \<open>blast intro: lookup_rules(4)\<close>)+
  show ?thesis unfolding filt_ports_def Let_def using t assms by (auto intro!: u)
qed

lemma filt_ip_decides:
  assumes "cursor_in m nh"
  shows "decides f fs (filt_ip f m eth_type nh fs)"
proof -
  have "decides f fs (check_header f m nh fs (xt_parse_iphdr m nh (data_end m)) en lookup_verdict_ipv4 (filt_ports f m))" for en
    by (rule check_header_decides [OF xt_ip4.hdr_reader_axioms assms])
      (use cursor_inD [OF assms] in \<open>blast intro: lookup_rules(2) filt_ports_decides\<close>)+
  moreover have "decides f fs (check_header f m nh fs (xt_parse_ip6hdr m nh (data_end m)) en lookup_verdict_ipv6 (filt_ports f m))" for en
    by (rule check_header_decides [OF xt_ip6.hdr_reader_axioms assms])
      (use cursor_inD [OF assms] in \<open>blast intro: lookup_rules(3) filt_ports_decides\<close>)+
  ultimately show ?thesis by (simp add: filt_ip_def)
qed

lemma verdict_decides:
  assumes "wf_ctx m"
  shows "decides f fs (xdpfilt_verdict f m fs)"
proof -
  have c: "cursor_in m (data m)" using assms by (simp add: cursor_in_def wf_ctx_def)
  show ?thesis unfolding xdpfilt_verdict_def
    by (rule check_header_decides [OF xt_eth.hdr_reader_axioms c])
      (use cursor_inD [OF c] in \<open>blast intro: lookup_rules(1) filt_ip_decides\<close>)+
qed

lemma low_bits_kept: "(v + 64) AND 63 = v AND (63 :: u64)"
proof -
  have m: "unat (w AND 63) = unat w mod 64" for w :: u64
  proof -
    have "w AND 63 = take_bit 6 w" by (simp add: take_bit_eq_mask mask_eq_exp_minus_1)
    also have "unat \<dots> = take_bit 6 (unat w)" by (rule unsigned_take_bit_eq)
    also have "\<dots> = unat w mod 64" by (simp add: take_bit_eq_mod)
    finally show ?thesis .
  qed
  have "unat (v + 64) mod 64 = (unat v + 64) mod 2 ^ 64 mod 64" by (simp add: unat_word_ariths(1))
  also have "\<dots> = unat v mod 64" by (simp add: mod_mod_cancel)
  finally show ?thesis by (simp add: word_unat_eq_iff m)
qed

subsection \<open>Properties\<close>

text \<open>
  C7. Whatever the packet and the rules, the filter returns without an access outside the packet.
  Only a hit changes a map: it raises the counter of one existing rule by one and leaves every
  flag alone, also when the counter wraps. The verdict is counted and returned.
\<close>

theorem xdpfilt_safe:
  assumes "wf_ctx m" "stats_map_ok stats"
  shows "\<exists>a fs' stats'. xdpfilt f m fs stats = Some (action_u32 a, fs', stats') \<and>
    stats' = snd (xdp_stats_record_action stats m (action_u32 a)) \<and>
    a \<in> {XDP_ABORTED, VERDICT_MISS f, VERDICT_HIT f} \<and>
    (if a = VERDICT_HIT f then \<exists>k v. fget fs k = Some v \<and> fs' = fput fs k (v + push_bit COUNTER_SHIFT 1) else fs' = fs) \<and>
    (\<forall>k. map_option (\<lambda>v. v AND 63) (fget fs' k) = map_option (\<lambda>v. v AND 63) (fget fs k))"
proof -
  have r: "fst (xdp_stats_record_action stats m (action_u32 a)) = action_u32 a" for a
    using stats_map_okD [OF assms(2), of "action_u32 a"]
    by (cases a) (auto simp: xdp_stats_record_action_def XDP_ACTION_MAX_def Let_def word_le_nat_alt word_less_nat_alt)
  have x: "xdpfilt f m fs stats = Some (action_u32 a, fs', snd (xdp_stats_record_action stats m (action_u32 a)))"
    if "xdpfilt_verdict f m fs = Some (a, fs')" for a fs'
    using that r [of a] by (simp add: xdpfilt_def case_prod_unfold Let_def)
  from verdict_decides [OF assms(1), of f fs] consider "xdpfilt_verdict f m fs = Some (XDP_ABORTED, fs)"
    | ks where "xdpfilt_verdict f m fs = Some (run_rules f ks fs)" by (auto simp: decides_def)
  then show ?thesis
  proof cases
    case 1
    show ?thesis
      by (rule exI [of _ XDP_ABORTED], rule exI [of _ fs]) (use x [OF 1] hit_miss(4) [of f, symmetric] in auto)
  next
    case (2 ks)
    show ?thesis
    proof (cases rule: run_rules_cases [of f ks fs])
      case miss
      show ?thesis
        by (rule exI [of _ "VERDICT_MISS f"], rule exI [of _ fs]) (use x [of "VERDICT_MISS f" fs] 2 miss in auto)
    next
      case (hit k v fl)
      have "map_option (\<lambda>v. v AND 63) (fget (fput fs k (v + 64)) k') = map_option (\<lambda>v. v AND 63) (fget fs k')" for k'
        using hit(2) by (simp add: fget_fput low_bits_kept)
      then show ?thesis
        by (intro exI [of _ "VERDICT_HIT f"] exI [of _ "fput fs k (v + 64)"])
          (use x [of "VERDICT_HIT f" "fput fs k (v + 64)"] 2 hit in \<open>auto simp: COUNTER_SHIFT_def\<close>)
    qed
  qed
qed

definition all_deny :: features where
  "all_deny = \<lparr>FILT_MODE_DENY = True, FILT_MODE_ETHERNET = True, FILT_MODE_IPV4 = True,
     FILT_MODE_IPV6 = True, FILT_MODE_UDP = True, FILT_MODE_TCP = True\<rparr>"

definition no_rules :: filters where
  "no_rules = \<lparr>filter_ports = (\<lambda>k. None), filter_ipv4 = (\<lambda>k. None), filter_ipv6 = (\<lambda>k. None),
     filter_ethernet = (\<lambda>k. None)\<rparr>"

definition zero_stats :: stats_map where
  "zero_stats = (\<lambda>k. if k < 5 then Some \<lparr>rx_packets = 0, rx_bytes = 0\<rparr> else None)"

text \<open>A small IPv4 packet with a UDP datagram from port 9 to port 7.\<close>

definition demo_udp :: "u8 list" where
  "demo_udp = [1, 2, 3, 4, 5, 6, 11, 12, 13, 14, 15, 16, 8, 0,
     0x45, 0, 0, 28, 0, 0, 0, 0, 64, 17, 0, 0, 10, 0, 0, 1, 10, 0, 0, 2, 0, 9, 0, 7, 0, 8, 0, 0]"

definition port_rule :: filters where
  "port_rule = no_rules\<lparr>filter_ports := (\<lambda>k. if k = 0x0700 then Some 10 else None)\<rparr>"

lemma zero_stats_ok: "stats_map_ok zero_stats"
  by (auto simp: stats_map_ok_def zero_stats_def XDP_ACTION_MAX_def split: if_splits)

theorem xdpfilt_safe_witness:
  "\<exists>a fs' stats'. xdpfilt all_deny (ctx_of demo_udp) port_rule zero_stats = Some (action_u32 a, fs', stats') \<and>
    a = XDP_PASS \<and> fget fs' (KPort 0x0700) = Some 74"
proof -
  obtain a fs' stats' where r: "xdpfilt all_deny (ctx_of demo_udp) port_rule zero_stats = Some (action_u32 a, fs', stats')"
    "a \<in> {XDP_ABORTED, VERDICT_MISS all_deny, VERDICT_HIT all_deny}"
    using xdpfilt_safe [OF wf_ctx_of zero_stats_ok, of all_deny demo_udp port_rule] by blast
  have "map_option (\<lambda>(a, fs, st). (a, filter_ports fs 0x0700))
      (xdpfilt all_deny (ctx_of demo_udp) port_rule zero_stats) = Some (2, Some 74)"
    by code_simp
  then have "action_u32 a = 2" "filter_ports fs' 0x0700 = Some 74" using r(1) by auto
  then have "a = XDP_PASS" "fget fs' (KPort 0x0700) = Some 74" by (cases a; simp)+
  then show ?thesis using r(1) by blast
qed

text \<open>The keys of an untagged IPv4 packet, in the order in which they are tried.\<close>

definition l4_start :: "u8 list \<Rightarrow> nat" where
  "l4_start pkt = 14 + 4 * unat (ihl_of (pkt ! 14))"

definition port_keys :: "u8 list \<Rightarrow> nat \<Rightarrow> u64 \<Rightarrow> (fkey \<times> u64) list" where
  "port_keys pkt l fl = [(KPort (ucast (le_dec (seg (l + 2) 2 pkt) :: u16)), MAP_FLAG_DST OR fl),
     (KPort (ucast (le_dec (seg l 2 pkt) :: u16)), MAP_FLAG_SRC OR fl)]"

definition ipv4_keys :: "features \<Rightarrow> u8 list \<Rightarrow> (fkey \<times> u64) list" where
  "ipv4_keys f pkt =
     (if FILT_MODE_ETHERNET f then [(KEth (seg 0 6 pkt), MAP_FLAG_DST), (KEth (seg 6 6 pkt), MAP_FLAG_SRC)] else []) @
     (if FILT_MODE_IPV4 f then [(KIp4 (le_dec (seg 30 4 pkt)), MAP_FLAG_DST), (KIp4 (le_dec (seg 26 4 pkt)), MAP_FLAG_SRC)] else []) @
     (if FILT_MODE_UDP f \<and> pkt ! 23 = IPPROTO_UDP then port_keys pkt (l4_start pkt) MAP_FLAG_UDP
      else if FILT_MODE_TCP f \<and> pkt ! 23 = IPPROTO_TCP then port_keys pkt (l4_start pkt) MAP_FLAG_TCP else [])"

definition ipv4_fits :: "features \<Rightarrow> u8 list \<Rightarrow> bool" where
  "ipv4_fits f pkt \<longleftrightarrow> 34 \<le> length pkt \<and> seg 12 2 pkt = [8, 0] \<and> l4_start pkt \<le> length pkt \<and>
     (FILT_MODE_UDP f \<and> pkt ! 23 = IPPROTO_UDP \<longrightarrow>
        l4_start pkt + 8 \<le> length pkt \<and> 8 \<le> uint (bpf_ntohs (le_dec (seg (l4_start pkt + 4) 2 pkt)))) \<and>
     (FILT_MODE_TCP f \<and> pkt ! 23 = IPPROTO_TCP \<longrightarrow>
        l4_start pkt + 20 \<le> length pkt \<and> l4_start pkt + 4 * unat (doff_of (pkt ! (l4_start pkt + 12))) \<le> length pkt)"

lemma check_header_keys:
  assumes "parsed = Some (r, nh', Some p)" "0 \<le> r" "lookup f m p fs = Some (run_rules f ks fs)"
    "rest r nh' fs = Some (run_rules f ks' fs)"
  shows "check_header f m nh fs parsed en lookup rest = Some (run_rules f ((if en then ks else []) @ ks') fs)"
proof (cases en)
  case True
  then show ?thesis
    using check_header_rules [where lookup = lookup and rest = rest, OF assms(1-3)] assms(4)
    by (simp add: run_rules_append)
next
  case False
  then show ?thesis using assms by (simp add: check_header_def)
qed

lemma seg_frame:
  assumes "wf_ctx m" "q + n \<le> length (packet m)"
  shows "seg (data m + q) n (frame m) = seg q n (packet m)"
  using seg_packet [OF assms(1), of q n] assms(2) length_packet [OF assms(1)] by simp

lemma ports_keys:
  assumes "wf_ctx m" and fit: "ipv4_fits f (packet m)"
  shows "filt_ports f m (uint (packet m ! 23)) (data m + l4_start (packet m)) fs =
    Some (run_rules f (if FILT_MODE_UDP f \<and> packet m ! 23 = IPPROTO_UDP then port_keys (packet m) (l4_start (packet m)) MAP_FLAG_UDP
      else if FILT_MODE_TCP f \<and> packet m ! 23 = IPPROTO_TCP then port_keys (packet m) (l4_start (packet m)) MAP_FLAG_TCP else []) fs)"
proof -
  let ?p = "packet m" and ?l = "l4_start (packet m)"
  let ?h = "data m + ?l"
  have e: "data_end m = data m + length ?p" by (rule data_end_packet [OF assms(1)])
  have s: "seg (?h + q) n (frame m) = seg (?l + q) n ?p" if "?l + q + n \<le> length ?p" for q n
    using seg_frame [OF assms(1), of "?l + q" n] that by (simp add: add.assoc)
  consider (udp) "FILT_MODE_UDP f" "?p ! 23 = IPPROTO_UDP" | (tcp) "FILT_MODE_TCP f" "?p ! 23 = IPPROTO_TCP"
    | (none) "\<not> (FILT_MODE_UDP f \<and> ?p ! 23 = IPPROTO_UDP)" "\<not> (FILT_MODE_TCP f \<and> ?p ! 23 = IPPROTO_TCP)" by blast
  then show ?thesis
  proof cases
    case udp
    then have f: "?l + 8 \<le> length ?p" "8 \<le> uint (bpf_ntohs (le_dec (seg (?l + 4) 2 ?p)))"
      using fit by (simp_all add: ipv4_fits_def)
    have "xt_parse_udphdr m ?h (data_end m) = Some (uint (bpf_ntohs (le_dec (seg (?l + 4) 2 ?p))) - 8, ?h + 8, Some ?h)"
      using f s [of 4 2] by (simp add: xt_parse_udphdr_def e mem_simps udp_payload_len Let_def)
    from check_header_keys [where lookup = lookup_verdict_udp and f = f and m = m and fs = fs and en = True and nh = ?h
        and rest = "\<lambda>r nh fs. Some (VERDICT_MISS f, fs)" and ks' = "[]", OF this]
    show ?thesis
      using udp f s [of 0 2] s [of 2 2] lookup_rules(4) [OF assms(1), of ?h f fs]
      by (simp add: filt_ports_def port_keys_def e del: run_rules.simps(2))
  next
    case tcp
    then have f: "?l + 20 \<le> length ?p" "?l + 4 * unat (doff_of (?p ! (?l + 12))) \<le> length ?p"
      using fit by (simp_all add: ipv4_fits_def)
    have "le_dec (seg (?h + 12) 1 (frame m)) = ?p ! (?l + 12)" using f s [of 12 1] by simp
    then have "xt_parse_tcphdr m ?h (data_end m) = Some (int (unat (doff_of (?p ! (?l + 12))) * 4), ?h + 20, Some ?h)"
      using f by (simp add: xt_parse_tcphdr_def e mem_simps Let_def mult.commute)
    from check_header_keys [where lookup = lookup_verdict_tcp and f = f and m = m and fs = fs and en = True and nh = ?h
        and rest = "\<lambda>r nh fs. Some (VERDICT_MISS f, fs)" and ks' = "[]", OF this]
    show ?thesis
      using tcp f s [of 0 2] s [of 2 2] lookup_rules(5) [OF assms(1), of ?h f fs]
      by (simp add: filt_ports_def port_keys_def e del: run_rules.simps(2))
  next
    case none
    have n: "uint (?p ! 23) = uint IPPROTO_UDP \<longleftrightarrow> ?p ! 23 = IPPROTO_UDP"
      "uint (?p ! 23) = uint IPPROTO_TCP \<longleftrightarrow> ?p ! 23 = IPPROTO_TCP"
      by (rule word_uint_eq_iff [symmetric])+
    have "filt_ports f m (uint (?p ! 23)) ?h fs = Some (VERDICT_MISS f, fs)"
      unfolding filt_ports_def Let_def n if_not_P [OF none(1)] if_not_P [OF none(2)] ..
    then show ?thesis unfolding if_not_P [OF none(1)] if_not_P [OF none(2)] run_rules.simps(1) .
  qed
qed

text \<open>
  C8. On every untagged IPv4 packet whose headers fit, the verdict is that of the first matching
  rule among the enabled ones, tried in the order destination and source MAC address, destination
  and source IPv4 address, destination and source port of the transport protocol; a port rule
  applies only to the protocol it is for, and a rule only to the direction it is for.
\<close>

theorem xdpfilt_ipv4_rules:
  assumes "wf_ctx m" "ipv4_fits f (packet m)"
  shows "xdpfilt_verdict f m fs = Some (run_rules f (ipv4_keys f (packet m)) fs)"
proof -
  let ?p = "packet m" and ?l = "l4_start (packet m)"
  have e: "data_end m = data m + length ?p" by (rule data_end_packet [OF assms(1)])
  have f: "34 \<le> length ?p" "seg 12 2 ?p = [8, 0]" "?l \<le> length ?p" using assms(2) by (auto simp: ipv4_fits_def)
  note s = seg_frame [OF assms(1)]
  have t: "(le_dec [8, 0] :: u16) = bpf_htons ETH_P_IP" "\<not> proto_is_vlan (bpf_htons ETH_P_IP)" by code_simp+
  have eth: "xt_parse_ethhdr m (data m) (data_end m) = Some (uint (bpf_htons ETH_P_IP), data m + 14, Some (data m))"
    using f s [of 12 2] t by (simp add: xt_parse_ethhdr_def XT_VLAN_MAX_DEPTH_def e mem_simps numeral_eq_Suc Let_def)
  have b: "le_dec (seg (data m + 14) 1 (frame m)) = ?p ! 14" "le_dec (seg (data m + 14 + 9) 1 (frame m)) = ?p ! 23"
    using f s [of 14 1] s [of 23 1] by (simp_all add: add.assoc)
  have ip: "xt_parse_iphdr m (data m + 14) (data_end m) = Some (uint (?p ! 23), data m + ?l, Some (data m + 14))"
    using f b by (simp add: xt_parse_iphdr_def e mem_simps Let_def l4_start_def mult.commute)
  let ?ports = "if FILT_MODE_UDP f \<and> ?p ! 23 = IPPROTO_UDP then port_keys ?p ?l MAP_FLAG_UDP
      else if FILT_MODE_TCP f \<and> ?p ! 23 = IPPROTO_TCP then port_keys ?p ?l MAP_FLAG_TCP else []"
  let ?ip = "[(KIp4 (le_dec (seg 30 4 ?p)), MAP_FLAG_DST), (KIp4 (le_dec (seg 26 4 ?p)), MAP_FLAG_SRC)]"
  have "lookup_verdict_ipv4 f m (data m + 14) fs = Some (run_rules f ?ip fs)"
    using lookup_rules(2) [OF assms(1), of "data m + 14" f fs] f s [of 30 4] s [of 26 4]
    by (simp add: e add.assoc del: run_rules.simps)
  from check_header_keys [where lookup = lookup_verdict_ipv4 and rest = "filt_ports f m" and nh = "data m + 14"
      and en = "FILT_MODE_IPV4 f", OF ip _ this ports_keys [OF assms]]
  have l3: "filt_ip f m (uint (bpf_htons ETH_P_IP)) (data m + 14) fs =
      Some (run_rules f ((if FILT_MODE_IPV4 f then ?ip else []) @ ?ports) fs)"
    by (auto simp: filt_ip_def simp del: run_rules.simps(2))
  have "lookup_verdict_ethernet f m (data m) fs =
      Some (run_rules f [(KEth (seg 0 6 ?p), MAP_FLAG_DST), (KEth (seg 6 6 ?p), MAP_FLAG_SRC)] fs)"
    using lookup_rules(1) [OF assms(1), of "data m" f fs] f s [of 0 6] s [of 6 6]
    by (simp add: e del: run_rules.simps)
  from check_header_keys [where lookup = lookup_verdict_ethernet and rest = "filt_ip f m" and nh = "data m"
      and en = "FILT_MODE_ETHERNET f", OF eth _ this l3]
  show ?thesis unfolding xdpfilt_verdict_def ipv4_keys_def by simp
qed

theorem xdpfilt_ipv4_rules_witness:
  "xdpfilt_verdict all_deny (ctx_of demo_udp) port_rule =
     Some (XDP_PASS, fput port_rule (KPort 0x0700) 74)"
proof -
  have "ipv4_fits all_deny (packet (ctx_of demo_udp))" unfolding packet_ctx_of by code_simp
  from xdpfilt_ipv4_rules [OF wf_ctx_of this, of port_rule]
  have r: "xdpfilt_verdict all_deny (ctx_of demo_udp) port_rule = Some (run_rules all_deny (ipv4_keys all_deny demo_udp) port_rule)"
    by simp
  have "ipv4_keys all_deny demo_udp = [(KEth [1, 2, 3, 4, 5, 6], 2), (KEth [11, 12, 13, 14, 15, 16], 1),
      (KIp4 0x0200000a, 2), (KIp4 0x0100000a, 1), (KPort 0x0700, 10), (KPort 0x0900, 9)]"
    by code_simp
  then show ?thesis
    unfolding r by (simp add: port_rule_def no_rules_def VERDICT_HIT_def all_deny_def)
qed

end
