(* ===== verification/Libbpf_Hashmap.thy ===== *)
theory Libbpf_Hashmap
  imports C_Runtime
begin

section \<open>The hash map of libbpf\<close>

text \<open>
  \<open>lib/libbpf/src/hashmap.c\<close> and \<open>hashmap.h\<close>: a chained hash table whose hash function and
  equality are given by the user and may depend on a context. A chain is the list of its
  entries; a table without storage has no buckets. The context is passed to every operation as
  the contents it has at the time of the call. Operations return \<open>None\<close> if they access a bucket
  outside the array, so every theorem about their result also says that they do not.
  The outcome of an allocation is an argument.

  The locale \<open>hash_contract\<close> states what the table asks of the two functions; its lemmas
  describe every operation by the entries that match a key. The identity functions of
  \<open>btf.c\<close> are an instance here, those of the string set in theory \<open>Libbpf_Strset\<close>.
\<close>

named_theorems hm_simps

record hashmap_entry =
  hm_key :: u64
  hm_value :: u64

record 'c hashmap =
  hash_fn :: "u64 \<Rightarrow> 'c \<Rightarrow> u64"
  equal_fn :: "u64 \<Rightarrow> u64 \<Rightarrow> 'c \<Rightarrow> bool"
  buckets :: "hashmap_entry list list"
  cap :: u64
  cap_bits :: u64
  sz :: u64

datatype hashmap_insert_strategy = HASHMAP_ADD | HASHMAP_SET | HASHMAP_UPDATE | HASHMAP_APPEND

definition HASHMAP_MIN_CAP_BITS :: u64 where
  "HASHMAP_MIN_CAP_BITS = 2"

subsection \<open>Operations\<close>

definition hash_bits :: "u64 \<Rightarrow> u64 \<Rightarrow> u64" where
  "hash_bits h bits = (if bits = 0 then 0 else drop_bit (64 - unat bits) (h * 11400714819323198485))"

text \<open>Characters are signed: a byte above 127 enters the sum as a negative number.\<close>

fun str_hash_from :: "u64 \<Rightarrow> u8 list \<Rightarrow> u64" where
  "str_hash_from h [] = h"
| "str_hash_from h (b # bs) = str_hash_from (h * 31 + scast b) bs"

definition str_hash :: "u8 list \<Rightarrow> u64" where
  "str_hash s = str_hash_from 0 s"

definition bucket :: "hashmap_entry list list \<Rightarrow> u64 \<Rightarrow> hashmap_entry list option" where
  "bucket bs h = (if unat h < length bs then Some (bs ! unat h) else None)"

definition hashmap_add_entry ::
  "hashmap_entry list list \<Rightarrow> u64 \<Rightarrow> hashmap_entry \<Rightarrow> hashmap_entry list list option" where
  "hashmap_add_entry bs h e = map_option (\<lambda>c. bs[unat h := e # c]) (bucket bs h)"

definition hashmap_del_entry ::
  "hashmap_entry list list \<Rightarrow> u64 \<Rightarrow> nat \<Rightarrow> hashmap_entry list list option" where
  "hashmap_del_entry bs h i = map_option (\<lambda>c. bs[unat h := take i c @ drop (Suc i) c]) (bucket bs h)"

definition hashmap__init ::
  "(u64 \<Rightarrow> 'c \<Rightarrow> u64) \<Rightarrow> (u64 \<Rightarrow> u64 \<Rightarrow> 'c \<Rightarrow> bool) \<Rightarrow> 'c hashmap" where
  "hashmap__init hf ef = \<lparr>hash_fn = hf, equal_fn = ef, buckets = [], cap = 0, cap_bits = 0, sz = 0\<rparr>"

definition hashmap__new ::
  "bool \<Rightarrow> (u64 \<Rightarrow> 'c \<Rightarrow> u64) \<Rightarrow> (u64 \<Rightarrow> u64 \<Rightarrow> 'c \<Rightarrow> bool) \<Rightarrow> 'c hashmap eptr" where
  "hashmap__new malloc_ok hf ef = (if \<not> malloc_ok then ErrPtr (- ENOMEM) else Ptr (hashmap__init hf ef))"

definition hashmap__clear :: "'c hashmap \<Rightarrow> 'c hashmap" where
  "hashmap__clear m = m\<lparr>buckets := [], cap := 0, cap_bits := 0, sz := 0\<rparr>"

definition hashmap__size :: "'c hashmap \<Rightarrow> u64" where
  "hashmap__size m = sz m"

definition hashmap__capacity :: "'c hashmap \<Rightarrow> u64" where
  "hashmap__capacity m = cap m"

definition hashmap_needs_to_grow :: "'c hashmap \<Rightarrow> bool" where
  "hashmap_needs_to_grow m \<longleftrightarrow> cap m = 0 \<or> (sz m + 1) * 4 div 3 > cap m"

text \<open>The order in which \<open>hashmap__for_each_entry_safe\<close> visits the entries.\<close>

definition for_each_entry :: "'c hashmap \<Rightarrow> hashmap_entry list" where
  "for_each_entry m = concat (take (unat (cap m)) (buckets m))"

text \<open>\<open>calloc\<close> refuses a size that does not fit \<open>size_t\<close>.\<close>

definition calloc :: "bool \<Rightarrow> nat \<Rightarrow> nat \<Rightarrow> 'a \<Rightarrow> 'a list option" where
  "calloc ok n elem_sz z = (if ok \<and> int n * int elem_sz < 2 ^ 64 then Some (replicate n z) else None)"

fun rehash :: "(u64 \<Rightarrow> u64) \<Rightarrow> u64 \<Rightarrow> hashmap_entry list \<Rightarrow> hashmap_entry list list \<Rightarrow>
    hashmap_entry list list option" where
  "rehash hf bits [] bs = Some bs"
| "rehash hf bits (e # es) bs =
     hashmap_add_entry bs (hash_bits (hf (hm_key e)) bits) e \<bind> rehash hf bits es"

definition hashmap_grow :: "bool \<Rightarrow> 'c \<Rightarrow> 'c hashmap \<Rightarrow> (int \<times> 'c hashmap) option" where
  "hashmap_grow calloc_ok c m =
     (let bits = (if cap_bits m + 1 < HASHMAP_MIN_CAP_BITS then HASHMAP_MIN_CAP_BITS else cap_bits m + 1);
          new_cap = push_bit (unat bits) 1 in
      case calloc calloc_ok (unat new_cap) 8 [] of
        None \<Rightarrow> Some (- ENOMEM, m)
      | Some new_buckets \<Rightarrow>
          rehash (\<lambda>k. hash_fn m k c) bits (for_each_entry m) new_buckets \<bind>
            (\<lambda>bs. Some (0, m\<lparr>cap := new_cap, cap_bits := bits, buckets := bs\<rparr>)))"

fun chain_find :: "(hashmap_entry \<Rightarrow> bool) \<Rightarrow> hashmap_entry list \<Rightarrow> (nat \<times> hashmap_entry) option" where
  "chain_find P [] = None"
| "chain_find P (e # es) = (if P e then Some (0, e) else map_option (map_prod Suc id) (chain_find P es))"

definition hashmap_find_entry ::
  "'c hashmap \<Rightarrow> 'c \<Rightarrow> u64 \<Rightarrow> u64 \<Rightarrow> (nat \<times> hashmap_entry) option option" where
  "hashmap_find_entry m c k h =
     (if buckets m = [] then Some None
      else map_option (chain_find (\<lambda>e. equal_fn m (hm_key e) k c)) (bucket (buckets m) h))"

text \<open>
  The result: the error code, what is stored through \<open>old_key\<close> and \<open>old_value\<close>, the table.
\<close>

definition hashmap_insert ::
  "bool \<Rightarrow> bool \<Rightarrow> 'c \<Rightarrow> 'c hashmap \<Rightarrow> u64 \<Rightarrow> u64 \<Rightarrow> hashmap_insert_strategy \<Rightarrow>
   (int \<times> (u64 \<times> u64) \<times> 'c hashmap) option" where
  "hashmap_insert calloc_ok malloc_ok c m k v strategy =
     (let h = hash_bits (hash_fn m k c) (cap_bits m) in
      (if strategy \<noteq> HASHMAP_APPEND then hashmap_find_entry m c k h else Some None) \<bind> (\<lambda>found.
      case found of
        Some (i, e) \<Rightarrow>
          if strategy = HASHMAP_SET \<or> strategy = HASHMAP_UPDATE then
            bucket (buckets m) h \<bind> (\<lambda>ch.
              Some (0, (hm_key e, hm_value e),
                m\<lparr>buckets := (buckets m)[unat h := ch[i := \<lparr>hm_key = k, hm_value = v\<rparr>]]\<rparr>))
          else Some (- EEXIST, (hm_key e, hm_value e), m)
      | None \<Rightarrow>
          if strategy = HASHMAP_UPDATE then Some (- ENOENT, (0, 0), m)
          else
            (if hashmap_needs_to_grow m then hashmap_grow calloc_ok c m else Some (0, m)) \<bind> (\<lambda>(err, m).
              if err \<noteq> 0 then Some (err, (0, 0), m)
              else if \<not> malloc_ok then Some (- ENOMEM, (0, 0), m)
              else
                hashmap_add_entry (buckets m) (hash_bits (hash_fn m k c) (cap_bits m))
                    \<lparr>hm_key = k, hm_value = v\<rparr> \<bind> (\<lambda>bs.
                  Some (0, (0, 0), m\<lparr>buckets := bs, sz := sz m + 1\<rparr>)))))"

definition hashmap_find :: "'c \<Rightarrow> 'c hashmap \<Rightarrow> u64 \<Rightarrow> u64 option option" where
  "hashmap_find c m k =
     map_option (map_option (\<lambda>(i, e). hm_value e))
       (hashmap_find_entry m c k (hash_bits (hash_fn m k c) (cap_bits m)))"

definition hashmap_delete ::
  "'c \<Rightarrow> 'c hashmap \<Rightarrow> u64 \<Rightarrow> ((u64 \<times> u64) option \<times> 'c hashmap) option" where
  "hashmap_delete c m k =
     (let h = hash_bits (hash_fn m k c) (cap_bits m) in
      hashmap_find_entry m c k h \<bind> (\<lambda>found.
      case found of
        None \<Rightarrow> Some (None, m)
      | Some (i, e) \<Rightarrow>
          hashmap_del_entry (buckets m) h i \<bind> (\<lambda>bs.
            Some (Some (hm_key e, hm_value e), m\<lparr>buckets := bs, sz := sz m - 1\<rparr>))))"

definition btf_dedup_identity_hash_fn :: "u64 \<Rightarrow> unit \<Rightarrow> u64" where
  "btf_dedup_identity_hash_fn k c = k"

definition btf_dedup_equal_fn :: "u64 \<Rightarrow> u64 \<Rightarrow> unit \<Rightarrow> bool" where
  "btf_dedup_equal_fn k1 k2 c \<longleftrightarrow> k1 = k2"

subsection \<open>Chains and the bucket array\<close>

lemma div3_le: "(a::nat) div 3 \<le> c \<longleftrightarrow> a < 3 * c + 3"
  using div_less_iff_less_mult [of 3 a "Suc c"] by (auto simp: less_Suc_eq_le)

lemma hash_bits_less:
  assumes "unat bits \<le> 64"
  shows "unat (hash_bits h bits) < 2 ^ unat bits"
proof (cases "bits = 0")
  case False
  let ?x = "h * 11400714819323198485 :: u64"
  have "unat (drop_bit (64 - unat bits) ?x) = unat ?x div 2 ^ (64 - unat bits)"
    unfolding unat_drop_bit_eq by (rule drop_bit_eq_div)
  moreover have "unat ?x < 2 ^ unat bits * 2 ^ (64 - unat bits)"
    using unsigned_less [of ?x] assms by (simp flip: power_add)
  ultimately show ?thesis using False by (simp add: hash_bits_def less_mult_imp_div_less)
qed (simp add: hash_bits_def)

lemma chain_find_None: "chain_find P es = None \<longleftrightarrow> filter P es = []"
  by (induction es) auto

lemma chain_find_Some:
  "chain_find P es = Some (i, e) \<Longrightarrow>
   i < length es \<and> es ! i = e \<and> P e \<and> filter P (take i es) = [] \<and>
   filter P es = e # filter P (drop (Suc i) es)"
  by (induction es arbitrary: i) (auto split: if_splits)

lemma chain_find_filter:
  "map_option snd (chain_find P es) = (case filter P es of [] \<Rightarrow> None | e # _ \<Rightarrow> Some e)"
  by (induction es) (auto simp: option.map_comp o_def)

lemma calloc_iff: "calloc ok n elem_sz z = (if ok \<and> n * elem_sz < 2 ^ 64 then Some (replicate n z) else None)"
proof -
  have "int n * int elem_sz < 2 ^ 64 \<longleftrightarrow> int (n * elem_sz) < int (2 ^ 64)" by simp
  then show ?thesis unfolding calloc_def by (simp only: of_nat_less_iff)
qed

lemma all_less_Suc_split: "(\<forall>i < Suc n. P i) \<longleftrightarrow> P 0 \<and> (\<forall>i < n. P (Suc i))"
  by (auto simp: less_Suc_eq_0_disj)

lemma case_hd: "(case xs of [] \<Rightarrow> None | x # _ \<Rightarrow> Some (f x)) = (if xs = [] then None else Some (f (hd xs)))"
  by (cases xs) auto

lemma filter_concat_single:
  assumes "h < length bs" "\<And>i. i < length bs \<Longrightarrow> i \<noteq> h \<Longrightarrow> filter P (bs ! i) = []"
  shows "filter P (concat bs) = filter P (bs ! h)"
proof -
  have none: "filter P (concat xs) = []" if "\<forall>x \<in> set xs. filter P x = []" for xs
    using that by (induction xs) auto
  have "filter P (concat (take h bs)) = []"
    by (rule none) (use assms in \<open>auto simp: in_set_conv_nth\<close>)
  moreover have "filter P (concat (drop (Suc h) bs)) = []"
    by (rule none) (use assms in \<open>auto simp: in_set_conv_nth\<close>)
  moreover have "concat bs = concat (take h bs) @ bs ! h @ concat (drop (Suc h) bs)"
    using id_take_nth_drop [OF assms(1)] by (metis concat.simps(2) concat_append)
  ultimately show ?thesis by simp
qed

lemma length_concat_update:
  "h < length bs \<Longrightarrow> length (concat (bs[h := x])) + length (bs ! h) = length (concat bs) + length x"
  by (induction bs arbitrary: h) (auto split: nat.splits)

lemma rehash_nth:
  assumes "unat bits \<le> 64" "length bs = 2 ^ unat bits"
  shows "\<exists>bs'. rehash hf bits es bs = Some bs' \<and> length bs' = length bs \<and>
    (\<forall>h < length bs. bs' ! h = rev (filter (\<lambda>e. unat (hash_bits (hf (hm_key e)) bits) = h) es) @ bs ! h) \<and>
    length (concat bs') = length es + length (concat bs)"
  using assms(2)
proof (induction es arbitrary: bs)
  case (Cons e es)
  let ?h = "hash_bits (hf (hm_key e)) bits"
  have h: "unat ?h < length bs" using hash_bits_less [OF assms(1)] Cons.prems by simp
  let ?bs = "bs[unat ?h := e # bs ! unat ?h]"
  obtain bs' where "rehash hf bits es ?bs = Some bs'" "length bs' = length bs"
    and n: "\<forall>h < length bs. bs' ! h = rev (filter (\<lambda>e. unat (hash_bits (hf (hm_key e)) bits) = h) es) @ ?bs ! h"
    and l: "length (concat bs') = length es + length (concat ?bs)"
    using Cons.IH [of ?bs] Cons.prems by auto
  moreover have "length (concat ?bs) = Suc (length (concat bs))"
    using length_concat_update [OF h, of "e # bs ! unat ?h"] by simp
  ultimately show ?case using h by (auto simp: hashmap_add_entry_def bucket_def nth_list_update)
qed simp

subsection \<open>Well-formed tables\<close>

definition slot :: "(u64 \<Rightarrow> u64) \<Rightarrow> 'c hashmap \<Rightarrow> u64 \<Rightarrow> nat" where
  "slot hash m k = unat (hash_bits (hash k) (cap_bits m))"

definition hashmap_inv :: "(u64 \<Rightarrow> u64) \<Rightarrow> 'c hashmap \<Rightarrow> bool" where
  "hashmap_inv hash m \<longleftrightarrow>
     (buckets m = [] \<and> cap m = 0 \<and> cap_bits m = 0 \<or>
      2 \<le> unat (cap_bits m) \<and> unat (cap_bits m) \<le> 60 \<and> unat (cap m) = 2 ^ unat (cap_bits m) \<and>
        length (buckets m) = unat (cap m)) \<and>
     (\<forall>h < length (buckets m). \<forall>e \<in> set (buckets m ! h). slot hash m (hm_key e) = h) \<and>
     unat (sz m) = length (concat (buckets m)) \<and> 4 * unat (sz m) div 3 \<le> unat (cap m)"

definition matching :: "(u64 \<Rightarrow> u64 \<Rightarrow> bool) \<Rightarrow> 'c hashmap \<Rightarrow> u64 \<Rightarrow> hashmap_entry list" where
  "matching eq m k = filter (\<lambda>e. eq (hm_key e) k) (concat (buckets m))"

definition fns :: "'c hashmap \<Rightarrow> 'c \<Rightarrow> (u64 \<Rightarrow> u64) \<Rightarrow> (u64 \<Rightarrow> u64 \<Rightarrow> bool) \<Rightarrow> bool" where
  "fns m c hash eq \<longleftrightarrow> (\<forall>k. hash_fn m k c = hash k) \<and> (\<forall>a b. equal_fn m a b c = eq a b)"

lemma inv_cap:
  assumes "hashmap_inv hash m"
  shows "unat (cap m) \<le> 2 ^ 60" "length (buckets m) = unat (cap m)" "unat (sz m) \<le> 2 ^ 60"
    "buckets m \<noteq> [] \<Longrightarrow> 2 \<le> unat (cap_bits m) \<and> unat (cap_bits m) \<le> 60 \<and> unat (cap m) = 2 ^ unat (cap_bits m)"
proof -
  show c: "unat (cap m) \<le> 2 ^ 60"
    using assms power_increasing [of "unat (cap_bits m)" 60 "2::nat"] by (auto simp: hashmap_inv_def)
  show "length (buckets m) = unat (cap m)" using assms by (auto simp: hashmap_inv_def)
  have "4 * unat (sz m) div 3 \<le> unat (cap m)" using assms unfolding hashmap_inv_def by blast
  then show "unat (sz m) \<le> 2 ^ 60" using c by linarith
  show "buckets m \<noteq> [] \<Longrightarrow> 2 \<le> unat (cap_bits m) \<and> unat (cap_bits m) \<le> 60 \<and> unat (cap m) = 2 ^ unat (cap_bits m)"
    using assms by (auto simp: hashmap_inv_def)
qed

lemma slot_less: "hashmap_inv hash m \<Longrightarrow> buckets m \<noteq> [] \<Longrightarrow> slot hash m k < length (buckets m)"
  using hash_bits_less [of "cap_bits m" "hash k"] inv_cap(2,4) [of hash m] by (simp add: slot_def)

lemma init_inv [simp]: "hashmap_inv hash (hashmap__init hf ef)" "matching eq (hashmap__init hf ef) k = []"
  by (simp_all add: hashmap_inv_def hashmap__init_def matching_def)

lemma clear_inv [simp]: "hashmap_inv hash (hashmap__clear m)" "matching eq (hashmap__clear m) k = []"
  by (simp_all add: hashmap_inv_def hashmap__clear_def matching_def)

lemma needs_to_grow_iff:
  assumes "hashmap_inv hash m"
  shows "hashmap_needs_to_grow m \<longleftrightarrow> buckets m = [] \<or> unat (cap m) < 4 * (unat (sz m) + 1) div 3"
proof -
  note b = inv_cap(3) [OF assms]
  have s: "unat (sz m + 1) = unat (sz m) + 1" using b by (simp add: unat_word_ariths(1))
  then have "unat ((sz m + 1) * 4) = (unat (sz m) + 1) * 4"
    using b by (subst unat_word_ariths(2)) simp
  then have "unat ((sz m + 1) * 4 div 3) = 4 * (unat (sz m) + 1) div 3"
    by (simp add: unat_div_distrib mult.commute)
  moreover have "cap m = 0 \<longleftrightarrow> buckets m = []"
    using inv_cap(2) [OF assms] by (auto simp: unat_eq_zero)
  ultimately show ?thesis by (simp add: hashmap_needs_to_grow_def word_less_nat_alt)
qed

subsection \<open>What the table asks of its functions\<close>

text \<open>
  The equality is an equivalence and the hash function does not tell equal keys apart. Under
  this contract every operation is described by the entries that match a key.
\<close>

locale hash_contract =
  fixes hash :: "u64 \<Rightarrow> u64" and eq :: "u64 \<Rightarrow> u64 \<Rightarrow> bool"
  assumes eq_refl: "eq k k" and eq_sym: "eq k1 k2 \<Longrightarrow> eq k2 k1"
    and eq_trans: "eq k1 k2 \<Longrightarrow> eq k2 k3 \<Longrightarrow> eq k1 k3" and hash_eq: "eq k1 k2 \<Longrightarrow> hash k1 = hash k2"
begin

lemma matching_bucket:
  assumes "hashmap_inv hash m" "buckets m \<noteq> []"
  shows "matching eq m k = filter (\<lambda>e. eq (hm_key e) k) (buckets m ! slot hash m k)"
  unfolding matching_def
proof (rule filter_concat_single [OF slot_less [OF assms]])
  fix i assume i: "i < length (buckets m)" "i \<noteq> slot hash m k"
  have "slot hash m (hm_key e) = i" if "e \<in> set (buckets m ! i)" for e
    using assms(1) i(1) that by (auto simp: hashmap_inv_def)
  then show "filter (\<lambda>e. eq (hm_key e) k) (buckets m ! i) = []"
    using i(2) hash_eq by (force simp: filter_empty_conv slot_def)
qed

lemma find_entry_inv:
  assumes "hashmap_inv hash m" "fns m c hash eq"
  shows "hashmap_find_entry m c k (hash_bits (hash k) (cap_bits m)) =
    Some (if buckets m = [] then None
          else chain_find (\<lambda>e. eq (hm_key e) k) (buckets m ! slot hash m k))"
  using slot_less [OF assms(1)] assms(2)
  by (simp add: hashmap_find_entry_def bucket_def fns_def slot_def)

lemma find_entry_cases:
  assumes "hashmap_inv hash m" "fns m c hash eq"
  obtains (none) "hashmap_find_entry m c k (hash_bits (hash k) (cap_bits m)) = Some None" "matching eq m k = []"
  | (some) i e where "hashmap_find_entry m c k (hash_bits (hash k) (cap_bits m)) = Some (Some (i, e))"
      "buckets m \<noteq> []" "chain_find (\<lambda>e. eq (hm_key e) k) (buckets m ! slot hash m k) = Some (i, e)"
      "matching eq m k = e # tl (matching eq m k)"
proof (cases "buckets m = []")
  case True
  then show ?thesis using none find_entry_inv [OF assms] by (simp add: matching_def)
next
  case False
  let ?r = "chain_find (\<lambda>e. eq (hm_key e) k) (buckets m ! slot hash m k)"
  have f: "hashmap_find_entry m c k (hash_bits (hash k) (cap_bits m)) = Some ?r"
    using find_entry_inv [OF assms] False by simp
  show ?thesis
  proof (cases ?r)
    case None
    then show ?thesis using none f matching_bucket [OF assms(1) False] by (simp add: chain_find_None)
  next
    case (Some ie)
    obtain i e where ie: "ie = (i, e)" by (cases ie)
    show ?thesis using some [of i e] f False Some ie chain_find_Some [of _ _ i e]
        matching_bucket [OF assms(1) False] by fastforce
  qed
qed

lemma find_spec:
  assumes "hashmap_inv hash m" "fns m c hash eq"
  shows "hashmap_find c m k = Some (case matching eq m k of [] \<Rightarrow> None | e # _ \<Rightarrow> Some (hm_value e))"
proof -
  have h: "hash_fn m k c = hash k" using assms(2) by (simp add: fns_def)
  show ?thesis
    by (cases rule: find_entry_cases [OF assms, of k])
      (auto simp: hashmap_find_def h split: list.split)
qed

text \<open>A change of the chain a key belongs to.\<close>

lemma update_bucket:
  assumes "hashmap_inv hash m" "buckets m \<noteq> []" "\<And>e. e \<in> set ch \<Longrightarrow> slot hash m (hm_key e) = slot hash m k"
    "unat s + length (buckets m ! slot hash m k) = unat (sz m) + length ch" "4 * unat s div 3 \<le> unat (cap m)"
  defines "m' \<equiv> m\<lparr>buckets := (buckets m)[slot hash m k := ch], sz := s\<rparr>"
  shows "hashmap_inv hash m'"
    "matching eq m' k' = (if slot hash m k' = slot hash m k then filter (\<lambda>e. eq (hm_key e) k') ch else matching eq m k')"
proof -
  let ?h = "slot hash m k"
  have h: "?h < length (buckets m)" by (rule slot_less [OF assms(1,2)])
  have sl [simp]: "slot hash m' = slot hash m" by (simp add: fun_eq_iff slot_def m'_def)
  have "length (concat ((buckets m)[?h := ch])) + length (buckets m ! ?h) = unat (sz m) + length ch"
    using length_concat_update [OF h, of ch] assms(1) by (simp add: hashmap_inv_def)
  then have "unat s = length (concat ((buckets m)[?h := ch]))" using assms(4) by linarith
  moreover have "\<forall>i < length (buckets m). \<forall>e \<in> set ((buckets m)[?h := ch] ! i). slot hash m (hm_key e) = i"
  proof -
    have "\<forall>i < length (buckets m). \<forall>e \<in> set (buckets m ! i). slot hash m (hm_key e) = i"
      using assms(1) unfolding hashmap_inv_def by blast
    then show ?thesis using assms(3) h by (auto simp: nth_list_update split: if_splits)
  qed
  ultimately show inv: "hashmap_inv hash m'"
    using assms(1,2,5) sl by (simp add: hashmap_inv_def m'_def del: sl)
  show "matching eq m' k' = (if slot hash m k' = ?h then filter (\<lambda>e. eq (hm_key e) k') ch else matching eq m k')"
    using matching_bucket [OF inv, of k'] matching_bucket [OF assms(1,2), of k'] h slot_less [OF assms(1,2), of k'] assms(2)
    by (auto simp: m'_def nth_list_update slot_def)
qed

lemma slot_cong: "eq k1 k2 \<Longrightarrow> slot hash m k1 = slot hash m k2"
  using hash_eq by (simp add: slot_def)

lemma matching_cong: "eq k k' \<Longrightarrow> matching eq m k = matching eq m k'"
  unfolding matching_def by (rule filter_cong [OF refl]) (blast intro: eq_trans eq_sym)

text \<open>Growing keeps every entry; it reverses the entries that match a key.\<close>

lemma grow_spec:
  assumes inv: "hashmap_inv hash m" and f: "fns m c hash eq"
  obtains (fail) "hashmap_grow ok c m = Some (- ENOMEM, m)"
  | (ok) m' where "hashmap_grow ok c m = Some (0, m')" "hashmap_inv hash m'" "fns m' c hash eq" "buckets m' \<noteq> []"
      "sz m' = sz m" "\<And>k. matching eq m' k = rev (matching eq m k)" "4 * (unat (sz m) + 1) div 3 \<le> unat (cap m')"
proof -
  define bits where "bits = (if cap_bits m + 1 < HASHMAP_MIN_CAP_BITS then HASHMAP_MIN_CAP_BITS else cap_bits m + 1)"
  have cb: "unat (cap_bits m) \<le> 60" using inv by (auto simp: hashmap_inv_def)
  then have "unat (cap_bits m + 1) = unat (cap_bits m) + 1" by (simp add: unat_word_ariths(1))
  then have b: "unat bits = max 2 (unat (cap_bits m) + 1)"
    by (simp add: bits_def HASHMAP_MIN_CAP_BITS_def word_less_nat_alt)
  then have b64: "unat bits \<le> 61" using cb by simp
  have "unat (push_bit (unat bits) 1 :: u64) = 2 ^ unat bits"
    using b64 power_strict_increasing [of "unat bits" 64 "2::nat"]
    by (simp only: unsigned_push_bit_eq) (simp add: push_bit_nat_eq take_bit_nat_eq_self)
  then have nc: "unat (2 ^ unat bits :: u64) = 2 ^ unat bits" by simp
  show ?thesis
  proof (cases "ok \<and> 2 ^ unat bits * 8 < (2 :: nat) ^ 64")
    case False
    then have "hashmap_grow ok c m = Some (- ENOMEM, m)"
      by (auto simp: hashmap_grow_def calloc_iff nc Let_def simp flip: bits_def)
    then show ?thesis by (rule fail)
  next
    case True
    then have b60: "unat bits \<le> 60"
      using power_less_imp_less_exp [of "2::nat" "unat bits + 3" 64] by (simp add: power_add)
    have es: "for_each_entry m = concat (buckets m)"
      using inv_cap(2) [OF inv] by (simp add: for_each_entry_def)
    let ?z = "replicate (2 ^ unat bits) [] :: hashmap_entry list list"
    obtain bs where bs: "rehash hash bits (concat (buckets m)) ?z = Some bs" "length bs = 2 ^ unat bits"
      and n: "\<And>h. h < 2 ^ unat bits \<Longrightarrow> bs ! h = rev (filter (\<lambda>e. unat (hash_bits (hash (hm_key e)) bits) = h) (concat (buckets m)))"
      and l: "length (concat bs) = length (concat (buckets m))"
      using rehash_nth [of bits ?z hash "concat (buckets m)"] b64 by auto
    define m' where "m' = m\<lparr>cap := push_bit (unat bits) 1, cap_bits := bits, buckets := bs\<rparr>"
    have h: "(\<lambda>k. hash_fn m k c) = hash" using f by (simp add: fns_def fun_eq_iff)
    have g: "hashmap_grow ok c m = Some (0, m')"
      using True bs(1) by (simp add: hashmap_grow_def calloc_iff nc Let_def es h m'_def flip: bits_def)
    have ne: "bs \<noteq> []" using bs(2) by auto
    have load: "4 * (unat (sz m) + 1) div 3 \<le> 2 ^ unat bits"
    proof (cases "buckets m = []")
      case True
      then show ?thesis using inv b by (auto simp: hashmap_inv_def)
    next
      case False
      then have "2 ^ unat bits = 2 * unat (cap m)" "4 \<le> unat (cap m)"
        using inv_cap(4) [OF inv] b power_increasing [of 2 "unat (cap_bits m)" "2::nat"] by auto
      moreover have "4 * unat (sz m) div 3 \<le> unat (cap m)" using inv unfolding hashmap_inv_def by blast
      moreover have "4 * (s + 1) div 3 \<le> 2 * c" if "4 * s div 3 \<le> c" "4 \<le> c" for s c :: nat
        using that by (simp add: div3_le)
      ultimately show ?thesis by simp
    qed
    have inv': "hashmap_inv hash m'"
      using inv b b60 bs(2) n l nc ne load by (auto simp: hashmap_inv_def m'_def slot_def)
    have "matching eq m' k = rev (matching eq m k)" for k
    proof -
      have k: "slot hash m' k < 2 ^ unat bits" using slot_less [OF inv'] ne bs(2) by (simp add: m'_def)
      have "matching eq m' k = filter (\<lambda>e. eq (hm_key e) k) (bs ! slot hash m' k)"
        using matching_bucket [OF inv', of k] ne by (simp add: m'_def)
      also have "\<dots> = rev (filter (\<lambda>e. eq (hm_key e) k \<and> unat (hash_bits (hash (hm_key e)) bits) = slot hash m' k) (concat (buckets m)))"
        using n [OF k] by (simp add: rev_filter conj_commute)
      also have "\<dots> = rev (matching eq m k)" unfolding matching_def
        by (rule arg_cong [where f = rev], rule filter_cong [OF refl]) (auto simp: slot_def m'_def dest: hash_eq)
      finally show ?thesis .
    qed
    then show ?thesis
      using ok [OF g inv'] f ne load nc by (simp add: m'_def fns_def)
  qed
qed

text \<open>Replacing, adding and removing an entry.\<close>

lemma replace_entry:
  fixes v :: u64
  assumes "hashmap_inv hash m" "buckets m \<noteq> []"
    "chain_find (\<lambda>e. eq (hm_key e) k) (buckets m ! slot hash m k) = Some (i, e)"
  defines "m' \<equiv> m\<lparr>buckets := (buckets m)[slot hash m k := (buckets m ! slot hash m k)[i := \<lparr>hm_key = k, hm_value = v\<rparr>]]\<rparr>"
  shows "hashmap_inv hash m'"
    "matching eq m' k' = (if eq k k' then \<lparr>hm_key = k, hm_value = v\<rparr> # tl (matching eq m k) else matching eq m k')"
proof -
  let ?ch = "buckets m ! slot hash m k" and ?n = "\<lparr>hm_key = k, hm_value = v\<rparr>"
  note cf = chain_find_Some [OF assms(3)]
  have old: "slot hash m (hm_key x) = slot hash m k" if "x \<in> set ?ch" for x
    using assms(1) slot_less [OF assms(1,2)] that unfolding hashmap_inv_def by blast
  have new: "slot hash m (hm_key x) = slot hash m k" if "x \<in> set (?ch[i := ?n])" for x
    using old that set_update_subset_insert [of ?ch i ?n] by fastforce
  have l: "unat (sz m) + length ?ch = unat (sz m) + length (?ch[i := ?n])" by simp
  have load: "4 * unat (sz m) div 3 \<le> unat (cap m)" using assms(1) unfolding hashmap_inv_def by blast
  have m': "m' = m\<lparr>buckets := (buckets m)[slot hash m k := ?ch[i := ?n]], sz := sz m\<rparr>"
    by (simp add: m'_def)
  note ub = update_bucket [OF assms(1,2) new l load, folded m']
  show "hashmap_inv hash m'" by (rule ub(1))
  have up: "?ch[i := ?n] = take i ?ch @ ?n # drop (Suc i) ?ch"
    using cf by (simp add: upd_conv_take_nth_drop)
  have ch: "?ch = take i ?ch @ e # drop (Suc i) ?ch" using cf id_take_nth_drop by metis
  show "matching eq m' k' = (if eq k k' then ?n # tl (matching eq m k) else matching eq m k')"
  proof (cases "eq k k'")
    case True
    have f: "(\<lambda>e. eq (hm_key e) k') = (\<lambda>e. eq (hm_key e) k)"
      by (rule ext) (use True in \<open>blast intro: eq_trans eq_sym\<close>)
    show ?thesis
      using True ub(2) [of k', unfolded f] slot_cong [OF True, of m] matching_bucket [OF assms(1,2), of k] cf up by (simp add: eq_refl)
  next
    case False
    have "\<not> eq (hm_key e) k'" using False cf by (blast intro: eq_trans eq_sym)
    then have "filter (\<lambda>e. eq (hm_key e) k') (?ch[i := ?n]) = filter (\<lambda>e. eq (hm_key e) k') ?ch"
      using False unfolding up by (subst (3) ch) simp
    then show ?thesis using False ub(2) [of k'] matching_bucket [OF assms(1,2), of k'] by simp
  qed
qed

lemma add_entry:
  assumes "hashmap_inv hash m" "buckets m \<noteq> []" "4 * (unat (sz m) + 1) div 3 \<le> unat (cap m)"
  obtains bs where "hashmap_add_entry (buckets m) (hash_bits (hash k) (cap_bits m)) \<lparr>hm_key = k, hm_value = v\<rparr> = Some bs"
    "hashmap_inv hash (m\<lparr>buckets := bs, sz := sz m + 1\<rparr>)"
    "\<And>k'. matching eq (m\<lparr>buckets := bs, sz := sz m + 1\<rparr>) k' =
       (if eq k k' then [\<lparr>hm_key = k, hm_value = v\<rparr>] else []) @ matching eq m k'"
proof -
  let ?ch = "buckets m ! slot hash m k" and ?n = "\<lparr>hm_key = k, hm_value = v\<rparr>"
  have h: "slot hash m k < length (buckets m)" by (rule slot_less [OF assms(1,2)])
  have new: "slot hash m (hm_key x) = slot hash m k" if "x \<in> set (?n # ?ch)" for x
    using assms(1) h that unfolding hashmap_inv_def by auto
  have s: "unat (sz m + 1) = unat (sz m) + 1"
    using inv_cap(3) [OF assms(1)] by (simp add: unat_word_ariths(1))
  have l: "unat (sz m + 1) + length ?ch = unat (sz m) + length (?n # ?ch)" using s by simp
  have load: "4 * unat (sz m + 1) div 3 \<le> unat (cap m)" using assms(3) s by simp
  note ub = update_bucket [OF assms(1,2) new l load]
  have "matching eq (m\<lparr>buckets := (buckets m)[slot hash m k := ?n # ?ch], sz := sz m + 1\<rparr>) k' =
      (if eq k k' then [?n] else []) @ matching eq m k'" for k'
    using ub(2) [of k'] matching_bucket [OF assms(1,2), of k'] slot_cong [of k k' m] by simp
  then show ?thesis
    by (rule_tac that [OF _ ub(1)]) (use h in \<open>simp_all add: hashmap_add_entry_def bucket_def slot_def\<close>)
qed

lemma del_entry:
  assumes "hashmap_inv hash m" "buckets m \<noteq> []"
    "chain_find (\<lambda>e. eq (hm_key e) k) (buckets m ! slot hash m k) = Some (i, e)"
  obtains bs where "hashmap_del_entry (buckets m) (hash_bits (hash k) (cap_bits m)) i = Some bs"
    "hashmap_inv hash (m\<lparr>buckets := bs, sz := sz m - 1\<rparr>)"
    "\<And>k'. matching eq (m\<lparr>buckets := bs, sz := sz m - 1\<rparr>) k' = (if eq k k' then tl (matching eq m k) else matching eq m k')"
proof -
  let ?ch = "buckets m ! slot hash m k"
  let ?d = "take i ?ch @ drop (Suc i) ?ch"
  note cf = chain_find_Some [OF assms(3)]
  have h: "slot hash m k < length (buckets m)" by (rule slot_less [OF assms(1,2)])
  have new: "slot hash m (hm_key x) = slot hash m k" if "x \<in> set ?d" for x
    using assms(1) h that unfolding hashmap_inv_def by (auto dest: in_set_takeD in_set_dropD)
  have "length ?ch \<le> length (concat (buckets m))"
    using length_concat_update [OF h, of "[]"] by simp
  moreover have "unat (sz m) = length (concat (buckets m))" using assms(1) unfolding hashmap_inv_def by blast
  ultimately have "0 < unat (sz m)" using cf by linarith
  then have s: "unat (sz m - 1) = unat (sz m) - 1" "0 < unat (sz m)"
    by (simp_all add: unat_minus_one unat_gt_0)
  then have l: "unat (sz m - 1) + length ?ch = unat (sz m) + length ?d" using cf by simp
  have "4 * unat (sz m) div 3 \<le> unat (cap m)" using assms(1) unfolding hashmap_inv_def by blast
  then have load: "4 * unat (sz m - 1) div 3 \<le> unat (cap m)" using s by (simp add: div3_le)
  note ub = update_bucket [OF assms(1,2) new l load]
  have ch: "?ch = take i ?ch @ e # drop (Suc i) ?ch" using cf id_take_nth_drop by metis
  have m: "matching eq (m\<lparr>buckets := (buckets m)[slot hash m k := ?d], sz := sz m - 1\<rparr>) k' =
      (if eq k k' then tl (matching eq m k) else matching eq m k')" for k'
  proof (cases "eq k k'")
    case True
    have f: "(\<lambda>e. eq (hm_key e) k') = (\<lambda>e. eq (hm_key e) k)"
      by (rule ext) (use True in \<open>blast intro: eq_trans eq_sym\<close>)
    show ?thesis
      using True ub(2) [of k', unfolded f] slot_cong [OF True, of m] matching_bucket [OF assms(1,2), of k] cf by simp
  next
    case False
    have "\<not> eq (hm_key e) k'" using False cf by (blast intro: eq_trans eq_sym)
    then have "filter (\<lambda>e. eq (hm_key e) k') ?d = filter (\<lambda>e. eq (hm_key e) k') ?ch"
      by (subst (3) ch) simp
    then show ?thesis using False ub(2) [of k'] matching_bucket [OF assms(1,2), of k'] by simp
  qed
  show ?thesis
    by (rule_tac that [OF _ ub(1) m]) (use h in \<open>simp add: hashmap_del_entry_def bucket_def slot_def\<close>)
qed

text \<open>
  Inserting, in all cases. Where an entry is added (or its allocation fails), the table may have
  grown before; \<open>turn\<close> is what that does to the entries of a key.
\<close>

lemma insert_cases:
  assumes inv: "hashmap_inv hash m" and f: "fns m c hash eq"
  defines "turn \<equiv> (if hashmap_needs_to_grow m then rev else id)"
  obtains
    (replaced) e m' where "strategy = HASHMAP_SET \<or> strategy = HASHMAP_UPDATE" "matching eq m k = e # tl (matching eq m k)"
      "hashmap_insert co mo c m k v strategy = Some (0, (hm_key e, hm_value e), m')" "hashmap_inv hash m'" "fns m' c hash eq"
      "\<And>k'. matching eq m' k' = (if eq k k' then \<lparr>hm_key = k, hm_value = v\<rparr> # tl (matching eq m k) else matching eq m k')"
  | (exists) e where "strategy = HASHMAP_ADD" "matching eq m k = e # tl (matching eq m k)"
      "hashmap_insert co mo c m k v strategy = Some (- EEXIST, (hm_key e, hm_value e), m)"
  | (absent) "strategy = HASHMAP_UPDATE" "matching eq m k = []"
      "hashmap_insert co mo c m k v strategy = Some (- ENOENT, (0, 0), m)"
  | (nomem) m' where "strategy \<noteq> HASHMAP_UPDATE" "strategy = HASHMAP_APPEND \<or> matching eq m k = []"
      "hashmap_insert co mo c m k v strategy = Some (- ENOMEM, (0, 0), m')" "hashmap_inv hash m'" "fns m' c hash eq"
      "(\<forall>k'. matching eq m' k' = matching eq m k') \<or> (\<forall>k'. matching eq m' k' = rev (matching eq m k'))"
  | (added) m' where "strategy \<noteq> HASHMAP_UPDATE" "strategy = HASHMAP_APPEND \<or> matching eq m k = []"
      "hashmap_insert co mo c m k v strategy = Some (0, (0, 0), m')" "hashmap_inv hash m'" "fns m' c hash eq"
      "\<And>k'. matching eq m' k' = (if eq k k' then [\<lparr>hm_key = k, hm_value = v\<rparr>] else []) @ turn (matching eq m k')"
proof -
  let ?h = "hash_bits (hash k) (cap_bits m)" and ?ins = "hashmap_insert co mo c m k v strategy"
  have h: "hash_fn m k c = hash k" using f by (simp add: fns_def)
  have new: thesis if su: "strategy \<noteq> HASHMAP_UPDATE" "strategy = HASHMAP_APPEND \<or> matching eq m k = []"
    and r: "?ins = (if hashmap_needs_to_grow m then hashmap_grow co c m else Some (0, m)) \<bind> (\<lambda>(err, m).
              if err \<noteq> 0 then Some (err, (0, 0), m)
              else if \<not> mo then Some (- ENOMEM, (0, 0), m)
              else hashmap_add_entry (buckets m) (hash_bits (hash_fn m k c) (cap_bits m)) \<lparr>hm_key = k, hm_value = v\<rparr> \<bind> (\<lambda>bs.
                  Some (0, (0, 0), m\<lparr>buckets := bs, sz := sz m + 1\<rparr>)))"
  proof -
    have fin: thesis if g: "(if hashmap_needs_to_grow m then hashmap_grow co c m else Some (0, m)) = Some (0, m1)"
      and i: "hashmap_inv hash m1" "fns m1 c hash eq" "buckets m1 \<noteq> []" "4 * (unat (sz m1) + 1) div 3 \<le> unat (cap m1)"
      and t: "\<And>k. matching eq m1 k = turn (matching eq m k)" for m1
    proof (cases mo)
      case True
      have h1: "hash_fn m1 k c = hash k" using i(2) by (simp add: fns_def)
      obtain bs where bs: "hashmap_add_entry (buckets m1) (hash_bits (hash k) (cap_bits m1)) \<lparr>hm_key = k, hm_value = v\<rparr> = Some bs"
        "hashmap_inv hash (m1\<lparr>buckets := bs, sz := sz m1 + 1\<rparr>)"
        "\<And>k'. matching eq (m1\<lparr>buckets := bs, sz := sz m1 + 1\<rparr>) k' =
           (if eq k k' then [\<lparr>hm_key = k, hm_value = v\<rparr>] else []) @ matching eq m1 k'"
        using add_entry [OF i(1,3,4), of k v thesis] by blast
      have "fns (m1\<lparr>buckets := bs, sz := sz m1 + 1\<rparr>) c hash eq" using i(2) by (simp add: fns_def)
      moreover have "?ins = Some (0, (0, 0), m1\<lparr>buckets := bs, sz := sz m1 + 1\<rparr>)"
        using r g bs(1) True h1 by simp
      ultimately show ?thesis using added [OF su _ bs(2)] bs(3) t by simp
    next
      case False
      then have "?ins = Some (- ENOMEM, (0, 0), m1)" using r g by simp
      then show ?thesis using nomem [OF su _ i(1,2)] t by (auto simp: turn_def split: if_splits)
    qed
    show thesis
    proof (cases "hashmap_needs_to_grow m")
      case True
      from inv f show ?thesis
      proof (cases rule: grow_spec [where ok = co])
        case fail
        then have "?ins = Some (- ENOMEM, (0, 0), m)" using r True by simp
        then show ?thesis using nomem [OF su _ inv f] by simp
      next
        case (ok m1)
        then show ?thesis using fin [of m1] True by (simp add: turn_def)
      qed
    next
      case False
      then show ?thesis
        using fin [of m] needs_to_grow_iff [OF inv] inv f by (simp add: turn_def)
    qed
  qed
  show thesis
  proof (cases "strategy = HASHMAP_APPEND")
    case True
    then show ?thesis by (intro new) (simp_all add: hashmap_insert_def)
  next
    case False
    from inv f show ?thesis
    proof (cases rule: find_entry_cases [where k = k])
      case none
      show ?thesis
      proof (cases "strategy = HASHMAP_UPDATE")
        case True
        then show ?thesis using absent none by (simp add: hashmap_insert_def h)
      next
        case noup: False
        then show ?thesis using none False by (intro new) (simp_all add: hashmap_insert_def h)
      qed
    next
      case (some i e)
      show ?thesis
      proof (cases "strategy = HASHMAP_ADD")
        case True
        then show ?thesis using exists some by (simp add: hashmap_insert_def h)
      next
        case False
        with \<open>strategy \<noteq> HASHMAP_APPEND\<close> have st: "strategy = HASHMAP_SET \<or> strategy = HASHMAP_UPDATE"
          by (cases strategy) auto
        let ?m = "m\<lparr>buckets := (buckets m)[slot hash m k := (buckets m ! slot hash m k)[i := \<lparr>hm_key = k, hm_value = v\<rparr>]]\<rparr>"
        note re = replace_entry [OF inv some(2,3), of v]
        have "?ins = Some (0, (hm_key e, hm_value e), ?m)"
          using st some slot_less [OF inv some(2), of k] by (auto simp: hashmap_insert_def h bucket_def slot_def Let_def)
        moreover have "fns ?m c hash eq" using f by (simp add: fns_def)
        ultimately show ?thesis using replaced [OF st some(4) _ re(1)] re(2) by simp
      qed
    qed
  qed
qed

lemma delete_cases:
  assumes inv: "hashmap_inv hash m" and f: "fns m c hash eq"
  obtains (absent) "matching eq m k = []" "hashmap_delete c m k = Some (None, m)"
  | (deleted) e m' where "matching eq m k = e # tl (matching eq m k)"
      "hashmap_delete c m k = Some (Some (hm_key e, hm_value e), m')" "hashmap_inv hash m'" "fns m' c hash eq"
      "\<And>k'. matching eq m' k' = (if eq k k' then tl (matching eq m k) else matching eq m k')"
proof -
  have h: "hash_fn m k c = hash k" using f by (simp add: fns_def)
  from inv f show thesis
  proof (cases rule: find_entry_cases [where k = k])
    case none
    then show ?thesis using absent by (simp add: hashmap_delete_def h)
  next
    case (some i e)
    obtain bs where bs: "hashmap_del_entry (buckets m) (hash_bits (hash k) (cap_bits m)) i = Some bs"
      "hashmap_inv hash (m\<lparr>buckets := bs, sz := sz m - 1\<rparr>)"
      "\<And>k'. matching eq (m\<lparr>buckets := bs, sz := sz m - 1\<rparr>) k' = (if eq k k' then tl (matching eq m k) else matching eq m k')"
      using del_entry [OF inv some(2,3)] by blast
    have "fns (m\<lparr>buckets := bs, sz := sz m - 1\<rparr>) c hash eq" using f by (simp add: fns_def)
    moreover have "hashmap_delete c m k = Some (Some (hm_key e, hm_value e), m\<lparr>buckets := bs, sz := sz m - 1\<rparr>)"
      using some bs(1) by (simp add: hashmap_delete_def h Let_def)
    ultimately show ?thesis using deleted [OF some(4) _ bs(2)] bs(3) by simp
  qed
qed

end

interpretation btf: hash_contract "\<lambda>k. btf_dedup_identity_hash_fn k ()" "\<lambda>k1 k2. btf_dedup_equal_fn k1 k2 ()"
  by unfold_locales (auto simp: btf_dedup_equal_fn_def)

subsection \<open>Refinement of a finite map\<close>

text \<open>
  The abstract table sends a key to the stored key and value. An operation of the abstract
  table is told only whether memory for a new entry is available.
\<close>

datatype hop =
    Insert u64 u64 hashmap_insert_strategy bool bool
  | Find u64
  | Delete u64
  | Clear

datatype hres = Code int "u64 \<times> u64" | Found "u64 option" | Deleted "(u64 \<times> u64) option" | Cleared

fun hstep :: "'c \<Rightarrow> hop \<Rightarrow> 'c hashmap \<Rightarrow> (hres \<times> 'c hashmap) option" where
  "hstep c (Insert k v st calloc_ok malloc_ok) m =
     map_option (\<lambda>(err, old, m'). (Code err old, m')) (hashmap_insert calloc_ok malloc_ok c m k v st)"
| "hstep c (Find k) m = map_option (\<lambda>r. (Found r, m)) (hashmap_find c m k)"
| "hstep c (Delete k) m = map_option (\<lambda>(r, m'). (Deleted r, m')) (hashmap_delete c m k)"
| "hstep c Clear m = Some (Cleared, hashmap__clear m)"

fun hrun :: "'c \<Rightarrow> hop list \<Rightarrow> 'c hashmap \<Rightarrow> (hres list \<times> 'c hashmap) option" where
  "hrun c [] m = Some ([], m)"
| "hrun c (op # ops) m =
     hstep c op m \<bind> (\<lambda>(r, m'). hrun c ops m' \<bind> (\<lambda>(rs, m''). Some (r # rs, m'')))"

type_synonym amap = "u64 \<Rightarrow> (u64 \<times> u64) option"

fun astep :: "(u64 \<Rightarrow> u64 \<Rightarrow> bool) \<Rightarrow> hop \<Rightarrow> bool \<Rightarrow> amap \<Rightarrow> hres \<times> amap" where
  "astep eq (Insert k v st co mo) full a =
     (let a' = (\<lambda>k'. if eq k k' then Some (k, v) else a k') in
      case a k of
        Some old \<Rightarrow> if st = HASHMAP_ADD then (Code (- EEXIST) old, a) else (Code 0 old, a')
      | None \<Rightarrow>
          if st = HASHMAP_UPDATE then (Code (- ENOENT) (0, 0), a)
          else if full then (Code (- ENOMEM) (0, 0), a) else (Code 0 (0, 0), a'))"
| "astep eq (Find k) full a = (Found (map_option snd (a k)), a)"
| "astep eq (Delete k) full a =
     (Deleted (a k), if a k = None then a else (\<lambda>k'. if eq k k' then None else a k'))"
| "astep eq Clear full a = (Cleared, \<lambda>k. None)"

fun arun :: "(u64 \<Rightarrow> u64 \<Rightarrow> bool) \<Rightarrow> (hop \<times> bool) list \<Rightarrow> amap \<Rightarrow> hres list \<times> amap" where
  "arun eq [] a = ([], a)"
| "arun eq ((op, full) # ops) a =
     (case astep eq op full a of (r, a') \<Rightarrow> case arun eq ops a' of (rs, a'') \<Rightarrow> (r # rs, a''))"

definition abs_map :: "(u64 \<Rightarrow> u64 \<Rightarrow> bool) \<Rightarrow> 'c hashmap \<Rightarrow> amap" where
  "abs_map eq m k = (case matching eq m k of [] \<Rightarrow> None | e # _ \<Rightarrow> Some (hm_key e, hm_value e))"

definition no_mem :: "hres \<Rightarrow> bool" where
  "no_mem r \<longleftrightarrow> r = Code (- ENOMEM) (0, 0)"

fun appends :: "hop \<Rightarrow> bool" where
  "appends (Insert k v st co mo) \<longleftrightarrow> st = HASHMAP_APPEND"
| "appends _ \<longleftrightarrow> False"

definition hm_ok :: "(u64 \<Rightarrow> u64) \<Rightarrow> (u64 \<Rightarrow> u64 \<Rightarrow> bool) \<Rightarrow> 'c \<Rightarrow> 'c hashmap \<Rightarrow> bool" where
  "hm_ok hash eq c m \<longleftrightarrow> hashmap_inv hash m \<and> fns m c hash eq \<and> (\<forall>k. length (matching eq m k) \<le> 1)"

lemma rev_short: "length xs \<le> 1 \<Longrightarrow> rev xs = xs"
  by (cases xs) auto

lemma grow_fns: "hashmap_grow ok c m = Some (r, m') \<Longrightarrow> hash_fn m' = hash_fn m \<and> equal_fn m' = equal_fn m"
  by (auto simp: hashmap_grow_def Let_def bind_eq_Some_conv split: option.split_asm)

lemma insert_fns:
  assumes "hashmap_insert co mo c m k v st = Some (r, old, m')"
  shows "hash_fn m' = hash_fn m \<and> equal_fn m' = equal_fn m"
proof -
  let ?h = "hash_bits (hash_fn m k c) (cap_bits m)"
  obtain found where f: "(if st \<noteq> HASHMAP_APPEND then hashmap_find_entry m c k ?h else Some None) = Some found"
    using assms unfolding hashmap_insert_def Let_def bind_eq_Some_conv by blast
  show ?thesis
  proof (cases found)
    case None
    then show ?thesis using assms f
      by (auto simp: hashmap_insert_def Let_def bind_eq_Some_conv split: if_split_asm dest: grow_fns)
  next
    case (Some ie)
    obtain i e where "ie = (i, e)" by (cases ie)
    then show ?thesis using assms f Some
      by (auto simp: hashmap_insert_def Let_def bind_eq_Some_conv split: if_split_asm)
  qed
qed

lemma delete_fns:
  "hashmap_delete c m k = Some (r, m') \<Longrightarrow> hash_fn m' = hash_fn m \<and> equal_fn m' = equal_fn m"
  unfolding hashmap_delete_def Let_def bind_eq_Some_conv
  by (auto simp: bind_eq_Some_conv split: option.split_asm prod.split_asm)

lemma hstep_fns: "hstep c op m = Some (r, m') \<Longrightarrow> hash_fn m' = hash_fn m \<and> equal_fn m' = equal_fn m"
  by (cases op) (auto simp: hashmap__clear_def dest: insert_fns delete_fns)

lemma hrun_fns: "hrun c ops m = Some (rs, m') \<Longrightarrow> hash_fn m' = hash_fn m \<and> equal_fn m' = equal_fn m"
  by (induction ops arbitrary: m rs) (auto simp: bind_eq_Some_conv dest: hstep_fns)

context hash_contract
begin

lemma hstep_refines:
  assumes "hm_ok hash eq c m" "\<not> appends op"
  shows "\<exists>r m'. hstep c op m = Some (r, m') \<and> hm_ok hash eq c m' \<and>
    astep eq op (no_mem r) (abs_map eq m) = (r, abs_map eq m')"
proof -
  have inv: "hashmap_inv hash m" and f: "fns m c hash eq" and u: "\<And>k. length (matching eq m k) \<le> 1"
    using assms(1) by (auto simp: hm_ok_def)
  show ?thesis
  proof (cases op)
    case (Insert k v st co mo)
    let ?t = "if hashmap_needs_to_grow m then rev else id"
    have t: "rev (matching eq m k') = matching eq m k'" for k' by (rule rev_short [OF u])
    from inv f show ?thesis
    proof (cases rule: insert_cases [where strategy = st and co = co and mo = mo and k = k and v = v])
      case (replaced e m')
      then have "tl (matching eq m k) = []" using u [of k] by (cases "matching eq m k") auto
      then show ?thesis using replaced Insert u
        by (auto simp: hm_ok_def abs_map_def fun_eq_iff no_mem_def split: list.split)
    next
      case (exists e)
      then show ?thesis using assms(1) Insert by (auto simp: abs_map_def no_mem_def split: list.split)
    next
      case absent
      then show ?thesis using assms(1) Insert by (auto simp: abs_map_def no_mem_def)
    next
      case (nomem m')
      then have "\<And>k'. matching eq m' k' = matching eq m k'" using t by auto
      then show ?thesis using nomem assms(2) Insert u by (auto simp: hm_ok_def abs_map_def fun_eq_iff no_mem_def)
    next
      case (added m')
      then have k: "matching eq m k = []" using assms(2) Insert by auto
      have "\<And>k'. matching eq m' k' = (if eq k k' then [\<lparr>hm_key = k, hm_value = v\<rparr>] else []) @ matching eq m k'"
        using added t by simp
      moreover have "eq k k' \<Longrightarrow> matching eq m k' = []" for k' using k matching_cong by metis
      ultimately show ?thesis using added k Insert u
        by (auto simp: hm_ok_def abs_map_def fun_eq_iff no_mem_def Let_def)
    qed
  next
    case (Find k)
    then show ?thesis using assms(1) find_spec [OF inv f, of k]
      by (auto simp: abs_map_def split: list.split)
  next
    case (Delete k)
    from inv f show ?thesis
    proof (cases rule: delete_cases [where k = k])
      case absent
      then show ?thesis using assms(1) Delete by (auto simp: abs_map_def)
    next
      case (deleted e m')
      then have "tl (matching eq m k) = []" using u [of k] by (cases "matching eq m k") auto
      then show ?thesis using deleted Delete u
        by (auto simp: hm_ok_def abs_map_def fun_eq_iff split: list.split)
    qed
  next
    case Clear
    have "fns (hashmap__clear m) c hash eq" using f by (simp add: fns_def hashmap__clear_def)
    then show ?thesis using Clear by (auto simp: hm_ok_def abs_map_def fun_eq_iff)
  qed
qed

lemma hrun_refines:
  assumes "hm_ok hash eq c m" "\<forall>op \<in> set ops. \<not> appends op"
  shows "\<exists>rs m'. hrun c ops m = Some (rs, m') \<and> hm_ok hash eq c m' \<and> length rs = length ops \<and>
    arun eq (zip ops (map no_mem rs)) (abs_map eq m) = (rs, abs_map eq m')"
  using assms
proof (induction ops arbitrary: m)
  case (Cons op ops)
  obtain r m1 where s: "hstep c op m = Some (r, m1)" "hm_ok hash eq c m1"
    "astep eq op (no_mem r) (abs_map eq m) = (r, abs_map eq m1)"
    using hstep_refines [OF Cons.prems(1), of op] Cons.prems(2) by auto
  obtain rs m' where "hrun c ops m1 = Some (rs, m')" "hm_ok hash eq c m'" "length rs = length ops"
    "arun eq (zip ops (map no_mem rs)) (abs_map eq m1) = (rs, abs_map eq m')"
    using Cons.IH [OF s(2)] Cons.prems(2) by auto
  then show ?case using s by simp
qed simp

end

subsection \<open>Properties\<close>

text \<open>
  C5. Every sequence of insertions (adding, setting, updating), look-ups, deletions and clearings
  of a fresh table, whatever allocations fail, runs without leaving the bucket array and returns
  what a finite map with the given equality of keys returns; the recorded size is the number of
  entries an iteration visits, and at most three quarters of the buckets (rounded) are used.
\<close>

theorem hashmap_refines:
  assumes "hash_contract (\<lambda>k. hf k c) (\<lambda>k1 k2. ef k1 k2 c)" "\<forall>op \<in> set ops. \<not> appends op"
  shows "\<exists>rs m. hrun c ops (hashmap__init hf ef) = Some (rs, m) \<and>
    arun (\<lambda>k1 k2. ef k1 k2 c) (zip ops (map no_mem rs)) (\<lambda>k. None) = (rs, abs_map (\<lambda>k1 k2. ef k1 k2 c) m) \<and>
    unat (hashmap__size m) = length (for_each_entry m) \<and>
    4 * unat (hashmap__size m) div 3 \<le> unat (hashmap__capacity m)"
proof -
  let ?h = "\<lambda>k. hf k c" and ?e = "\<lambda>k1 k2. ef k1 k2 c" and ?m = "hashmap__init hf ef"
  have "hm_ok ?h ?e c ?m" by (simp add: hm_ok_def fns_def) (simp add: hashmap__init_def)
  from hash_contract.hrun_refines [OF assms(1) this assms(2)] obtain rs m where
    r: "hrun c ops ?m = Some (rs, m)" "arun ?e (zip ops (map no_mem rs)) (abs_map ?e ?m) = (rs, abs_map ?e m)"
    and inv: "hashmap_inv ?h m"
    by (auto simp: hm_ok_def)
  have "abs_map ?e ?m = (\<lambda>k. None)" by (simp add: abs_map_def fun_eq_iff)
  moreover have "unat (sz m) = length (for_each_entry m)" "4 * unat (sz m) div 3 \<le> unat (cap m)"
    using inv inv_cap(2) [OF inv] unfolding hashmap_inv_def for_each_entry_def by auto
  ultimately show ?thesis using r by (simp add: hashmap__size_def hashmap__capacity_def)
qed

theorem hashmap_refines_witness:
  "\<exists>rs m. hrun () [Insert 5 1 HASHMAP_ADD True True, Insert 5 2 HASHMAP_ADD True True, Insert 6 3 HASHMAP_SET True False, Find 5, Delete 5, Find 5]
      (hashmap__init btf_dedup_identity_hash_fn btf_dedup_equal_fn) = Some (rs, m) \<and>
    rs = [Code 0 (0, 0), Code (- EEXIST) (5, 1), Code (- ENOMEM) (0, 0), Found (Some 1), Deleted (Some (5, 1)), Found None]"
proof -
  let ?ops = "[Insert 5 1 HASHMAP_ADD True True, Insert 5 2 HASHMAP_ADD True True, Insert 6 3 HASHMAP_SET True False, Find 5, Delete 5, Find 5]"
  have "\<forall>op \<in> set ?ops. \<not> appends op" by simp
  from hashmap_refines [where ops = ?ops and c = "()" and hf = btf_dedup_identity_hash_fn and ef = btf_dedup_equal_fn,
      OF btf.hash_contract_axioms this] obtain rs m where
    r: "hrun () ?ops (hashmap__init btf_dedup_identity_hash_fn btf_dedup_equal_fn) = Some (rs, m)" by blast
  have "map_option fst (hrun () ?ops (hashmap__init btf_dedup_identity_hash_fn btf_dedup_equal_fn)) =
      Some [Code 0 (0, 0), Code (- EEXIST) (5, 1), Code (- ENOMEM) (0, 0), Found (Some 1), Deleted (Some (5, 1)), Found None]"
    by code_simp
  then show ?thesis using r by simp
qed

text \<open>
  With several values under one key, a look-up returns the one inserted last only as long as
  the table does not grow: appending another key to a table that is due to grow reverses the
  chain, and the look-up then returns the value inserted first.
\<close>

lemma hashmap_append_order:
  assumes "hash_contract (\<lambda>k. hash_fn m k c) (\<lambda>k1 k2. equal_fn m k1 k2 c)"
    "hashmap_inv (\<lambda>k. hash_fn m k c) m" "matching (\<lambda>k1 k2. equal_fn m k1 k2 c) m k \<noteq> []"
    "hashmap_needs_to_grow m" "\<not> equal_fn m k2 k c"
    "hashmap_insert calloc_ok malloc_ok c m k2 v HASHMAP_APPEND = Some (0, old, m')"
  shows "hashmap_find c m k = Some (Some (hm_value (hd (matching (\<lambda>k1 k2. equal_fn m k1 k2 c) m k)))) \<and>
    hashmap_find c m' k = Some (Some (hm_value (last (matching (\<lambda>k1 k2. equal_fn m k1 k2 c) m k))))"
proof -
  let ?h = "\<lambda>k. hash_fn m k c" and ?e = "\<lambda>k1 k2. equal_fn m k1 k2 c"
  have f: "fns m c ?h ?e" by (simp add: fns_def)
  note spec = hash_contract.find_spec [OF assms(1)]
  have "hashmap_inv ?h m' \<and> fns m' c ?h ?e \<and> matching ?e m' k = rev (matching ?e m k)"
    by (cases rule: hash_contract.insert_cases [OF assms(1,2) f, where strategy = HASHMAP_APPEND and k = k2 and v = v
          and co = calloc_ok and mo = malloc_ok])
      (use assms(4-6) in auto)
  then show ?thesis
    using spec [OF assms(2) f, of k] spec [of m' c k] assms(3) by (simp add: case_hd hd_rev)
qed

end
