(* ===== verification/Libbpf_Strset.thy ===== *)
theory Libbpf_Strset
  imports Libbpf_Hashmap
begin

section \<open>The string set of libbpf\<close>

text \<open>
  \<open>lib/libbpf/src/strset.c\<close>, with \<open>libbpf_add_mem\<close> of \<open>btf.c\<close>: strings stored one after the
  other, each with its terminator, in a growing byte array, and a hash map from offsets to
  offsets whose hash and equality read the strings through the array. The context of the hash
  map is the byte array; it changes between calls, and the proofs show that this does not
  disturb the entries already stored. Reading a string stops at the end of the array; the
  invariant says that every string in use has its terminator before that.
\<close>

record strset =
  strs_data :: "u8 list"
  strs_data_len :: u64
  strs_data_cap :: u64
  strs_data_max_len :: u64
  strs_hash :: "u8 list hashmap"

definition cstr :: "u8 list \<Rightarrow> u64 \<Rightarrow> u8 list" where
  "cstr d k = takeWhile (\<lambda>b. b \<noteq> 0) (drop (unat k) d)"

definition strset_hash_fn :: "u64 \<Rightarrow> u8 list \<Rightarrow> u64" where
  "strset_hash_fn k d = str_hash (cstr d k)"

definition strset_equal_fn :: "u64 \<Rightarrow> u64 \<Rightarrow> u8 list \<Rightarrow> bool" where
  "strset_equal_fn k1 k2 d \<longleftrightarrow> lex_sign (map unat (cstr d k1)) (map unat (cstr d k2)) = 0"

definition libbpf_reallocarray :: "bool \<Rightarrow> u8 list \<Rightarrow> u64 \<Rightarrow> u64 \<Rightarrow> u8 list option" where
  "libbpf_reallocarray realloc_ok data nmemb elem_sz =
     (if 2 ^ 64 \<le> uint nmemb * uint elem_sz then None
      else if realloc_ok then Some (take (unat (nmemb * elem_sz)) data) else None)"

text \<open>
  The result: the array, its capacity, the offset of the space that was asked for. The part of
  the array that is new is set to zero.
\<close>

definition libbpf_add_mem ::
  "bool \<Rightarrow> u8 list \<Rightarrow> u64 \<Rightarrow> u64 \<Rightarrow> u64 \<Rightarrow> u64 \<Rightarrow> u64 \<Rightarrow> (u8 list \<times> u64 \<times> u64) option" where
  "libbpf_add_mem realloc_ok data cap_cnt elem_sz cur_cnt max_cnt add_cnt =
     (if cur_cnt + add_cnt \<le> cap_cnt then Some (data, cap_cnt, cur_cnt * elem_sz)
      else if cur_cnt + add_cnt > max_cnt then None
      else
        (let n1 = cap_cnt + cap_cnt div 4;
             n2 = (if n1 < 16 then 16 else n1);
             n3 = (if n2 > max_cnt then max_cnt else n2);
             new_cnt = (if n3 < cur_cnt + add_cnt then cur_cnt + add_cnt else n3) in
         case libbpf_reallocarray realloc_ok data new_cnt elem_sz of
           None \<Rightarrow> None
         | Some new_data \<Rightarrow>
             Some (new_data @ replicate (unat ((new_cnt - cap_cnt) * elem_sz)) 0, new_cnt, cur_cnt * elem_sz)))"

definition strset_add_str_mem :: "bool \<Rightarrow> strset \<Rightarrow> u64 \<Rightarrow> (strset \<times> u64) option" where
  "strset_add_str_mem realloc_ok ss add_sz =
     map_option (\<lambda>(d, c, p). (ss\<lparr>strs_data := d, strs_data_cap := c\<rparr>, p))
       (libbpf_add_mem realloc_ok (strs_data ss) (strs_data_cap ss) 1 (strs_data_len ss) (strs_data_max_len ss) add_sz)"

definition strset__data_size :: "strset \<Rightarrow> u64" where
  "strset__data_size ss = strs_data_len ss"

definition strset__data :: "strset \<Rightarrow> u8 list" where
  "strset__data ss = strs_data ss"

text \<open>A \<open>long\<close> returned as \<open>int\<close>; \<open>memcpy\<close> into the array; \<open>strlen\<close> of a string in the array.\<close>

definition c_int :: "u64 \<Rightarrow> int" where
  "c_int w = sint (ucast w :: s32)"

definition copy_in :: "u64 \<Rightarrow> u8 list \<Rightarrow> strset \<Rightarrow> strset option" where
  "copy_in p bs ss =
     (if unat p + length bs \<le> length (strs_data ss)
      then Some (ss\<lparr>strs_data := patch (unat p) bs (strs_data ss)\<rparr>) else None)"

definition strset__find_str :: "bool \<Rightarrow> strset \<Rightarrow> u8 list \<Rightarrow> (int \<times> strset) option" where
  "strset__find_str realloc_ok ss s =
     (case strset_add_str_mem realloc_ok ss (word_of_nat (length s) + 1) of
        None \<Rightarrow> Some (- ENOMEM, ss)
      | Some (ss, p) \<Rightarrow>
          let new_off = strs_data_len ss in
          copy_in p (s @ [0]) ss \<bind> (\<lambda>ss.
          hashmap_find (strs_data ss) (strs_hash ss) new_off \<bind> (\<lambda>r.
          case r of
            Some old_off \<Rightarrow> Some (c_int old_off, ss)
          | None \<Rightarrow> Some (- ENOENT, ss))))"

definition strset__add_str :: "bool \<Rightarrow> bool \<Rightarrow> bool \<Rightarrow> strset \<Rightarrow> u8 list \<Rightarrow> (int \<times> strset) option" where
  "strset__add_str realloc_ok calloc_ok malloc_ok ss s =
     (let len = word_of_nat (length s) + 1 in
      case strset_add_str_mem realloc_ok ss len of
        None \<Rightarrow> Some (- ENOMEM, ss)
      | Some (ss, p) \<Rightarrow>
          let new_off = strs_data_len ss in
          copy_in p (s @ [0]) ss \<bind> (\<lambda>ss.
          hashmap_insert calloc_ok malloc_ok (strs_data ss) (strs_hash ss) new_off new_off HASHMAP_ADD \<bind>
            (\<lambda>(err, (old_off, _), h).
            let ss = ss\<lparr>strs_hash := h\<rparr> in
            if err = - EEXIST then Some (c_int old_off, ss)
            else if err \<noteq> 0 then Some (err, ss)
            else Some (c_int new_off, ss\<lparr>strs_data_len := strs_data_len ss + len\<rparr>))))"

text \<open>
  The loop over the initial strings. The allocations made for the string at an offset are
  given by that offset.
\<close>

function strset_init_loop :: "(nat \<Rightarrow> bool) \<Rightarrow> (nat \<Rightarrow> bool) \<Rightarrow> u8 list \<Rightarrow> nat \<Rightarrow> u8 list hashmap \<Rightarrow>
    (int \<times> u8 list hashmap) option" where
  "strset_init_loop calloc_ok malloc_ok d off h =
     (if off \<ge> length d then Some (0, h)
      else
        hashmap_insert (calloc_ok off) (malloc_ok off) d h (word_of_nat off) (word_of_nat off) HASHMAP_ADD \<bind>
          (\<lambda>(err, old, h).
          if err \<noteq> 0 \<and> err \<noteq> - EEXIST then Some (err, h)
          else if 0 \<notin> set (drop off d) then None
          else strset_init_loop calloc_ok malloc_ok d (off + length (takeWhile (\<lambda>b. b \<noteq> 0) (drop off d)) + 1) h))"
  by auto

termination strset_init_loop
  by (relation "measure (\<lambda>(co, mo, d, off, h). length d - off)") auto

definition strset__new ::
  "bool \<Rightarrow> bool \<Rightarrow> bool \<Rightarrow> (nat \<Rightarrow> bool) \<Rightarrow> (nat \<Rightarrow> bool) \<Rightarrow> u64 \<Rightarrow> u8 list option \<Rightarrow> strset eptr option" where
  "strset__new set_ok hash_ok data_ok calloc_ok malloc_ok max_data_sz init_data =
     (if \<not> set_ok then Some (ErrPtr (- ENOMEM))
      else
        (case hashmap__new hash_ok strset_hash_fn strset_equal_fn of
           Ptr h \<Rightarrow>
             (case init_data of
                None \<Rightarrow>
                  Some (Ptr \<lparr>strs_data = [], strs_data_len = 0, strs_data_cap = 0,
                    strs_data_max_len = max_data_sz, strs_hash = h\<rparr>)
              | Some d \<Rightarrow>
                  if \<not> data_ok then Some (ErrPtr (- ENOMEM))
                  else
                    strset_init_loop calloc_ok malloc_ok d 0 h \<bind> (\<lambda>(err, h).
                    if err \<noteq> 0 then Some (ErrPtr err)
                    else
                      Some (Ptr \<lparr>strs_data = d, strs_data_len = word_of_nat (length d),
                        strs_data_cap = word_of_nat (length d), strs_data_max_len = max_data_sz, strs_hash = h\<rparr>)))
         | _ \<Rightarrow> Some (ErrPtr (- ENOMEM))))"

subsection \<open>Strings in the array\<close>

declare set_concat [simp del]

lemma strset_equal_iff: "strset_equal_fn k1 k2 d \<longleftrightarrow> cstr d k1 = cstr d k2"
  unfolding strset_equal_fn_def lex_sign_zero by (rule inj_map_eq_map, rule injI) (simp add: word_unat_eq_iff)

interpretation str: hash_contract "\<lambda>k. strset_hash_fn k d" "\<lambda>k1 k2. strset_equal_fn k1 k2 d" for d
  by unfold_locales (auto simp: strset_equal_iff strset_hash_fn_def)

lemma cstr_prefix:
  assumes "unat k + length (cstr d k) < n" "take n d' = take n d" "n \<le> length d"
  shows "cstr d' k = cstr d k"
proof -
  have k: "unat k \<le> n" "unat k \<le> length d" using assms by auto
  have "length d' \<ge> n" using arg_cong [OF assms(2), of length] assms(3) by simp
  then have d: "drop (unat k) x = drop (unat k) (take n x) @ drop n x" if "x = d \<or> x = d'" for x
    by (subst append_take_drop_id [of n x, symmetric], subst drop_append) (use k that assms(3) in auto)
  have "\<not> (\<forall>b \<in> set (drop (unat k) (take n d)). b \<noteq> 0)"
  proof
    assume a: "\<forall>b \<in> set (drop (unat k) (take n d)). b \<noteq> 0"
    have "cstr d k = drop (unat k) (take n d) @ takeWhile (\<lambda>b. b \<noteq> 0) (drop n d)"
      unfolding cstr_def by (subst d) (use a in simp_all)
    then show False using assms(1,3) by simp
  qed
  then have "\<exists>b \<in> set (drop (unat k) (take n d)). b = 0" by blast
  then have "cstr x k = takeWhile (\<lambda>b. b \<noteq> 0) (drop (unat k) (take n d))" if "x = d \<or> x = d'" for x
    unfolding cstr_def using d [OF that] that assms(2) by (auto simp: takeWhile_append)
  then show ?thesis by simp
qed

lemma cstr_new:
  "0 \<notin> set s \<Longrightarrow> unat k + length s < length d \<Longrightarrow> cstr (patch (unat k) (s @ [0]) d) k = s"
  by (auto simp: cstr_def patch_def takeWhile_append)

subsection \<open>The invariant\<close>

definition entries :: "strset \<Rightarrow> hashmap_entry list" where
  "entries s = concat (buckets (strs_hash s))"

definition in_use :: "u8 list \<Rightarrow> u64 \<Rightarrow> hashmap_entry \<Rightarrow> bool" where
  "in_use d len e \<longleftrightarrow> hm_value e = hm_key e \<and> unat (hm_key e) + length (cstr d (hm_key e)) < unat len"

definition table_ok :: "u8 list \<Rightarrow> u64 \<Rightarrow> u8 list hashmap \<Rightarrow> bool" where
  "table_ok d len h \<longleftrightarrow>
     hm_ok (\<lambda>k. strset_hash_fn k d) (\<lambda>k1 k2. strset_equal_fn k1 k2 d) d h \<and>
     hash_fn h = strset_hash_fn \<and> equal_fn h = strset_equal_fn \<and>
     (\<forall>e \<in> set (concat (buckets h)). in_use d len e)"

definition strset_inv :: "strset \<Rightarrow> bool" where
  "strset_inv s \<longleftrightarrow>
     length (strs_data s) = unat (strs_data_cap s) \<and> strs_data_len s \<le> strs_data_cap s \<and>
     unat (strs_data_cap s) \<le> 2 ^ 31 \<and> unat (strs_data_max_len s) < 2 ^ 31 \<and>
     table_ok (strs_data s) (strs_data_len s) (strs_hash s)"

text \<open>The abstract content: which string is at which offset.\<close>

definition strs :: "strset \<Rightarrow> (u8 list \<times> int) set" where
  "strs s = (\<lambda>e. (cstr (strs_data s) (hm_key e), uint (hm_key e))) ` set (entries s)"

lemma hashmap_inv_cong:
  assumes "\<And>e. e \<in> set (concat (buckets m)) \<Longrightarrow> h1 (hm_key e) = h2 (hm_key e)"
  shows "hashmap_inv h1 m = hashmap_inv h2 m"
proof -
  have "h1 (hm_key e) = h2 (hm_key e)" if "h < length (buckets m)" "e \<in> set (buckets m ! h)" for h e
    using nth_mem [OF that(1)] that(2) by (intro assms) (auto simp: set_concat)
  then have "(\<forall>h < length (buckets m). \<forall>e \<in> set (buckets m ! h). slot h1 m (hm_key e) = h) \<longleftrightarrow>
      (\<forall>h < length (buckets m). \<forall>e \<in> set (buckets m ! h). slot h2 m (hm_key e) = h)"
    by (simp add: slot_def cong: ball_cong)
  then show ?thesis by (simp only: hashmap_inv_def)
qed

lemma table_ok_cong:
  assumes "table_ok d len h" "take (unat len) d' = take (unat len) d" "unat len \<le> length d"
  shows "table_ok d' len h"
proof -
  have c: "cstr d' (hm_key e) = cstr d (hm_key e)" if "e \<in> set (concat (buckets h))" for e
    using assms(1) that by (intro cstr_prefix [OF _ assms(2,3)]) (auto simp: table_ok_def in_use_def)
  have "matching (\<lambda>k1 k2. strset_equal_fn k1 k2 d') h k =
      filter (\<lambda>e. cstr d (hm_key e) = cstr d' k) (concat (buckets h))" for k
    unfolding matching_def strset_equal_iff by (rule filter_cong) (simp_all add: c)
  moreover have "length (filter (\<lambda>e. cstr d (hm_key e) = x) (concat (buckets h))) \<le> 1" for x
  proof (cases "filter (\<lambda>e. cstr d (hm_key e) = x) (concat (buckets h))")
    case (Cons e es)
    then have "x = cstr d (hm_key e)" by (auto dest: filter_eq_ConsD)
    then have "filter (\<lambda>e. cstr d (hm_key e) = x) (concat (buckets h)) =
        matching (\<lambda>k1 k2. strset_equal_fn k1 k2 d) h (hm_key e)"
      by (simp add: matching_def strset_equal_iff)
    then show ?thesis using assms(1) by (simp add: table_ok_def hm_ok_def)
  qed simp
  moreover have "hashmap_inv (\<lambda>k. strset_hash_fn k d') h"
    using assms(1) hashmap_inv_cong [of h "\<lambda>k. strset_hash_fn k d'" "\<lambda>k. strset_hash_fn k d"] c
    by (auto simp: table_ok_def hm_ok_def strset_hash_fn_def)
  moreover have "\<forall>e \<in> set (concat (buckets h)). in_use d' len e"
    using assms(1) c by (auto simp: table_ok_def in_use_def)
  ultimately show ?thesis using assms(1) by (simp add: table_ok_def hm_ok_def fns_def)
qed

lemma set_entries: "set (concat (buckets h)) = (\<Union>k. set (matching (\<lambda>k1 k2. strset_equal_fn k1 k2 d) h k))"
  by (auto simp: matching_def strset_equal_iff)

text \<open>Making room for a string and copying it there leaves the strings in use alone.\<close>

lemma copy_string:
  assumes inv: "strset_inv s"
    and d1: "take (unat (strs_data_len s)) d1 = take (unat (strs_data_len s)) (strs_data s)"
      "length d1 = unat c1" "unat (strs_data_len s) + length t < unat c1" "unat c1 \<le> 2 ^ 31"
  obtains s2 where "copy_in (strs_data_len s) (t @ [0]) (s\<lparr>strs_data := d1, strs_data_cap := c1\<rparr>) = Some s2"
    "strs_data_len s2 = strs_data_len s" "strs_hash s2 = strs_hash s" "strset_inv s2" "strs s2 = strs s"
    "0 \<notin> set t \<Longrightarrow> cstr (strs_data s2) (strs_data_len s) = t" "strs_data_cap s2 = c1"
    "take (unat (strs_data_len s)) (strs_data s2) = take (unat (strs_data_len s)) (strs_data s)"
proof -
  let ?n = "strs_data_len s" and ?d = "strs_data s"
  let ?d2 = "patch (unat ?n) (t @ [0]) d1"
  let ?s2 = "s\<lparr>strs_data := ?d2, strs_data_cap := c1\<rparr>"
  have inv': "length ?d = unat (strs_data_cap s)" "unat ?n \<le> length ?d" "table_ok ?d ?n (strs_hash s)"
    using inv by (auto simp: strset_inv_def word_le_nat_alt)
  have d: "take (unat ?n) ?d2 = take (unat ?n) ?d" using d1 inv'(2) by (simp add: patch_def)
  have tok: "table_ok ?d2 ?n (strs_hash s)" by (rule table_ok_cong [OF inv'(3) d inv'(2)])
  have l: "length ?d2 = unat c1" using d1 by simp
  have "strset_inv ?s2"
    using inv tok l d1 by (simp add: strset_inv_def word_le_nat_alt)
  moreover have "cstr ?d2 (hm_key e) = cstr ?d (hm_key e)" if "e \<in> set (entries s)" for e
    by (rule cstr_prefix [OF _ d inv'(2)]) (use inv'(3) that in \<open>auto simp: table_ok_def entries_def in_use_def\<close>)
  then have "strs ?s2 = strs s" unfolding strs_def by (simp add: entries_def cong: image_cong)
  moreover have "0 \<notin> set t \<Longrightarrow> cstr ?d2 ?n = t" using cstr_new [of t ?n d1] d1 by simp
  moreover have "copy_in ?n (t @ [0]) (s\<lparr>strs_data := d1, strs_data_cap := c1\<rparr>) = Some ?s2"
    using d1 by (simp add: copy_in_def)
  ultimately show ?thesis using that [of ?s2] d by simp
qed

lemma add_mem_grow:
  assumes "libbpf_add_mem ok data c 1 cur mx add = Some (d1, c1, p)" "\<not> cur + add \<le> c"
  shows "p = cur \<and> cur + add \<le> c1 \<and> c1 \<le> mx \<and> d1 = take (unat c1) data @ replicate (unat (c1 - c)) 0"
proof -
  define n2 where "n2 = (if c + c div 4 < 16 then 16 else c + c div 4)"
  define n3 where "n3 = (if n2 > mx then mx else n2)"
  define n where "n = (if n3 < cur + add then cur + add else n3)"
  have mx: "cur + add \<le> mx"
    using assms by (simp add: libbpf_add_mem_def not_less split: if_split_asm)
  have "n3 \<le> mx" by (simp add: n3_def not_less)
  then have n: "cur + add \<le> n" "n \<le> mx" using mx by (simp_all add: n_def not_less)
  have "libbpf_add_mem ok data c 1 cur mx add =
      (case libbpf_reallocarray ok data n 1 of None \<Rightarrow> None
       | Some new_data \<Rightarrow> Some (new_data @ replicate (unat (n - c)) 0, n, cur))"
    unfolding libbpf_add_mem_def Let_def n_def n3_def n2_def
    by (simp only: assms(2) mx [folded not_less] if_False mult_1_right)
  then show ?thesis using assms(1) n by (auto simp: libbpf_reallocarray_def split: if_split_asm)
qed

lemma add_mem_room:
  assumes inv: "strset_inv s" and l: "length t < 2 ^ 63"
    and r: "strset_add_str_mem ok s (word_of_nat (length t) + 1) = Some (s1, p)"
  obtains d1 c1 where "s1 = s\<lparr>strs_data := d1, strs_data_cap := c1\<rparr>" "p = strs_data_len s"
    "take (unat (strs_data_len s)) d1 = take (unat (strs_data_len s)) (strs_data s)"
    "length d1 = unat c1" "unat (strs_data_len s) + length t < unat c1" "unat c1 \<le> 2 ^ 31"
proof -
  let ?n = "strs_data_len s" and ?d = "strs_data s" and ?c = "strs_data_cap s" and ?a = "word_of_nat (length t) + 1 :: u64"
  let ?m = "strs_data_max_len s"
  have inv': "length ?d = unat ?c" "unat ?n \<le> unat ?c" "unat ?c \<le> 2 ^ 31" "unat ?m < 2 ^ 31"
    using inv by (auto simp: strset_inv_def word_le_nat_alt)
  have a: "unat ?a = length t + 1" using l by (simp add: unat_word_ariths(1) unat_of_nat)
  have na: "unat (?n + ?a) = unat ?n + length t + 1"
    using l inv'(2,3) a by (simp add: unat_word_ariths(1))
  show ?thesis
  proof (cases "?n + ?a \<le> ?c")
    case True
    then have "s1 = s" "p = ?n" using r by (auto simp: strset_add_str_mem_def libbpf_add_mem_def)
    moreover have "unat ?n + length t < unat ?c" using True na by (simp add: word_le_nat_alt)
    ultimately show ?thesis using that [of ?c ?d] inv' by simp
  next
    case False
    obtain d1 n4 where am: "libbpf_add_mem ok ?d ?c 1 ?n ?m ?a = Some (d1, n4, p)"
      and s1: "s1 = s\<lparr>strs_data := d1, strs_data_cap := n4\<rparr>"
      using r by (auto simp: strset_add_str_mem_def)
    from add_mem_grow [OF am False] have n4: "unat n4 \<ge> unat (?n + ?a)" "unat n4 \<le> unat ?m"
      and d1: "d1 = take (unat n4) ?d @ replicate (unat (n4 - ?c)) 0" "p = ?n"
      by (simp_all add: word_le_nat_alt)
    have gt: "unat ?c < unat n4" using False n4(1) by (simp add: word_le_nat_alt)
    then have sub: "unat (n4 - ?c) = unat n4 - unat ?c"
      by (simp add: unat_sub word_le_nat_alt)
    show ?thesis
      by (rule that [OF s1 d1(2)]) (use gt sub n4 na inv' d1(1) in auto)
  qed
qed

subsection \<open>The table of strings\<close>

lemma table_insert_cases:
  assumes tok: "table_ok d len h" and k: "unat k + length (cstr d k) < unat len'" "unat len \<le> unat len'"
  obtains (exists) e where "e \<in> set (concat (buckets h))" "cstr d (hm_key e) = cstr d k"
      "hashmap_insert co mo d h k k HASHMAP_ADD = Some (- EEXIST, (hm_key e, hm_value e), h)"
  | (nomem) h' where "hashmap_insert co mo d h k k HASHMAP_ADD = Some (- ENOMEM, (0, 0), h')"
      "set (concat (buckets h')) = set (concat (buckets h))" "table_ok d len h'"
  | (added) h' where "hashmap_insert co mo d h k k HASHMAP_ADD = Some (0, (0, 0), h')" "table_ok d len' h'"
      "set (concat (buckets h')) = insert \<lparr>hm_key = k, hm_value = k\<rparr> (set (concat (buckets h)))"
      "\<forall>e \<in> set (concat (buckets h)). cstr d (hm_key e) \<noteq> cstr d k"
proof -
  let ?h = "\<lambda>k. strset_hash_fn k d" and ?e = "\<lambda>k1 k2. strset_equal_fn k1 k2 d"
  let ?new = "\<lparr>hm_key = k, hm_value = k\<rparr> :: hashmap_entry"
  have inv: "hashmap_inv ?h h" and f: "fns h d ?h ?e" and u: "\<And>k. length (matching ?e h k) \<le> 1"
    and fn: "hash_fn h = strset_hash_fn" "equal_fn h = strset_equal_fn"
    and use: "\<forall>e \<in> set (concat (buckets h)). in_use d len e"
    using tok by (auto simp: table_ok_def hm_ok_def)
  have rv: "rev (matching ?e h k') = matching ?e h k'" for k' by (rule rev_short [OF u])
  note same = set_entries [where d = d]
  from inv f show thesis
  proof (cases rule: str.insert_cases [where strategy = HASHMAP_ADD and k = k and v = k and co = co and mo = mo])
    case (exists e)
    have "e \<in> set (matching ?e h k)" using exists(2) by (metis list.set_intros(1))
    then have "e \<in> set (concat (buckets h))" "cstr d (hm_key e) = cstr d k"
      by (auto simp: matching_def strset_equal_iff)
    then show ?thesis using that(1) exists(3) by blast
  next
    case (nomem h')
    have m: "matching ?e h' k' = matching ?e h k'" for k' using nomem(6) rv by auto
    have s: "set (concat (buckets h')) = set (concat (buckets h))" by (simp only: same m)
    have "table_ok d len h'"
      using nomem(4,5) u use fn s insert_fns [OF nomem(3)] by (simp add: table_ok_def hm_ok_def m)
    then show ?thesis using that(2) nomem(3) s by blast
  next
    case (added h')
    have nk: "matching ?e h k = []" using added(2) by simp
    have m: "matching ?e h' k' = (if ?e k k' then [?new] else []) @ matching ?e h k'" for k'
      using added(6) rv by simp
    have no: "\<forall>e \<in> set (concat (buckets h)). cstr d (hm_key e) \<noteq> cstr d k"
      using nk by (auto simp: matching_def strset_equal_iff filter_empty_conv)
    have s: "set (concat (buckets h')) = insert ?new (set (concat (buckets h)))"
      unfolding same m by (auto simp: strset_equal_iff split: if_splits)
    have "length (matching ?e h' k') \<le> 1" for k'
      using m [of k'] u [of k'] str.matching_cong [of k k' d h] nk by auto
    moreover have "\<forall>e \<in> set (concat (buckets h')). in_use d len' e"
      using s use k by (auto simp: in_use_def)
    ultimately have "table_ok d len' h'"
      using added(4,5) fn insert_fns [OF added(3)] by (simp add: table_ok_def hm_ok_def)
    then show ?thesis using that(3) added(3) s no by blast
  qed auto
qed

lemma table_find:
  assumes "table_ok d len h"
  shows "hashmap_find d h k = Some r \<Longrightarrow>
      (case r of Some v \<Rightarrow> \<exists>e \<in> set (concat (buckets h)). cstr d (hm_key e) = cstr d k \<and> hm_key e = v
       | None \<Rightarrow> \<forall>e \<in> set (concat (buckets h)). cstr d (hm_key e) \<noteq> cstr d k)"
    "\<exists>r. hashmap_find d h k = Some r"
proof -
  let ?h = "\<lambda>k. strset_hash_fn k d" and ?e = "\<lambda>k1 k2. strset_equal_fn k1 k2 d"
  have inv: "hashmap_inv ?h h" and f: "fns h d ?h ?e"
    and use: "\<forall>e \<in> set (concat (buckets h)). in_use d len e"
    using assms by (auto simp: table_ok_def hm_ok_def)
  note fs = str.find_spec [OF inv f, of k]
  then show "\<exists>r. hashmap_find d h k = Some r" by blast
  assume "hashmap_find d h k = Some r"
  then have r: "r = (case matching ?e h k of [] \<Rightarrow> None | e # _ \<Rightarrow> Some (hm_value e))" using fs by simp
  show "case r of Some v \<Rightarrow> \<exists>e \<in> set (concat (buckets h)). cstr d (hm_key e) = cstr d k \<and> hm_key e = v
       | None \<Rightarrow> \<forall>e \<in> set (concat (buckets h)). cstr d (hm_key e) \<noteq> cstr d k"
  proof (cases "matching ?e h k")
    case Nil
    then show ?thesis using r by (auto simp: matching_def strset_equal_iff filter_empty_conv)
  next
    case (Cons e es)
    then have "e \<in> set (matching ?e h k)" by simp
    then have "e \<in> set (concat (buckets h))" "cstr d (hm_key e) = cstr d k"
      by (auto simp: matching_def strset_equal_iff)
    moreover from this have "hm_value e = hm_key e" using use by (simp only: in_use_def)
    ultimately show ?thesis using r Cons by (simp del: set_concat) blast
  qed
qed

lemma c_int_small:
  assumes "unat w < 2 ^ 31"
  shows "c_int w = uint w"
proof -
  have "uint w < int (2 ^ 31)" using assms by (simp only: uint_nat of_nat_less_iff)
  then have u: "uint w < 2 ^ 31" by simp
  have w0: "0 \<le> uint w" by simp
  have "sint (ucast w :: s32) = signed_take_bit 31 (take_bit 32 (uint w))"
    by (simp add: sint_uint unsigned_ucast_eq)
  also have "take_bit 32 (uint w) = uint w" using u by (intro take_bit_int_eq_self) auto
  also have "signed_take_bit 31 (uint w) = uint w" using u w0 by (intro signed_take_bit_int_eq_self) linarith+
  finally show ?thesis by (simp only: c_int_def)
qed

lemma inv_single: "strset_inv s \<Longrightarrow> single_valued (strs s)"
proof (rule single_valuedI)
  fix t o1 o2
  assume inv: "strset_inv s" and "(t, o1) \<in> strs s" "(t, o2) \<in> strs s"
  then obtain e1 e2 where e: "e1 \<in> set (entries s)" "e2 \<in> set (entries s)" "o1 = uint (hm_key e1)" "o2 = uint (hm_key e2)"
    and c: "cstr (strs_data s) (hm_key e1) = t" "cstr (strs_data s) (hm_key e2) = t"
    by (auto simp: strs_def)
  let ?m = "matching (\<lambda>k1 k2. strset_equal_fn k1 k2 (strs_data s)) (strs_hash s) (hm_key e1)"
  have "e1 \<in> set ?m" "e2 \<in> set ?m" using e c by (auto simp: matching_def strset_equal_iff entries_def)
  moreover have "length ?m \<le> 1" using inv by (simp add: strset_inv_def table_ok_def hm_ok_def)
  ultimately have "e1 = e2" by (cases ?m) auto
  then show "o1 = o2" using e by simp
qed

lemma inv_key:
  assumes "strset_inv s" "e \<in> set (entries s)"
  shows "c_int (hm_key e) = uint (hm_key e)"
  by (rule c_int_small) (use assms in \<open>auto simp: strset_inv_def table_ok_def in_use_def entries_def word_le_nat_alt\<close>)

lemma find_str_spec:
  assumes inv: "strset_inv s" and t: "length t < 2 ^ 63" "0 \<notin> set t"
  shows "\<exists>r s'. strset__find_str ok s t = Some (r, s') \<and> strset_inv s' \<and> strs s' = strs s \<and>
    (r = - ENOMEM \<or> r = - ENOENT \<and> t \<notin> Domain (strs s) \<or> (t, r) \<in> strs s)"
proof (cases "strset_add_str_mem ok s (word_of_nat (length t) + 1)")
  case None
  then show ?thesis using inv by (simp add: strset__find_str_def)
next
  case (Some sp)
  obtain s1 p where sp: "sp = (s1, p)" by (cases sp)
  obtain d1 c1 where s1: "s1 = s\<lparr>strs_data := d1, strs_data_cap := c1\<rparr>" "p = strs_data_len s"
    and d1: "take (unat (strs_data_len s)) d1 = take (unat (strs_data_len s)) (strs_data s)"
      "length d1 = unat c1" "unat (strs_data_len s) + length t < unat c1" "unat c1 \<le> 2 ^ 31"
    using add_mem_room [OF inv t(1) Some [unfolded sp]] by blast
  from copy_string [OF inv d1] obtain s2 where
    s2: "copy_in (strs_data_len s) (t @ [0]) s1 = Some s2" "strs_data_len s2 = strs_data_len s"
      "strs_hash s2 = strs_hash s" "strset_inv s2" "strs s2 = strs s" "cstr (strs_data s2) (strs_data_len s) = t"
    using t(2) unfolding s1 by blast
  have tok: "table_ok (strs_data s2) (strs_data_len s) (strs_hash s2)" using s2(2,4) by (simp add: strset_inv_def)
  obtain r where r: "hashmap_find (strs_data s2) (strs_hash s2) (strs_data_len s) = Some r"
    using table_find(2) [OF tok] by blast
  note f = table_find(1) [OF tok r, folded entries_def]
  have eq: "strset__find_str ok s t = Some (case r of Some v \<Rightarrow> (c_int v, s2) | None \<Rightarrow> (- ENOENT, s2))"
    using Some sp s1 s2(1) r by (simp add: strset__find_str_def Let_def split: option.split)
  show ?thesis
  proof (cases r)
    case None
    then have "t \<notin> Domain (strs s2)" using f s2(6) by (auto simp: strs_def)
    then show ?thesis using eq None s2(4,5) by simp
  next
    case (Some v)
    then obtain e where e: "e \<in> set (entries s2)" "cstr (strs_data s2) (hm_key e) = t" "hm_key e = v" using f s2(6) by auto
    then have "(t, c_int v) \<in> strs s2" using inv_key [OF s2(4) e(1)] by (force simp: strs_def)
    then show ?thesis using eq Some s2(4,5) by simp
  qed
qed

lemma add_str_spec:
  assumes inv: "strset_inv s" and t: "length t < 2 ^ 63" "0 \<notin> set t"
  shows "\<exists>r s'. strset__add_str ok co mo s t = Some (r, s') \<and> strset_inv s' \<and>
    (r = - ENOMEM \<and> strs s' = strs s \<or>
     0 \<le> r \<and> strs s' = insert (t, r) (strs s) \<and>
       (if t \<in> Domain (strs s) then strset__data_size s' = strset__data_size s
        else r = uint (strset__data_size s)))"
proof (cases "strset_add_str_mem ok s (word_of_nat (length t) + 1)")
  case None
  then show ?thesis using inv by (simp add: strset__add_str_def)
next
  case (Some sp)
  let ?n = "strs_data_len s"
  obtain s1 p where sp: "sp = (s1, p)" by (cases sp)
  obtain d1 c1 where s1: "s1 = s\<lparr>strs_data := d1, strs_data_cap := c1\<rparr>" "p = ?n"
    and d1: "take (unat ?n) d1 = take (unat ?n) (strs_data s)"
      "length d1 = unat c1" "unat ?n + length t < unat c1" "unat c1 \<le> 2 ^ 31"
    using add_mem_room [OF inv t(1) Some [unfolded sp]] by blast
  from copy_string [OF inv d1] obtain s2 where
    s2: "copy_in ?n (t @ [0]) s1 = Some s2" "strs_data_len s2 = ?n" "strs_hash s2 = strs_hash s"
      "strset_inv s2" "strs s2 = strs s" "cstr (strs_data s2) ?n = t" "strs_data_cap s2 = c1"
    using t(2) unfolding s1 by blast
  have tok: "table_ok (strs_data s2) ?n (strs_hash s2)" using s2(2,4) by (simp add: strset_inv_def)
  let ?l = "?n + (word_of_nat (length t) + 1)"
  have l: "unat ?l = unat ?n + length t + 1"
    using d1(3,4) t(1) by (simp add: unat_word_ariths(1) unat_of_nat)
  have eq: "strset__add_str ok co mo s t =
      hashmap_insert co mo (strs_data s2) (strs_hash s2) ?n ?n HASHMAP_ADD \<bind> (\<lambda>(err, (old_off, _), h).
        if err = - EEXIST then Some (c_int old_off, s2\<lparr>strs_hash := h\<rparr>)
        else if err \<noteq> 0 then Some (err, s2\<lparr>strs_hash := h\<rparr>)
        else Some (c_int ?n, s2\<lparr>strs_hash := h, strs_data_len := ?l\<rparr>))"
    using Some sp s1 s2(1,2) by (simp add: strset__add_str_def Let_def cong del: prod.case_cong_weak if_weak_cong)
  have k: "unat ?n + length (cstr (strs_data s2) ?n) < unat ?l" "unat ?n \<le> unat ?l" using s2(6) l by simp_all
  from tok k show ?thesis
  proof (cases rule: table_insert_cases [where co = co and mo = mo])
    case (exists e)
    then have "(t, uint (hm_key e)) \<in> strs s2" "c_int (hm_key e) = uint (hm_key e)"
      using inv_key [OF s2(4), of e] s2(6) by (force simp: strs_def entries_def)+
    then have "(t, c_int (hm_key e)) \<in> strs s" "0 \<le> c_int (hm_key e)" using s2(5) by simp_all
    moreover have "strset__add_str ok co mo s t = Some (c_int (hm_key e), s2)"
      using eq exists(3) by simp
    ultimately show ?thesis using s2(2,4,5) by (auto simp: strset__data_size_def insert_absorb)
  next
    case (nomem h')
    then have "strset__add_str ok co mo s t = Some (- ENOMEM, s2\<lparr>strs_hash := h'\<rparr>)" using eq by simp
    moreover have "strset_inv (s2\<lparr>strs_hash := h'\<rparr>)" using s2(2,4) nomem(3) by (simp add: strset_inv_def)
    moreover have "strs (s2\<lparr>strs_hash := h'\<rparr>) = strs s" using s2(5) nomem(2) by (simp add: strs_def entries_def)
    ultimately show ?thesis by simp
  next
    case (added h')
    let ?s' = "s2\<lparr>strs_hash := h', strs_data_len := ?l\<rparr>"
    have r: "strset__add_str ok co mo s t = Some (c_int ?n, ?s')" using eq added(1) by simp
    have "strset_inv ?s'"
      using s2(4,7) added(2) l d1(3) by (simp add: strset_inv_def word_le_nat_alt)
    moreover have "strs ?s' = insert (t, uint ?n) (strs s)"
      unfolding s2(5) [symmetric] unfolding strs_def entries_def using added(3) s2(6) by simp
    moreover have "c_int ?n = uint ?n" by (rule c_int_small) (use d1(3,4) in linarith)
    moreover have "t \<notin> Domain (strs s)"
      unfolding s2(5) [symmetric] unfolding strs_def entries_def using added(4) s2(6) by auto
    ultimately show ?thesis using r by (simp add: strset__data_size_def)
  qed
qed

text \<open>The set built from initial data.\<close>

lemma short_takeWhile: "x \<in> set xs \<Longrightarrow> \<not> P x \<Longrightarrow> length (takeWhile P xs) < length xs"
  by (induction xs) auto

lemma init_loop_ok:
  "table_ok d (word_of_nat (length d)) h \<Longrightarrow> d = [] \<or> last d = 0 \<Longrightarrow> length d \<le> 2 ^ 31 \<Longrightarrow>
    \<exists>err h'. strset_init_loop co mo d off h = Some (err, h') \<and> table_ok d (word_of_nat (length d)) h'"
proof (induction co mo d off h rule: strset_init_loop.induct)
  case (1 co mo d off h)
  show ?case
  proof (cases "length d \<le> off")
    case True
    then show ?thesis using 1(2) by simp
  next
    case False
    let ?k = "word_of_nat off :: u64" and ?len = "word_of_nat (length d) :: u64"
    let ?o = "off + length (takeWhile (\<lambda>b. b \<noteq> 0) (drop off d)) + 1"
    have z: "0 \<in> set (drop off d)" using False 1(3) last_in_set [of "drop off d"] by (auto simp: last_drop)
    have u: "unat ?k = off" "unat ?len = length d" using False 1(4) by (simp_all add: unat_of_nat)
    have k: "unat ?k + length (cstr d ?k) < unat ?len" "unat ?len \<le> unat ?len"
      using short_takeWhile [OF z, of "\<lambda>b. b \<noteq> 0"] False u by (simp_all add: cstr_def)
    have step: "strset_init_loop co mo d off h = strset_init_loop co mo d ?o h'"
      if "hashmap_insert (co off) (mo off) d h ?k ?k HASHMAP_ADD = Some (e, old, h')" "e = 0 \<or> e = - EEXIST" for e old h'
      using that False z by (subst strset_init_loop.simps) auto
    have go: ?thesis
      if "hashmap_insert (co off) (mo off) d h ?k ?k HASHMAP_ADD = Some (e, old, h')" "e = 0 \<or> e = - EEXIST"
        "table_ok d ?len h'" for e old h'
      using 1(1) [of "(e, old, h')" e "(old, h')" old h'] that step [OF that(1,2)] False z 1(3,4) by auto
    from 1(2) k show ?thesis
    proof (cases rule: table_insert_cases [where co = "co off" and mo = "mo off"])
      case (exists e)
      then show ?thesis using go 1(2) by blast
    next
      case (nomem h')
      then have "strset_init_loop co mo d off h = Some (- ENOMEM, h')"
        using False by (subst strset_init_loop.simps) auto
      then show ?thesis using nomem(3) by blast
    next
      case (added h')
      then show ?thesis using go by blast
    qed
  qed
qed

lemma new_inv:
  assumes "\<And>d. init_data = Some d \<Longrightarrow> (d = [] \<or> last d = 0) \<and> length d \<le> 2 ^ 31" "unat mx < 2 ^ 31"
  shows "\<exists>p. strset__new set_ok hash_ok data_ok co mo mx init_data = Some p \<and> (\<forall>s. p = Ptr s \<longrightarrow> strset_inv s)"
proof -
  let ?h = "hashmap__init strset_hash_fn strset_equal_fn"
  have e: "table_ok d len ?h" for d len
    by (simp add: table_ok_def hm_ok_def fns_def) (simp add: hashmap__init_def)
  show ?thesis
  proof (cases init_data)
    case None
    then show ?thesis
      using e [of "[]" 0] assms(2) by (simp add: strset__new_def hashmap__new_def strset_inv_def)
  next
    case (Some d)
    obtain err h' where l: "strset_init_loop co mo d 0 ?h = Some (err, h')" "table_ok d (word_of_nat (length d)) h'"
      using init_loop_ok [OF e, of d co mo 0] assms(1) Some by blast
    moreover have "unat (word_of_nat (length d) :: u64) = length d" using assms(1) Some by (simp add: unat_of_nat)
    ultimately show ?thesis
      using Some assms by (auto simp: strset__new_def hashmap__new_def strset_inv_def simp del: strset_init_loop.simps)
  qed
qed

subsection \<open>Properties\<close>

text \<open>
  C11. The string set interns strings. Adding a string never leaves the array or the table, and
  unless memory runs out (nothing changes then) it returns an offset at which the array holds the
  string: the offset it already had if it was in the set, and else the old end of the data. Strings
  added before stay where they are, no string has two offsets, and a later search returns the same
  offset.
\<close>

theorem strset_interns:
  assumes "strset_inv s" "length t < 2 ^ 63" "0 \<notin> set t"
  shows "\<exists>r s'. strset__add_str realloc_ok calloc_ok malloc_ok s t = Some (r, s') \<and>
    strset_inv s' \<and> single_valued (strs s') \<and>
    (r = - ENOMEM \<and> strs s' = strs s \<or>
     0 \<le> r \<and> strs s' = insert (t, r) (strs s) \<and>
       (if t \<in> Domain (strs s) then strset__data_size s' = strset__data_size s
        else r = uint (strset__data_size s)) \<and>
       (\<exists>r' s''. strset__find_str realloc_ok' s' t = Some (r', s'') \<and> r' \<in> {r, - ENOMEM}))"
proof -
  obtain r s' where a: "strset__add_str realloc_ok calloc_ok malloc_ok s t = Some (r, s')" "strset_inv s'"
    "r = - ENOMEM \<and> strs s' = strs s \<or> 0 \<le> r \<and> strs s' = insert (t, r) (strs s) \<and>
       (if t \<in> Domain (strs s) then strset__data_size s' = strset__data_size s else r = uint (strset__data_size s))"
    using add_str_spec [OF assms] by blast
  note sv = inv_single [OF a(2)]
  obtain r' s'' where f: "strset__find_str realloc_ok' s' t = Some (r', s'')"
    "r' = - ENOMEM \<or> r' = - ENOENT \<and> t \<notin> Domain (strs s') \<or> (t, r') \<in> strs s'"
    using find_str_spec [OF a(2) assms(2,3)] by blast
  have "r' \<in> {r, - ENOMEM}" if "strs s' = insert (t, r) (strs s)"
    using f(2) sv that by (auto dest: single_valuedD)
  then show ?thesis using a sv f(1) by blast
qed

definition demo_set :: strset where
  "demo_set = (case strset__new True True True (\<lambda>i. True) (\<lambda>i. True) 2147483647 (Some [0, 97, 98, 0]) of Some (Ptr s) \<Rightarrow> s)"

theorem strset_interns_witness:
  "strset_inv demo_set \<and> map_option fst (strset__add_str True True True demo_set [97, 98]) = Some 1 \<and>
   map_option fst (strset__add_str True True True demo_set [99]) = Some 4 \<and>
   (\<exists>r s'. strset__add_str True True True demo_set [99] = Some (r, s') \<and> single_valued (strs s'))"
proof -
  let ?new = "strset__new True True True (\<lambda>i. True) (\<lambda>i. True) 2147483647 (Some [0, 97, 98, 0])"
  have "case ?new of Some (Ptr s) \<Rightarrow> True | _ \<Rightarrow> False" by code_simp
  then obtain s where s: "?new = Some (Ptr s)" by (auto split: option.split_asm eptr.split_asm)
  have "strset_inv s" using new_inv [of "Some [0, 97, 98, 0]" 2147483647 True True True "\<lambda>i. True" "\<lambda>i. True"] s by simp
  then have inv: "strset_inv demo_set" by (simp add: demo_set_def s)
  have "map_option fst (strset__add_str True True True demo_set [97, 98]) = Some 1"
    "map_option fst (strset__add_str True True True demo_set [99]) = Some 4"
    by code_simp+
  then show ?thesis using inv strset_interns [OF inv, of "[99]" True True True True] by auto
qed

end
