(* ===== verification/Common_Libbpf.thy ===== *)
theory Common_Libbpf
  imports C_Runtime
begin

section \<open>Loading an object with pinned maps\<close>

text \<open>
  \<open>common/common_libbpf.c\<close>: \<open>bpf_prog_load_xattr_maps\<close> opens an object file, prepares its
  programs, replaces maps by pinned ones, loads the object and pins the maps that were not
  found pinned. The calls into libbpf and the kernel are the fields of \<open>lops\<close>; the state
  counts the objects that are open, besides the state \<open>'w\<close> of the kernel. The result is
  \<open>None\<close> if the code dereferences a null pointer or reads a name that has been freed:
  \<open>bpf_map__reuse_fd\<close> frees the name of the map it succeeds on, unless \<open>bpf_map__name\<close> returns
  the other, real, name of the map (\<open>bm_real\<close>).
\<close>

record bprog =
  bp_ifindex :: u32
  bp_type :: nat
  bp_attach_type :: nat
  bp_fd :: int

record bmap =
  bm_name :: string
  bm_real :: bool
  bm_neutral :: bool
  bm_ifindex :: u32
  bm_fd :: int

record bobj =
  o_progs :: "bprog list"
  o_maps :: "bmap list"

record bpf_pinned_map =
  pm_name :: string
  pm_filename :: string
  map_fd :: int

record bpf_prog_load_attr_maps =
  attr_file :: "string option"
  attr_prog_type :: nat
  attr_attach_type :: nat
  attr_ifindex :: u32
  pinned_maps :: "bpf_pinned_map list"

record 'w lops =
  l_open :: "'w \<Rightarrow> string \<Rightarrow> nat \<Rightarrow> bobj eptr \<times> 'w"
  l_obj_get :: "'w \<Rightarrow> string \<Rightarrow> int \<times> 'w"
  l_reuse_fd :: "'w \<Rightarrow> bmap \<Rightarrow> int \<Rightarrow> int \<times> bmap \<times> 'w"
  l_load :: "'w \<Rightarrow> bobj \<Rightarrow> int \<times> bobj \<times> 'w"
  l_pin :: "'w \<Rightarrow> bmap \<Rightarrow> string \<Rightarrow> int \<times> 'w"

record 'w lst =
  lworld :: 'w
  open_objs :: int

definition prepare_prog :: "bpf_prog_load_attr_maps \<Rightarrow> bprog \<Rightarrow> bprog" where
  "prepare_prog attr p =
     p\<lparr>bp_ifindex := attr_ifindex attr, bp_type := attr_prog_type attr, bp_attach_type := attr_attach_type attr\<rparr>"

definition reset_fd :: "bpf_pinned_map \<Rightarrow> bpf_pinned_map" where
  "reset_fd p = p\<lparr>map_fd := - 1\<rparr>"

text \<open>
  The inner loop of the first pass: the pinned files that are for a given map. The name of the map
  is read once, before the loop; \<open>nm\<close> is \<open>None\<close> once it has been freed.
\<close>

fun reuse_pins :: "'w lops \<Rightarrow> string option \<Rightarrow> bmap \<Rightarrow> bpf_pinned_map list \<Rightarrow> 'w \<Rightarrow>
    (bmap \<times> bpf_pinned_map list \<times> 'w) option" where
  "reuse_pins L nm m [] w = Some (m, [], w)"
| "reuse_pins L None m (p # ps) w = None"
| "reuse_pins L (Some mapname) m (p # ps) w =
     (if strcmp mapname (pm_name p) \<noteq> 0
      then (case reuse_pins L (Some mapname) m ps w of
              Some (m', ps', w') \<Rightarrow> Some (m', p # ps', w') | None \<Rightarrow> None)
      else (case l_obj_get L w (pm_filename p) of (fd, w1) \<Rightarrow>
        if fd > 0
        then (case l_reuse_fd L w1 m fd of (err, m1, w2) \<Rightarrow>
          (case reuse_pins L (if err = 0 \<and> \<not> bm_real m then None else Some mapname) m1 ps w2 of
             Some (m', ps', w') \<Rightarrow> Some (m', p\<lparr>map_fd := fd\<rparr> # ps', w') | None \<Rightarrow> None))
        else (case reuse_pins L (Some mapname) m ps w1 of
                Some (m', ps', w') \<Rightarrow> Some (m', p # ps', w') | None \<Rightarrow> None)))"

fun reuse_all_maps :: "'w lops \<Rightarrow> u32 \<Rightarrow> bmap list \<Rightarrow> bpf_pinned_map list \<Rightarrow> 'w \<Rightarrow>
    (bmap list \<times> bpf_pinned_map list \<times> 'w) option" where
  "reuse_all_maps L ifx [] ps w = Some ([], ps, w)"
| "reuse_all_maps L ifx (m # ms) ps w =
     (let m = (if \<not> bm_neutral m then m\<lparr>bm_ifindex := ifx\<rparr> else m) in
      (case reuse_pins L (Some (bm_name m)) m ps w of
         None \<Rightarrow> None
       | Some (m', ps1, w1) \<Rightarrow>
           (case reuse_all_maps L ifx ms ps1 w1 of
              None \<Rightarrow> None
            | Some (ms', ps', w') \<Rightarrow> Some (m' # ms', ps', w'))))"

text \<open>The second pass: pin the maps that have no descriptor from a pinned file yet.\<close>

fun pin_one :: "'w lops \<Rightarrow> bmap \<Rightarrow> bpf_pinned_map list \<Rightarrow> 'w \<Rightarrow> bpf_pinned_map list \<times> 'w" where
  "pin_one L m [] w = ([], w)"
| "pin_one L m (p # ps) w =
     (if strcmp (bm_name m) (pm_name p) \<noteq> 0 \<or> map_fd p \<noteq> - 1
      then (case pin_one L m ps w of (ps', w') \<Rightarrow> (p # ps', w'))
      else (case l_pin L w m (pm_filename p) of (err, w1) \<Rightarrow>
        case pin_one L m ps w1 of (ps', w') \<Rightarrow>
          ((if err \<noteq> 0 then p else p\<lparr>map_fd := bm_fd m\<rparr>) # ps', w')))"

fun pin_maps :: "'w lops \<Rightarrow> bmap list \<Rightarrow> bpf_pinned_map list \<Rightarrow> 'w \<Rightarrow> bpf_pinned_map list \<times> 'w" where
  "pin_maps L [] ps w = (ps, w)"
| "pin_maps L (m # ms) ps w = (case pin_one L m ps w of (ps1, w1) \<Rightarrow> pin_maps L ms ps1 w1)"

text \<open>The result: the return value, the object and program descriptor if they are stored, and the pinned maps.\<close>

definition bpf_prog_load_xattr_maps ::
  "'w lops \<Rightarrow> bpf_prog_load_attr_maps option \<Rightarrow> 'w lst \<Rightarrow>
   (int \<times> (bobj \<times> int) option \<times> bpf_pinned_map list \<times> 'w lst) option" where
  "bpf_prog_load_xattr_maps L attr s =
     (case attr of
        None \<Rightarrow> None
      | Some a \<Rightarrow>
          (case attr_file a of
             None \<Rightarrow> Some (- EINVAL, None, pinned_maps a, s)
           | Some f \<Rightarrow>
               (case l_open L (lworld s) f (attr_prog_type a) of
                  (Ptr obj, w) \<Rightarrow>
                    let s1 = s\<lparr>open_objs := open_objs s + 1\<rparr>;
                        progs = map (prepare_prog a) (o_progs obj) in
                    (case reuse_all_maps L (attr_ifindex a) (o_maps obj) (map reset_fd (pinned_maps a)) w of
                       None \<Rightarrow> None
                     | Some (ms, ps, w) \<Rightarrow>
                         if progs = [] then Some (- ENOENT, None, ps, s1\<lparr>lworld := w, open_objs := open_objs s\<rparr>)
                         else
                           (case l_load L w \<lparr>o_progs = progs, o_maps = ms\<rparr> of (err, obj, w) \<Rightarrow>
                              if err \<noteq> 0 then Some (- EINVAL, None, ps, s1\<lparr>lworld := w, open_objs := open_objs s\<rparr>)
                              else
                                (case pin_maps L (o_maps obj) ps w of (ps, w) \<Rightarrow>
                                   Some (0, Some (obj, case o_progs obj of p # _ \<Rightarrow> bp_fd p | [] \<Rightarrow> - 1), ps, s1\<lparr>lworld := w\<rparr>))))
                | (_, w) \<Rightarrow> Some (- ENOENT, None, pinned_maps a, s\<lparr>lworld := w\<rparr>))))"

subsection \<open>Where a descriptor comes from\<close>

definition from_file :: "'w lops \<Rightarrow> bpf_pinned_map \<Rightarrow> bool" where
  "from_file L p \<longleftrightarrow> 0 < map_fd p \<and> (\<exists>w. fst (l_obj_get L w (pm_filename p)) = map_fd p)"

definition from_pin :: "'w lops \<Rightarrow> bmap set \<Rightarrow> bpf_pinned_map \<Rightarrow> bool" where
  "from_pin L M p \<longleftrightarrow> (\<exists>m \<in> M. bm_name m = pm_name p \<and> bm_fd m = map_fd p \<and> (\<exists>w. fst (l_pin L w m (pm_filename p)) = 0))"

definition sourced :: "'w lops \<Rightarrow> bmap set \<Rightarrow> bpf_pinned_map \<Rightarrow> bool" where
  "sourced L M p \<longleftrightarrow> map_fd p = - 1 \<or> from_file L p \<or> from_pin L M p"

lemma strcmp_zero [simp]: "strcmp s t = 0 \<longleftrightarrow> s = t"
  unfolding strcmp_def by (simp add: lex_sign_zero inj_map_eq_map inj_def)

text \<open>Neither pass changes the names or the files of the pinned maps.\<close>

definition same_pins :: "bpf_pinned_map list \<Rightarrow> bpf_pinned_map list \<Rightarrow> bool" where
  "same_pins ps ps' \<longleftrightarrow> map (\<lambda>p. (pm_name p, pm_filename p)) ps' = map (\<lambda>p. (pm_name p, pm_filename p)) ps"

text \<open>The first pass reads no freed name if there is at most one pinned map, or no pinned file opens.\<close>

definition no_reuse :: "'w lops \<Rightarrow> bpf_pinned_map list \<Rightarrow> bool" where
  "no_reuse L ps \<longleftrightarrow> (\<forall>p \<in> set ps. \<forall>w. fst (l_obj_get L w (pm_filename p)) \<le> 0)"

lemma reuse_pins_sourced:
  "reuse_pins L nm m ps w = Some (m', ps', w') \<Longrightarrow> \<forall>p \<in> set ps. sourced L {} p \<Longrightarrow>
   (\<forall>p \<in> set ps'. sourced L {} p) \<and> same_pins ps ps'"
proof (induction L nm m ps w arbitrary: m' ps' w' rule: reuse_pins.induct)
  case (3 L nm m p ps w)
  obtain fd w1 where g: "l_obj_get L w (pm_filename p) = (fd, w1)" by (cases "l_obj_get L w (pm_filename p)")
  have s: "0 < fd \<Longrightarrow> sourced L {} (p\<lparr>map_fd := fd\<rparr>)"
    using arg_cong [OF g, of fst] by (auto simp: sourced_def from_file_def)
  show ?case using 3 s
    by (auto simp: g same_pins_def split: if_split_asm prod.split_asm option.split_asm)
qed (auto simp: same_pins_def)

lemma reuse_pins_defined:
  "length ps \<le> 1 \<or> no_reuse L ps \<Longrightarrow> \<exists>m' ps' w'. reuse_pins L (Some nm) m ps w = Some (m', ps', w')"
proof (induction ps arbitrary: w)
  case (Cons p ps)
  obtain fd w1 where g: "l_obj_get L w (pm_filename p) = (fd, w1)" by (cases "l_obj_get L w (pm_filename p)")
  have "no_reuse L (p # ps) \<Longrightarrow> fd \<le> 0" using arg_cong [OF g, of fst] by (auto simp: no_reuse_def)
  moreover have "no_reuse L (p # ps) \<Longrightarrow> no_reuse L ps" by (simp add: no_reuse_def)
  ultimately show ?case using Cons.prems Cons.IH [of w] Cons.IH [of w1]
    by (cases ps) (auto simp: g split: prod.split)
qed simp

lemma same_pins_no_reuse: "same_pins ps ps' \<Longrightarrow> no_reuse L ps' = no_reuse L ps" "same_pins ps ps' \<Longrightarrow> length ps' = length ps"
proof -
  have *: "no_reuse L ps \<longleftrightarrow> (\<forall>x \<in> set (map (\<lambda>p. (pm_name p, pm_filename p)) ps). \<forall>w. fst (l_obj_get L w (snd x)) \<le> 0)" for ps
    by (simp add: no_reuse_def)
  show "same_pins ps ps' \<Longrightarrow> no_reuse L ps' = no_reuse L ps" unfolding * same_pins_def by simp
  show "same_pins ps ps' \<Longrightarrow> length ps' = length ps" unfolding same_pins_def by (metis length_map)
qed

lemma reuse_all_maps_sourced:
  "length ps \<le> 1 \<or> no_reuse L ps \<Longrightarrow> \<forall>p \<in> set ps. sourced L {} p \<Longrightarrow>
   \<exists>ms' ps' w'. reuse_all_maps L ifx ms ps w = Some (ms', ps', w') \<and>
     (\<forall>p \<in> set ps'. sourced L {} p) \<and> same_pins ps ps'"
proof (induction ms arbitrary: ps w)
  case (Cons m ms)
  let ?m = "if \<not> bm_neutral m then m\<lparr>bm_ifindex := ifx\<rparr> else m"
  obtain m1 ps1 w1 where r: "reuse_pins L (Some (bm_name ?m)) ?m ps w = Some (m1, ps1, w1)"
    using reuse_pins_defined [OF Cons.prems(1)] by blast
  note s = reuse_pins_sourced [OF r Cons.prems(2)]
  obtain ms2 ps2 w2 where "reuse_all_maps L ifx ms ps1 w1 = Some (ms2, ps2, w2)"
    "\<forall>p \<in> set ps2. sourced L {} p" "same_pins ps1 ps2"
    using Cons.IH [of ps1 w1] s same_pins_no_reuse(1) [of ps ps1 L] same_pins_no_reuse(2) [of ps ps1] Cons.prems(1) by auto
  then show ?case using r s by (auto simp: Let_def same_pins_def)
qed (simp add: same_pins_def)

lemma sourced_mono: "sourced L M p \<Longrightarrow> M \<subseteq> M' \<Longrightarrow> sourced L M' p"
  by (auto simp: sourced_def from_pin_def)

lemma pin_one_sourced:
  "pin_one L m ps w = (ps', w') \<Longrightarrow> m \<in> M \<Longrightarrow> \<forall>p \<in> set ps. sourced L M p \<Longrightarrow>
   (\<forall>p \<in> set ps'. sourced L M p) \<and> same_pins ps ps'"
proof (induction ps arbitrary: w ps' w')
  case (Cons p ps)
  obtain err w1 where g: "l_pin L w m (pm_filename p) = (err, w1)" by (cases "l_pin L w m (pm_filename p)")
  have s: "err = 0 \<Longrightarrow> bm_name m = pm_name p \<Longrightarrow> sourced L M (p\<lparr>map_fd := bm_fd m\<rparr>)"
    using arg_cong [OF g, of fst] Cons.prems(2) by (auto simp: sourced_def from_pin_def)
  show ?case using Cons.prems Cons.IH s
    by (auto simp: g same_pins_def split: if_split_asm prod.split_asm)
qed (simp add: same_pins_def)

lemma pin_maps_sourced:
  "pin_maps L ms ps w = (ps', w') \<Longrightarrow> set ms \<subseteq> M \<Longrightarrow> \<forall>p \<in> set ps. sourced L M p \<Longrightarrow>
   (\<forall>p \<in> set ps'. sourced L M p) \<and> same_pins ps ps'"
proof (induction ms arbitrary: ps w)
  case (Cons m ms)
  obtain ps1 w1 where r: "pin_one L m ps w = (ps1, w1)" by (cases "pin_one L m ps w")
  have m: "m \<in> M" "set ms \<subseteq> M" using Cons.prems(2) by auto
  note s = pin_one_sourced [OF r m(1) Cons.prems(3)]
  have "pin_maps L ms ps1 w1 = (ps', w')" using Cons.prems(1) r by simp
  from Cons.IH [OF this m(2)] s show ?case unfolding same_pins_def by simp
qed (simp add: same_pins_def)

lemma reset_sourced: "\<forall>p \<in> set (map reset_fd ps). sourced L {} p" "same_pins ps (map reset_fd ps)"
  by (auto simp: reset_fd_def sourced_def same_pins_def)

subsection \<open>Properties\<close>

text \<open>
  A null attribute pointer is dereferenced before it is tested, and after a map has been replaced
  the comparison with the name of the next pinned map reads a freed name.
\<close>

lemma load_null_attr: "bpf_prog_load_xattr_maps L None s = None"
  by (simp add: bpf_prog_load_xattr_maps_def)

lemma reuse_reads_freed_name:
  "fst (l_obj_get L w (pm_filename p)) > 0 \<Longrightarrow> \<forall>w fd. fst (l_reuse_fd L w m fd) = 0 \<Longrightarrow> \<not> bm_real m \<Longrightarrow>
   pm_name p = bm_name m \<Longrightarrow> reuse_pins L (Some (bm_name m)) m (p # q # ps) w = None"
proof -
  assume a: "fst (l_obj_get L w (pm_filename p)) > 0" "\<forall>w fd. fst (l_reuse_fd L w m fd) = 0" "\<not> bm_real m"
    "pm_name p = bm_name m"
  obtain fd w1 where g: "l_obj_get L w (pm_filename p) = (fd, w1)" by (cases "l_obj_get L w (pm_filename p)")
  obtain m1 w2 where "l_reuse_fd L w1 m fd = (0, m1, w2)" using a(2) by (metis prod.collapse)
  then show ?thesis using a g by simp
qed

text \<open>
  C35. Loading with pinned maps, where at most one map is pinned or no pinned file exists yet (with
  more, the first pass can read a freed name): the function returns; if it reports an error no
  object stays open and none is handed out, and if it reports success exactly one more object is
  open, it is handed out, and every pinned map has either no descriptor, or one of its file, or
  the one of the map of the object with its name, which was pinned under its file.
\<close>

theorem load_xattr_maps_spec:
  assumes ok: "length (pinned_maps a) \<le> 1 \<or> no_reuse L (pinned_maps a)"
  shows "\<exists>r out ps s'. bpf_prog_load_xattr_maps L (Some a) s = Some (r, out, ps, s') \<and>
      r \<in> {0, - EINVAL, - ENOENT} \<and> same_pins (pinned_maps a) ps \<and>
      (if r = 0
       then open_objs s' = open_objs s + 1 \<and>
         (\<exists>obj fd. out = Some (obj, fd) \<and> (\<forall>p \<in> set ps. sourced L (set (o_maps obj)) p))
       else open_objs s' = open_objs s \<and> out = None)"
proof (cases "attr_file a")
  case None
  then show ?thesis by (simp add: bpf_prog_load_xattr_maps_def same_pins_def)
next
  case (Some f)
  obtain p w where o: "l_open L (lworld s) f (attr_prog_type a) = (p, w)"
    by (cases "l_open L (lworld s) f (attr_prog_type a)")
  show ?thesis
  proof (cases p)
    case (Ptr obj)
    let ?pins = "map reset_fd (pinned_maps a)"
    have "length ?pins \<le> 1 \<or> no_reuse L ?pins"
      using ok same_pins_no_reuse(1) [OF reset_sourced(2), where L = L] by simp
    then obtain ms ps w1 where r: "reuse_all_maps L (attr_ifindex a) (o_maps obj) ?pins w = Some (ms, ps, w1)"
      and s1: "\<forall>p \<in> set ps. sourced L {} p" "same_pins ?pins ps"
      using reuse_all_maps_sourced [OF _ reset_sourced(1) [where L = L]] by blast
    let ?progs = "map (prepare_prog a) (o_progs obj)"
    obtain err obj2 w2 where l: "l_load L w1 \<lparr>o_progs = ?progs, o_maps = ms\<rparr> = (err, obj2, w2)"
      by (cases "l_load L w1 \<lparr>o_progs = ?progs, o_maps = ms\<rparr>")
    obtain ps3 w3 where n: "pin_maps L (o_maps obj2) ps w2 = (ps3, w3)" by (cases "pin_maps L (o_maps obj2) ps w2")
    have "\<forall>p \<in> set ps. sourced L (set (o_maps obj2)) p" using s1 sourced_mono by blast
    note s2 = pin_maps_sourced [OF n subset_refl this]
    have "same_pins (pinned_maps a) ps" "same_pins (pinned_maps a) ps3"
      using s1 s2 reset_sourced(2) [of "pinned_maps a"] unfolding same_pins_def by simp_all
    then show ?thesis using Some o Ptr r l n s2 by (simp add: bpf_prog_load_xattr_maps_def Let_def)
  qed (use Some o in \<open>simp_all add: bpf_prog_load_xattr_maps_def same_pins_def\<close>)
qed

definition demo_lops :: "unit lops" where
  "demo_lops = \<lparr>l_open = (\<lambda>w f t. (Ptr \<lparr>o_progs = [\<lparr>bp_ifindex = 0, bp_type = 0, bp_attach_type = 0, bp_fd = 9\<rparr>],
       o_maps = [\<lparr>bm_name = ''a'', bm_real = False, bm_neutral = True, bm_ifindex = 0, bm_fd = 5\<rparr>]\<rparr>, w)),
     l_obj_get = (\<lambda>w f. (- 1, w)), l_reuse_fd = (\<lambda>w m fd. (0, m\<lparr>bm_fd := fd\<rparr>, w)),
     l_load = (\<lambda>w ob. (0, ob, w)), l_pin = (\<lambda>w m f. (0, w))\<rparr>"

theorem load_xattr_maps_spec_witness:
  "\<exists>out ps s'. bpf_prog_load_xattr_maps demo_lops
     (Some \<lparr>attr_file = Some ''f'', attr_prog_type = 6, attr_attach_type = 0, attr_ifindex = 3,
        pinned_maps = [\<lparr>pm_name = ''a'', pm_filename = ''x'', map_fd = 0\<rparr>, \<lparr>pm_name = ''b'', pm_filename = ''y'', map_fd = 0\<rparr>]\<rparr>)
     \<lparr>lworld = (), open_objs = 0\<rparr> = Some (0, out, ps, s') \<and> open_objs s' = 1 \<and> map map_fd ps = [5, - 1]"
proof -
  let ?a = "\<lparr>attr_file = Some ''f'', attr_prog_type = 6, attr_attach_type = 0, attr_ifindex = 3,
      pinned_maps = [\<lparr>pm_name = ''a'', pm_filename = ''x'', map_fd = 0\<rparr>, \<lparr>pm_name = ''b'', pm_filename = ''y'', map_fd = 0\<rparr>]\<rparr>"
  let ?s = "\<lparr>lworld = (), open_objs = 0\<rparr>"
  obtain r out ps s' where r: "bpf_prog_load_xattr_maps demo_lops (Some ?a) ?s = Some (r, out, ps, s')"
    "if r = 0 then open_objs s' = open_objs ?s + 1 else open_objs s' = open_objs ?s"
    using load_xattr_maps_spec [of ?a demo_lops ?s] by (auto simp: no_reuse_def demo_lops_def)
  have "map_option (\<lambda>(r, out, ps, s'). (r, map map_fd ps)) (bpf_prog_load_xattr_maps demo_lops (Some ?a) ?s) =
      Some (0, [5, - 1])"
    by code_simp
  then have "r = 0" "map map_fd ps = [5, - 1]" using r(1) by auto
  then show ?thesis using r by auto
qed

end
