(* ===== verification/Libbpf_Ringbuf.thy ===== *)
theory Libbpf_Ringbuf
  imports C_Runtime
begin

section \<open>The BPF ring buffer\<close>

text \<open>
  \<open>lib/libbpf/src/ringbuf.c\<close>: the consumer of the ring the kernel writes (\<open>ring_buffer\<close>) and the
  producer of the ring the kernel reads (\<open>user_ring_buffer\<close>). Both rings hold records that start
  with a header of eight bytes and are padded to a multiple of eight. The data pages are mapped
  twice in a row, so the byte at offset \<open>o\<close> of the mapping is the byte \<open>o mod sz\<close> of the ring.
\<close>

unbundle bit_operations_syntax

abbreviation (input) BPF_RINGBUF_BUSY_BIT :: u32 where "BPF_RINGBUF_BUSY_BIT \<equiv> 0x80000000"
abbreviation (input) BPF_RINGBUF_DISCARD_BIT :: u32 where "BPF_RINGBUF_DISCARD_BIT \<equiv> 0x40000000"
abbreviation (input) BPF_RINGBUF_HDR_SZ :: nat where "BPF_RINGBUF_HDR_SZ \<equiv> 8"
abbreviation (input) INT_MAX :: int where "INT_MAX \<equiv> 0x7FFFFFFF"

subsection \<open>The data pages\<close>

type_synonym rmem = "nat \<Rightarrow> u8"

definition rget :: "nat \<Rightarrow> rmem \<Rightarrow> nat \<Rightarrow> nat \<Rightarrow> u8 list" where
  "rget sz m p n = map (\<lambda>i. m ((p + i) mod sz)) [0..<n]"

definition rput :: "nat \<Rightarrow> rmem \<Rightarrow> nat \<Rightarrow> u8 list \<Rightarrow> rmem" where
  "rput sz m p bs = (\<lambda>a. let i = (a + (sz - p mod sz)) mod sz in if i < length bs then bs ! i else m a)"

lemma length_rget [simp]: "length (rget sz m p n) = n"
  by (simp add: rget_def)

lemma rget_mod [simp]: "rget sz m (p mod sz) n = rget sz m p n"
  by (simp add: rget_def mod_add_left_eq)

lemma rput_mod [simp]: "rput sz m (p mod sz) bs = rput sz m p bs"
  by (simp add: rput_def)

lemma rput_index: "rput sz m q bs (a mod sz) =
   (let i = (a + (sz - q mod sz)) mod sz in if i < length bs then bs ! i else m (a mod sz))"
  unfolding rput_def mod_add_left_eq ..

lemma wrapped_after:
  fixes a q sz :: nat
  assumes "0 < sz" "q \<le> a" "a < q + sz"
  shows "(a + (sz - q mod sz)) mod sz = a - q"
proof -
  define t r where "t = q div sz * sz" and "r = q mod sz"
  have "r < sz" "q = t + r" using assms(1) unfolding t_def r_def by simp_all
  then have "a + (sz - r) = (a - q) + (t + sz)" using assms(2) by linarith
  then have "a + (sz - q mod sz) = (a - q) + (q div sz + 1) * sz" unfolding t_def r_def by simp
  then have "(a + (sz - q mod sz)) mod sz = (a - q) mod sz" by (simp only: mod_mult_self1)
  then show ?thesis using assms by simp
qed

lemma wrapped_before:
  fixes a q sz :: nat
  assumes "0 < sz" "a < q" "q \<le> a + sz"
  shows "(a + (sz - q mod sz)) mod sz = a + sz - q"
proof -
  have "(a + sz + (sz - q mod sz)) mod sz = (a + (sz - q mod sz)) mod sz"
    unfolding add.assoc add.left_commute [of sz] by (metis mod_add_self1 add.left_commute)
  then show ?thesis using wrapped_after [of sz q "a + sz"] assms by simp
qed

lemma rget_rput_same:
  assumes "0 < sz" "n \<le> sz" "d + n \<le> length bs" "length bs \<le> sz"
  shows "rget sz (rput sz m p bs) (p + d) n = take n (drop d bs)"
proof (rule nth_equalityI)
  fix i assume "i < length (rget sz (rput sz m p bs) (p + d) n)"
  then have i: "i < n" by simp
  have "(p + d + i + (sz - p mod sz)) mod sz = d + i"
    using wrapped_after [of sz p "p + d + i"] assms i by simp
  then show "rget sz (rput sz m p bs) (p + d) n ! i = take n (drop d bs) ! i"
    using assms i by (simp add: rget_def rput_index Let_def)
qed (use assms in simp)

lemma rget_rput_other:
  assumes "w \<le> p" "p + n \<le> w + sz" "w \<le> q" "q + length bs \<le> w + sz" "p + n \<le> q \<or> q + length bs \<le> p" "0 < sz"
  shows "rget sz (rput sz m q bs) p n = rget sz m p n"
proof (rule nth_equalityI)
  fix i assume "i < length (rget sz (rput sz m q bs) p n)"
  then have i: "i < n" by simp
  have "\<not> (p + i + (sz - q mod sz)) mod sz < length bs"
    using wrapped_after [of sz q "p + i"] wrapped_before [of sz "p + i" q] assms i by (cases "q \<le> p + i") auto
  then show "rget sz (rput sz m q bs) p n ! i = rget sz m p n ! i"
    using assms i by (simp add: rget_def rput_index Let_def)
qed simp

subsection \<open>Records\<close>

datatype rec_state = Busy | Committed | Discarded

text \<open>A record: its state and the bytes of its sample.\<close>

type_synonym rrec = "rec_state \<times> u8 list"

fun state_bits :: "rec_state \<Rightarrow> u32" where
  "state_bits Busy = BPF_RINGBUF_BUSY_BIT"
| "state_bits Committed = 0"
| "state_bits Discarded = BPF_RINGBUF_DISCARD_BIT"

definition hdr_word :: "rec_state \<Rightarrow> nat \<Rightarrow> u32" where
  "hdr_word st n = of_nat n OR state_bits st"

text \<open>The room a sample of \<open>n\<close> bytes takes, and the room of a list of records.\<close>

definition rlen :: "nat \<Rightarrow> nat" where
  "rlen n = (n + 15) div 8 * 8"

definition room :: "rrec list \<Rightarrow> nat" where
  "room rs = sum_list (map (\<lambda>r. rlen (length (snd r))) rs)"

fun laid :: "nat \<Rightarrow> rmem \<Rightarrow> nat \<Rightarrow> rrec list \<Rightarrow> bool" where
  "laid sz m p [] \<longleftrightarrow> True"
| "laid sz m p ((st, bs) # rs) \<longleftrightarrow>
     length bs < 2 ^ 30 \<and> le_dec (rget sz m p 4) = hdr_word st (length bs) \<and>
     rget sz m (p + BPF_RINGBUF_HDR_SZ) (length bs) = bs \<and> laid sz m (p + rlen (length bs)) rs"

definition roundup_len :: "u32 \<Rightarrow> s32" where
  "roundup_len len =
     (let len = push_bit 2 len; len = drop_bit 2 len; len = len + 8 in (len + 7) div 8 * 8)"

lemma rlen_bounds: "n + 8 \<le> rlen n" "rlen n \<le> n + 15" "8 dvd rlen n"
proof -
  have "(n + 15) div 8 * 8 + (n + 15) mod 8 = n + 15" "(n + 15) mod 8 < 8" by simp_all
  then show "n + 8 \<le> rlen n" "rlen n \<le> n + 15" unfolding rlen_def by linarith+
  show "8 dvd rlen n" by (simp add: rlen_def)
qed

lemma room_simps [simp]:
  "room [] = 0" "room (r # rs) = rlen (length (snd r)) + room rs" "room (rs @ rs') = room rs + room rs'"
  by (simp_all add: room_def)

lemma rec_bits:
  fixes v :: u32
  assumes "unat v < 2 ^ 30"
  shows "take_bit 30 v = v" "\<not> bit v 30" "\<not> bit v 31"
proof -
  have "take_bit 30 (unat v) = unat v" using assms by (simp add: take_bit_nat_eq_self)
  then show t: "take_bit 30 v = v" by (metis unsigned_take_bit_eq word_unat_eq_iff)
  show "\<not> bit v 30" "\<not> bit v 31" using bit_take_bit_iff [of 30 v 30] bit_take_bit_iff [of 30 v 31] unfolding t by simp_all
qed

lemma state_bits_exp: "BPF_RINGBUF_BUSY_BIT = 2 ^ 31" "BPF_RINGBUF_DISCARD_BIT = 2 ^ 30"
  by simp_all

lemma bit_state_bits:
  "bit BPF_RINGBUF_BUSY_BIT n \<longleftrightarrow> n = 31" "bit BPF_RINGBUF_DISCARD_BIT n \<longleftrightarrow> n = 30"
proof -
  have "n = i \<and> i < 32 \<longleftrightarrow> possible_bit TYPE(u32) n \<and> n = i" for i by (auto simp: possible_bit_def)
  from this [of 31] this [of 30] show "bit BPF_RINGBUF_BUSY_BIT n \<longleftrightarrow> n = 31" "bit BPF_RINGBUF_DISCARD_BIT n \<longleftrightarrow> n = 30"
    unfolding state_bits_exp bit_exp_iff by linarith+
qed

lemma state_bits_bit [simp]: "bit (state_bits st) n \<longleftrightarrow> st = Busy \<and> n = 31 \<or> st = Discarded \<and> n = 30"
  by (cases st) (simp_all only: state_bits.simps bit_state_bits rec_state.distinct simp_thms bit_0_eq bot_fun_def bot_bool_def)

lemma unat_small: "n < 2 ^ 30 \<Longrightarrow> unat (of_nat n :: u32) = n"
  by (simp add: unat_of_nat)

lemma sint_small: "unat (w :: u32) < 2 ^ 31 \<Longrightarrow> sint w = uint w"
proof -
  assume "unat w < 2 ^ 31"
  then have "int (unat w) < int (2 ^ 31)" unfolding of_nat_less_iff .
  then have t: "take_bit 31 (uint w) = uint w" by (simp add: take_bit_int_eq_self)
  have "\<not> bit (uint w) 31" using bit_take_bit_iff [of 31 "uint w" 31] unfolding t by simp
  then show ?thesis using t by (simp add: sint_uint signed_take_bit_eq_if_positive)
qed

lemma hdr_word_tests:
  assumes "n < 2 ^ 30"
  shows "hdr_word st n AND BPF_RINGBUF_BUSY_BIT = 0 \<longleftrightarrow> st \<noteq> Busy"
    "hdr_word st n AND BPF_RINGBUF_DISCARD_BIT = 0 \<longleftrightarrow> st \<noteq> Discarded"
    "take_bit 30 (hdr_word st n) = of_nat n"
    "unat (hdr_word Committed n) = n" "sint (hdr_word Committed n) = int n"
proof -
  have u: "unat (of_nat n :: u32) < 2 ^ 30" using unat_small [OF assms] assms by simp
  note b = rec_bits [OF u]
  show "hdr_word st n AND BPF_RINGBUF_BUSY_BIT = 0 \<longleftrightarrow> st \<noteq> Busy"
    "hdr_word st n AND BPF_RINGBUF_DISCARD_BIT = 0 \<longleftrightarrow> st \<noteq> Discarded"
    unfolding state_bits_exp and_exp_eq_0_iff_not_bit hdr_word_def bit_or_iff
    using b by simp_all
  show "take_bit 30 (hdr_word st n) = of_nat n"
  proof (rule bit_eqI)
    fix i
    have "bit (of_nat n :: u32) i \<Longrightarrow> i < 30" using b(1) bit_take_bit_iff [of 30 "of_nat n :: u32" i] by metis
    then show "bit (take_bit 30 (hdr_word st n)) i = bit (of_nat n :: u32) i"
      unfolding bit_take_bit_iff hdr_word_def bit_or_iff by auto
  qed
  show "unat (hdr_word Committed n) = n" using unat_small [OF assms] by (simp add: hdr_word_def)
  then have "unat (hdr_word Committed n) < 2 ^ 31" "uint (hdr_word Committed n) = int n"
    using assms by (simp_all only: uint_nat) simp
  then show "sint (hdr_word Committed n) = int n" using sint_small by metis
qed

lemma hdr_word_commit:
  assumes "n < 2 ^ 30"
  shows "hdr_word Busy n AND NOT BPF_RINGBUF_BUSY_BIT = hdr_word Committed n"
    "hdr_word Committed n OR BPF_RINGBUF_DISCARD_BIT = hdr_word Discarded n"
proof -
  have u: "unat (of_nat n :: u32) < 2 ^ 30" using unat_small [OF assms] assms by simp
  show "hdr_word Busy n AND NOT BPF_RINGBUF_BUSY_BIT = hdr_word Committed n"
  proof (rule bit_eqI)
    fix i
    show "bit (hdr_word Busy n AND NOT BPF_RINGBUF_BUSY_BIT) i = bit (hdr_word Committed n) i" if "possible_bit TYPE(u32) i"
      using that rec_bits [OF u] unfolding hdr_word_def bit_and_iff bit_or_iff bit_not_iff bit_state_bits state_bits_bit by auto
  qed
  show "hdr_word Committed n OR BPF_RINGBUF_DISCARD_BIT = hdr_word Discarded n"
    by (simp add: hdr_word_def)
qed

lemma take_bit_30_less: "unat (take_bit 30 (len :: u32)) < 2 ^ 30"
proof -
  have "unat (take_bit 30 len) = take_bit 30 (unat len)" by (rule unsigned_take_bit_eq)
  then show ?thesis using take_bit_nat_less_exp by metis
qed

lemma drop_push_take: "drop_bit 2 (push_bit 2 len) = take_bit 30 (len :: u32)"
  by (rule bit_eqI) (auto simp: bit_simps)

lemma roundup_len_eq: "unat (roundup_len len) = rlen (unat (take_bit 30 len))"
proof -
  note less = take_bit_30_less [of len]
  then have "unat (take_bit 30 len + 8 + 7) = unat (take_bit 30 len) + 15"
    by (simp add: unat_word_ariths)
  then have "unat ((take_bit 30 len + 8 + 7) div 8) = (unat (take_bit 30 len) + 15) div 8"
    by (simp add: unat_div)
  then show ?thesis using less
    unfolding roundup_len_def Let_def drop_push_take rlen_def by (simp add: unat_word_ariths)
qed

lemma scast_roundup: "unat (scast (roundup_len len) :: u64) = rlen (unat (take_bit 30 len))"
proof -
  note less = take_bit_30_less [of len]
  then have r: "unat (roundup_len len) < 2 ^ 31"
    using rlen_bounds(2) [of "unat (take_bit 30 len)"] unfolding roundup_len_eq by simp
  have "(scast (roundup_len len) :: u64) = ucast (roundup_len len)"
    unfolding scast_eq ucast_eq sint_small [OF r] ..
  then show ?thesis unfolding roundup_len_eq [symmetric] by (simp add: unsigned_ucast_eq take_bit_nat_eq_self less_trans [OF r])
qed

subsection \<open>The consumer\<close>

text \<open>
  The kernel writes the ring while it is read. What the loads of the \<open>k\<close>-th pass of the outer loop
  return is \<open>view k\<close>: the position of the producer and the memory. (A pass loads every header once,
  so one memory per pass describes all its loads, whenever they happen; the sample of a committed
  record does not change until it is consumed.) The callback takes the state \<open>'c\<close> of the
  application, the bytes of the sample and its length.
\<close>

type_synonym 'c sample_cb = "'c \<Rightarrow> u8 list \<Rightarrow> int \<Rightarrow> int \<times> 'c"
type_synonym ring_view = "nat \<Rightarrow> u64 \<times> rmem"

record 'c rstate =
  cons_pos :: u64
  consumer_pos :: u64
  cb_ctx :: 'c
  rcnt :: int
  got_new_data :: bool

datatype pass_end = Exhausted | Done | Failed int

definition ring_size :: "u64 \<Rightarrow> nat" where
  "ring_size msk = unat msk + 1"

partial_function (option) process_pass ::
  "u64 \<Rightarrow> 'c sample_cb \<Rightarrow> rmem \<Rightarrow> u64 \<Rightarrow> 'c rstate \<Rightarrow> (pass_end \<times> 'c rstate) option" where
  "process_pass msk cb m prod_pos s =
     (if cons_pos s < prod_pos then
        let len_ptr = unat (cons_pos s AND msk); len = le_dec (rget (ring_size msk) m len_ptr 4) :: u32 in
        if len AND BPF_RINGBUF_BUSY_BIT \<noteq> 0 then Some (Done, s)
        else
          let s = s\<lparr>got_new_data := True, cons_pos := cons_pos s + scast (roundup_len len)\<rparr> in
          if len AND BPF_RINGBUF_DISCARD_BIT = 0 then
            let (err, c) = cb (cb_ctx s) (rget (ring_size msk) m (len_ptr + BPF_RINGBUF_HDR_SZ) (unat len)) (sint len) in
            if err < 0 then Some (Failed err, s\<lparr>cb_ctx := c, consumer_pos := cons_pos s\<rparr>)
            else process_pass msk cb m prod_pos (s\<lparr>cb_ctx := c, rcnt := rcnt s + 1, consumer_pos := cons_pos s\<rparr>)
          else process_pass msk cb m prod_pos (s\<lparr>consumer_pos := cons_pos s\<rparr>)
      else Some (Exhausted, s))"

partial_function (option) process_loop ::
  "u64 \<Rightarrow> 'c sample_cb \<Rightarrow> ring_view \<Rightarrow> nat \<Rightarrow> 'c rstate \<Rightarrow> (int \<times> 'c rstate) option" where
  "process_loop msk cb view k s =
     (case process_pass msk cb (snd (view k)) (fst (view k)) (s\<lparr>got_new_data := False\<rparr>) of
        None \<Rightarrow> None
      | Some (e, s) \<Rightarrow>
          (case e of
             Done \<Rightarrow> Some (rcnt s, s)
           | Failed err \<Rightarrow> Some (err, s)
           | Exhausted \<Rightarrow> if got_new_data s then process_loop msk cb view (k + 1) s else Some (rcnt s, s)))"

definition ringbuf_process_ring ::
  "u64 \<Rightarrow> 'c sample_cb \<Rightarrow> ring_view \<Rightarrow> u64 \<Rightarrow> 'c \<Rightarrow> (int \<times> u64 \<times> 'c) option" where
  "ringbuf_process_ring msk cb view pos c =
     (case process_loop msk cb view 0
        \<lparr>cons_pos = pos, consumer_pos = pos, cb_ctx = c, rcnt = 0, got_new_data = False\<rparr> of
        None \<Rightarrow> None
      | Some (r, s) \<Rightarrow> Some (r, consumer_pos s, cb_ctx s))"

text \<open>What a consumer of the records does, without the ring.\<close>

fun deliver :: "'c sample_cb \<Rightarrow> 'c \<Rightarrow> rrec list \<Rightarrow> pass_end \<times> 'c \<times> nat \<times> nat" where
  "deliver cb c [] = (Exhausted, c, 0, 0)"
| "deliver cb c ((Busy, bs) # rs) = (Done, c, 0, 0)"
| "deliver cb c ((Discarded, bs) # rs) =
     (case deliver cb c rs of (e, c', n, b) \<Rightarrow> (e, c', n, rlen (length bs) + b))"
| "deliver cb c ((Committed, bs) # rs) =
     (case cb c bs (int (length bs)) of (err, c') \<Rightarrow>
        if err < 0 then (Failed err, c', 0, rlen (length bs))
        else (case deliver cb c' rs of (e, c'', n, b) \<Rightarrow> (e, c'', n + 1, rlen (length bs) + b)))"

definition ring_mask :: "u64 \<Rightarrow> bool" where
  "ring_mask msk \<longleftrightarrow> (\<exists>k < 64. msk = 2 ^ k - 1)"

lemma ring_size_exp:
  assumes "k < 64"
  shows "ring_size (2 ^ k - 1) = 2 ^ k"
proof -
  have "(2 :: nat) ^ k < 2 ^ 64" using assms by (rule power_strict_increasing) simp
  then have u: "unat (2 ^ k :: u64) = 2 ^ k"
    using unat_of_nat [of "2 ^ k", where ?'a = 64] by (simp add: take_bit_eq_mod del: unat_of_nat)
  have "unat (2 ^ k - 1 :: u64) = 2 ^ k - 1" using u by (subst unat_sub) (auto simp: word_le_nat_alt)
  then show ?thesis by (simp add: ring_size_def)
qed

lemma ring_mask_and:
  assumes "ring_mask msk"
  shows "unat (w AND msk) = unat w mod ring_size msk"
proof -
  obtain k where k: "k < 64" "msk = 2 ^ k - 1" using assms by (auto simp: ring_mask_def)
  then have "ring_size msk = 2 ^ k" using ring_size_exp by simp
  moreover have "w AND msk = take_bit k w" unfolding k(2) by (simp add: take_bit_eq_mask mask_eq_exp_minus_1)
  moreover have "unat (take_bit k w) = unat w mod 2 ^ k"
    unfolding unsigned_take_bit_eq by (rule take_bit_nat_def)
  ultimately show ?thesis by simp
qed

definition advance :: "nat \<Rightarrow> 'c rstate \<Rightarrow> 'c rstate" where
  "advance n s = s\<lparr>got_new_data := True, cons_pos := cons_pos s + of_nat n, consumer_pos := cons_pos s + of_nat n\<rparr>"

lemma pass_step:
  assumes "ring_mask msk" "laid (ring_size msk) m (unat (cons_pos s)) ((st, bs) # rs)" "cons_pos s < prod_pos"
  shows "process_pass msk cb m prod_pos s =
    (case st of
       Busy \<Rightarrow> Some (Done, s)
     | Discarded \<Rightarrow> process_pass msk cb m prod_pos (advance (rlen (length bs)) s)
     | Committed \<Rightarrow>
         (case cb (cb_ctx s) bs (int (length bs)) of (err, c) \<Rightarrow>
            if err < 0 then Some (Failed err, (advance (rlen (length bs)) s)\<lparr>cb_ctx := c\<rparr>)
            else process_pass msk cb m prod_pos ((advance (rlen (length bs)) s)\<lparr>cb_ctx := c, rcnt := rcnt s + 1\<rparr>)))"
proof -
  have n: "length bs < 2 ^ 30" and h: "le_dec (rget (ring_size msk) m (unat (cons_pos s)) 4) = hdr_word st (length bs)"
    and d: "rget (ring_size msk) m (unat (cons_pos s) + 8) (length bs) = bs"
    using assms(2) by simp_all
  have g: "rget (ring_size msk) m (unat (cons_pos s AND msk) + 8) (length bs) = bs"
    using d unfolding ring_mask_and [OF assms(1)] by (metis mod_add_left_eq rget_mod)
  have r: "(scast (roundup_len (hdr_word st (length bs))) :: u64) = of_nat (rlen (length bs))"
    using scast_roundup [of "hdr_word st (length bs)"] unat_small [OF n] unfolding hdr_word_tests(3) [OF n]
    by (metis of_nat_unat ucast_id)
  show ?thesis
    using assms(3) n g unfolding process_pass.simps [of msk cb m prod_pos s] Let_def ring_mask_and [OF assms(1)] rget_mod h r
    by (cases s; cases st) (auto simp: hdr_word_tests advance_def split: prod.split)
qed

lemma advance_sel [simp]:
  "cons_pos (advance n s) = cons_pos s + of_nat n" "consumer_pos (advance n s) = cons_pos s + of_nat n"
  "cb_ctx (advance n s) = cb_ctx s" "rcnt (advance n s) = rcnt s" "got_new_data (advance n s)"
  by (simp_all add: advance_def)

definition finish :: "'c \<Rightarrow> nat \<Rightarrow> nat \<Rightarrow> 'c rstate \<Rightarrow> 'c rstate" where
  "finish c n b s = s\<lparr>cons_pos := cons_pos s + of_nat b, consumer_pos := cons_pos s + of_nat b,
     cb_ctx := c, rcnt := rcnt s + int n, got_new_data := got_new_data s \<or> b \<noteq> 0\<rparr>"

lemma finish_advance:
  "finish c n b (advance r s) = finish c n (r + b) (s\<lparr>got_new_data := True\<rparr>)"
  "0 < b \<Longrightarrow> finish c n b (s\<lparr>got_new_data := x\<rparr>) = finish c n b s"
  "finish c n b ((advance r s)\<lparr>cb_ctx := c', rcnt := rcnt s + 1\<rparr>) = finish c (n + 1) (r + b) (s\<lparr>got_new_data := True\<rparr>)"
  "(advance r s)\<lparr>cb_ctx := c\<rparr> = finish c 0 r (s\<lparr>got_new_data := True\<rparr>)"
  by (cases s; simp add: finish_def advance_def ac_simps)+

lemma rlen_pos [simp]: "0 < rlen n"
  using rlen_bounds(1) [of n] by simp

lemma pass_spec:
  assumes mask: "ring_mask msk"
  shows "laid (ring_size msk) m (unat (cons_pos s)) rs \<Longrightarrow> unat prod_pos = unat (cons_pos s) + room rs \<Longrightarrow>
   consumer_pos s = cons_pos s \<Longrightarrow> deliver cb (cb_ctx s) rs = (e, c', n, b) \<Longrightarrow>
   process_pass msk cb m prod_pos s = Some (e, finish c' n b s)"
proof (induction rs arbitrary: s n b)
  case Nil
  then have "\<not> cons_pos s < prod_pos" by (simp add: word_less_nat_alt)
  then show ?case using Nil by (subst process_pass.simps) (cases s, simp add: finish_def)
next
  case (Cons r rs)
  obtain st bs where r: "r = (st, bs)" by (cases r)
  let ?l = "rlen (length bs)"
  have p: "unat prod_pos = unat (cons_pos s) + ?l + room rs" using Cons.prems(2) r by simp
  then have less: "cons_pos s < prod_pos" unfolding word_less_nat_alt using rlen_pos [of "length bs"] by linarith
  have "unat (cons_pos s) + ?l < 2 ^ 64" using p unsigned_less [of prod_pos, where ?'a = nat] by simp
  then have u: "unat (cons_pos s + of_nat ?l) = unat (cons_pos s) + ?l"
    by (simp add: unat_word_ariths unat_of_nat take_bit_eq_mod)
  note step = pass_step [OF mask Cons.prems(1) [unfolded r] less, of cb]
  have l: "laid (ring_size msk) m (unat (cons_pos s + of_nat ?l)) rs" using Cons.prems(1) r u by simp
  have IH: "deliver cb c rs = (e, c', n, b) \<Longrightarrow>
      process_pass msk cb m prod_pos ((advance ?l s)\<lparr>cb_ctx := c, rcnt := rcnt s + 1\<rparr>) =
      Some (e, finish c' n b ((advance ?l s)\<lparr>cb_ctx := c, rcnt := rcnt s + 1\<rparr>))" for c n b
    using Cons.IH [of "(advance ?l s)\<lparr>cb_ctx := c, rcnt := rcnt s + 1\<rparr>"] l p u by simp
  have IH0: "deliver cb (cb_ctx s) rs = (e, c', n, b) \<Longrightarrow>
      process_pass msk cb m prod_pos (advance ?l s) = Some (e, finish c' n b (advance ?l s))" for n b
    using Cons.IH [of "advance ?l s"] l p u by simp
  show ?case
  proof (cases st)
    case Busy
    then show ?thesis using step Cons.prems(3,4) r by (cases s) (auto simp: finish_def)
  next
    case Discarded
    then show ?thesis using step Cons.prems(4) r IH0 by (auto simp: finish_advance split: prod.split_asm)
  next
    case Committed
    obtain err c where cb: "cb (cb_ctx s) bs (int (length bs)) = (err, c)" by (cases "cb (cb_ctx s) bs (int (length bs))")
    show ?thesis
    proof (cases "err < 0")
      case True
      then show ?thesis using step Cons.prems(4) r Committed cb by (auto simp: finish_advance)
    next
      case False
      then show ?thesis using step Cons.prems(4) r Committed cb IH
        by (auto simp: finish_advance(2,3) split: prod.split_asm)
    qed
  qed
qed

lemma deliver_append:
  "deliver cb c (xs @ ys) =
     (case deliver cb c xs of (e, c', n, b) \<Rightarrow>
        if e = Exhausted then (case deliver cb c' ys of (e', c'', n', b') \<Rightarrow> (e', c'', n + n', b + b'))
        else (e, c', n, b))"
  by (induction cb c xs rule: deliver.induct) (auto split: prod.split)

lemma deliver_exhausted: "deliver cb c rs = (Exhausted, c', n, b) \<Longrightarrow> b = room rs"
  by (induction cb c rs arbitrary: n b rule: deliver.induct) (auto split: prod.split_asm if_split_asm)

lemma room_zero: "room rs = 0 \<longleftrightarrow> rs = []"
  using rlen_pos by (cases rs) (auto simp del: rlen_pos)

text \<open>
  The kernel publishes the records \<open>todo k\<close> before the \<open>k\<close>-th pass, behind those of the passes
  before; the \<open>K\<close>-th pass is the first that finds nothing new.
\<close>

definition ring_views :: "u64 \<Rightarrow> ring_view \<Rightarrow> nat \<Rightarrow> (nat \<Rightarrow> rrec list) \<Rightarrow> nat \<Rightarrow> bool" where
  "ring_views msk view p todo K \<longleftrightarrow>
     (\<forall>k \<le> K. laid (ring_size msk) (snd (view k)) (p + room (concat (map todo [0..<k]))) (todo k) \<and>
        unat (fst (view k)) = p + room (concat (map todo [0..<k])) + room (todo k) \<and> (todo k = [] \<longleftrightarrow> k = K))"

fun pass_result :: "pass_end \<Rightarrow> int \<Rightarrow> int" where
  "pass_result (Failed err) n = err"
| "pass_result _ n = n"

lemma loop_spec:
  assumes mask: "ring_mask msk" and views: "ring_views msk view p todo K"
  shows "k \<le> K \<Longrightarrow> unat (cons_pos s) = p + room (concat (map todo [0..<k])) \<Longrightarrow> consumer_pos s = cons_pos s \<Longrightarrow>
    deliver cb (cb_ctx s) (concat (map todo [k..<K])) = (e, c', n, b) \<Longrightarrow>
    \<exists>s'. process_loop msk cb view k s = Some (pass_result e (rcnt s + int n), s') \<and>
      consumer_pos s' = cons_pos s + of_nat b \<and> cb_ctx s' = c'"
proof (induction k arbitrary: s n b rule: inc_induct)
  case base
  have "process_pass msk cb (snd (view K)) (fst (view K)) (s\<lparr>got_new_data := False\<rparr>) =
      Some (Exhausted, finish (cb_ctx s) 0 0 (s\<lparr>got_new_data := False\<rparr>))"
    using views base by (intro pass_spec [OF mask, of _ _ "[]"]) (auto simp: ring_views_def)
  then show ?case using base by (subst process_loop.simps) (auto simp: finish_def)
next
  case (step k)
  let ?s = "s\<lparr>got_new_data := False\<rparr>"
  obtain e1 c1 n1 b1 where d: "deliver cb (cb_ctx s) (todo k) = (e1, c1, n1, b1)" by (cases "deliver cb (cb_ctx s) (todo k)")
  have v: "laid (ring_size msk) (snd (view k)) (unat (cons_pos s)) (todo k)"
    "unat (fst (view k)) = unat (cons_pos s) + room (todo k)" "todo k \<noteq> []"
    using views step.hyps step.prems(1) by (auto simp: ring_views_def)
  have pass: "process_pass msk cb (snd (view k)) (fst (view k)) ?s = Some (e1, finish c1 n1 b1 ?s)"
    using v d step.prems(2) by (intro pass_spec [OF mask]) auto
  have all: "deliver cb (cb_ctx s) (todo k @ concat (map todo [Suc k..<K])) = (e, c', n, b)"
    using step.prems(3) step.hyps(2) by (simp add: upt_conv_Cons)
  show ?case
  proof (cases "e1 = Exhausted")
    case True
    obtain n2 b2 where d2: "deliver cb c1 (concat (map todo [Suc k..<K])) = (e, c', n2, b2)" "n = n1 + n2" "b = b1 + b2"
      using all d True by (auto simp: deliver_append split: prod.split_asm)
    have b1: "b1 = room (todo k)" using d True by (intro deliver_exhausted) simp
    have b0: "b1 \<noteq> 0" using v(3) room_zero b1 by simp
    let ?t = "finish c1 n1 b1 ?s"
    have "unat (cons_pos s) + b1 < 2 ^ 64" using v(2) b1 unsigned_less [of "fst (view k)", where ?'a = nat] by simp
    then have "unat (cons_pos ?t) = unat (cons_pos s) + b1"
      by (simp add: finish_def unat_word_ariths unat_of_nat take_bit_eq_mod)
    then have "\<exists>s'. process_loop msk cb view (Suc k) ?t = Some (pass_result e (rcnt ?t + int n2), s') \<and>
        consumer_pos s' = cons_pos ?t + of_nat b2 \<and> cb_ctx s' = c'"
      using step.prems(1) b1 d2(1) by (intro step.IH) (auto simp: finish_def)
    then show ?thesis using pass True b0 d2
      by (subst process_loop.simps) (auto simp: finish_def add.assoc)
  next
    case False
    then have "(e, c', n, b) = (e1, c1, n1, b1)" using all d by (simp add: deliver_append)
    then show ?thesis using pass False
      by (subst process_loop.simps) (auto simp: finish_def split: pass_end.split)
  qed
qed

subsection \<open>Several rings\<close>

record 'c ring =
  r_mask :: u64
  r_cb :: "'c sample_cb"
  r_pos :: u64

fun consume_rings :: "('c ring \<times> ring_view) list \<Rightarrow> int \<Rightarrow> 'c \<Rightarrow> (int \<times> 'c ring list \<times> 'c) option" where
  "consume_rings [] res c = Some (if res > INT_MAX then INT_MAX else res, [], c)"
| "consume_rings ((r, v) # rs) res c =
     (case ringbuf_process_ring (r_mask r) (r_cb r) v (r_pos r) c of
        None \<Rightarrow> None
      | Some (err, pos, c) \<Rightarrow>
          if err < 0 then Some (err, r\<lparr>r_pos := pos\<rparr> # map fst rs, c)
          else (case consume_rings rs (res + err) c of
                  None \<Rightarrow> None
                | Some (ret, rs', c) \<Rightarrow> Some (ret, r\<lparr>r_pos := pos\<rparr> # rs', c)))"

definition ring_buffer__consume :: "('c ring \<times> ring_view) list \<Rightarrow> 'c \<Rightarrow> (int \<times> 'c ring list \<times> 'c) option" where
  "ring_buffer__consume rings c = consume_rings rings 0 c"

text \<open>The events \<open>epoll_wait\<close> returned name rings by their index.\<close>

fun poll_events :: "'c ring list \<Rightarrow> (nat \<times> ring_view) list \<Rightarrow> int \<Rightarrow> 'c \<Rightarrow> (int \<times> 'c ring list \<times> 'c) option" where
  "poll_events rings [] res c = Some (if res > INT_MAX then INT_MAX else res, rings, c)"
| "poll_events rings ((ring_id, v) # evs) res c =
     (if ring_id < length rings then
        let r = rings ! ring_id in
        (case ringbuf_process_ring (r_mask r) (r_cb r) v (r_pos r) c of
           None \<Rightarrow> None
         | Some (err, pos, c) \<Rightarrow>
             let rings = rings[ring_id := r\<lparr>r_pos := pos\<rparr>] in
             if err < 0 then Some (err, rings, c) else poll_events rings evs (res + err) c)
      else None)"

definition ring_buffer__poll ::
  "int + (nat \<times> ring_view) list \<Rightarrow> 'c ring list \<Rightarrow> 'c \<Rightarrow> (int \<times> 'c ring list \<times> 'c) option" where
  "ring_buffer__poll events rings c =
     (case events of Inl e \<Rightarrow> Some (- e, rings, c) | Inr evs \<Rightarrow> poll_events rings evs 0 c)"

text \<open>
  What a consumer of several rings does: the rings one after the other, up to the first failure.
  The list says how many bytes of each ring are freed.
\<close>

fun deliver_rings :: "('c sample_cb \<times> rrec list) list \<Rightarrow> int \<Rightarrow> 'c \<Rightarrow> int \<times> nat list \<times> 'c" where
  "deliver_rings [] res c = (min INT_MAX res, [], c)"
| "deliver_rings ((cb, recs) # xs) res c =
     (case deliver cb c recs of (e, c', n, b) \<Rightarrow>
        (case e of
           Failed err \<Rightarrow> (err, b # map (\<lambda>_. 0) xs, c')
         | _ \<Rightarrow> (case deliver_rings xs (res + int n) c' of (ret, bs, c'') \<Rightarrow> (ret, b # bs, c''))))"

definition free_up :: "'c ring \<times> ring_view \<Rightarrow> nat \<Rightarrow> 'c ring" where
  "free_up x b = (fst x)\<lparr>r_pos := r_pos (fst x) + of_nat b\<rparr>"

definition ring_holds :: "'c ring \<times> ring_view \<Rightarrow> 'c sample_cb \<times> rrec list \<Rightarrow> bool" where
  "ring_holds x y \<longleftrightarrow> (case (x, y) of ((r, v), (cb, recs)) \<Rightarrow>
     ring_mask (r_mask r) \<and> cb = r_cb r \<and>
     (\<exists>todo K. ring_views (r_mask r) v (unat (r_pos r)) todo K \<and> recs = concat (map todo [0..<K])))"

lemma process_ring_delivers:
  assumes "ring_mask msk" "ring_views msk view (unat pos) todo K"
    "deliver cb c (concat (map todo [0..<K])) = (e, c', n, b)"
  shows "ringbuf_process_ring msk cb view pos c = Some (pass_result e (int n), pos + of_nat b, c')"
proof -
  let ?s = "\<lparr>cons_pos = pos, consumer_pos = pos, cb_ctx = c, rcnt = 0, got_new_data = False\<rparr>"
  have "\<exists>s'. process_loop msk cb view 0 ?s = Some (pass_result e (rcnt ?s + int n), s') \<and>
      consumer_pos s' = cons_pos ?s + of_nat b \<and> cb_ctx s' = c'"
    using assms by (intro loop_spec) auto
  then show ?thesis by (auto simp: ringbuf_process_ring_def)
qed

lemma deliver_failed: "deliver cb c rs = (Failed err, c', n, b) \<Longrightarrow> err < 0"
  by (induction cb c rs arbitrary: n b rule: deliver.induct) (auto split: prod.split_asm if_split_asm)

lemma free_up_0: "length ys = length xs \<Longrightarrow> map2 free_up xs (map (\<lambda>_. 0) ys) = map fst xs"
  by (induction xs ys rule: list_induct2') (auto simp: free_up_def)

lemma consume_delivers:
  "list_all2 ring_holds rvs xs \<Longrightarrow> deliver_rings xs res c = (ret, freed, c') \<Longrightarrow>
   consume_rings rvs res c = Some (ret, map2 free_up rvs freed, c')"
proof (induction rvs xs arbitrary: res c ret freed c' rule: list_all2_induct)
  case (Cons x xs y ys)
  obtain r v cb recs where xy: "x = (r, v)" "y = (cb, recs)" by (cases x; cases y)
  obtain e c1 n b where d: "deliver cb c recs = (e, c1, n, b)" by (cases "deliver cb c recs")
  have p: "ringbuf_process_ring (r_mask r) (r_cb r) v (r_pos r) c = Some (pass_result e (int n), r_pos r + of_nat b, c1)"
    using Cons.hyps(1) d xy process_ring_delivers by (fastforce simp: ring_holds_def)
  have l: "length ys = length xs" using Cons.hyps(2) list_all2_lengthD by metis
  show ?case
  proof (cases e)
    case (Failed err)
    then show ?thesis using p d xy deliver_failed Cons.prems free_up_0 [OF l] by (fastforce simp: free_up_def)
  qed (use p d xy Cons.IH [of "res + int n" c1] Cons.prems in \<open>auto simp: free_up_def split: prod.split_asm\<close>)
qed auto

text \<open>
  C6. The consumer of the ring buffers: where the kernel publishes records in rounds while a ring
  is read, and at last stops, the consumer returns. It has passed every committed record to
  the callback, once, in the order of the ring, up to the first record of a ring that is still being
  written or the first call that fails; it has stepped over discarded records; the positions it
  publishes free exactly the records it is done with; and it returns the number of the records it
  passed on, or the error.
\<close>

theorem ring_buffer_consume_delivers:
  assumes "list_all2 ring_holds rvs xs" "deliver_rings xs 0 c = (ret, freed, c')"
  shows "ring_buffer__consume rvs c = Some (ret, map2 free_up rvs freed, c')"
  unfolding ring_buffer__consume_def using assms by (rule consume_delivers)

text \<open>Two records in a ring of 64 bytes, published in two rounds; the first wraps around.\<close>

definition demo_ring :: rmem where
  "demo_ring = rput 64 (rput 64 (\<lambda>_. 0) 56 (le_enc 4 (3 :: u32) @ [0, 0, 0, 0, 1, 2, 3])) 72
     (le_enc 4 (0x40000001 :: u32) @ [0, 0, 0, 0, 9])"

theorem ring_buffer_consume_delivers_witness:
  "ring_buffer__consume [(\<lparr>r_mask = 63, r_cb = (\<lambda>c bs len. (0, c @ bs)), r_pos = 56\<rparr>,
       \<lambda>k. (if k = 0 then 72 else 88, demo_ring))] [] =
     Some (1, [\<lparr>r_mask = 63, r_cb = (\<lambda>c bs len. (0, c @ bs)), r_pos = 88\<rparr>], [1, 2, 3])"
proof -
  let ?v = "\<lambda>k :: nat. (if k = 0 then 72 else 88 :: u64, demo_ring)"
  let ?cb = "\<lambda>c bs len. (0, c @ bs)" let ?r = "\<lparr>r_mask = 63, r_cb = ?cb, r_pos = 56\<rparr>"
  let ?todo = "\<lambda>k :: nat. if k = 0 then [(Committed, [1, 2, 3])] else if k = 1 then [(Discarded, [9])] else []"
  have less: "k \<le> 2 \<longleftrightarrow> k = 0 \<or> k = 1 \<or> k = 2" for k :: nat by auto
  have sz: "ring_size 63 = 64" by (simp add: ring_size_def)
  have m: "ring_mask 63" unfolding ring_mask_def by (rule exI [of _ 6]) simp
  have "le_dec (rget 64 demo_ring 56 4) = hdr_word Committed 3" "le_dec (rget 64 demo_ring 72 4) = hdr_word Discarded 1"
    "rget 64 demo_ring 64 3 = [1, 2, 3]" "rget 64 demo_ring 80 1 = [9]"
    by code_simp+
  then have "ring_views 63 ?v (unat (56 :: u64)) ?todo 2"
    unfolding ring_views_def sz less by (auto simp: rlen_def upt_rec numeral_3_eq_3)
  then have "ring_holds (?r, ?v) (?cb, concat (map ?todo [0..<2]))"
    using m unfolding ring_holds_def by auto
  moreover have "deliver_rings [(?cb, concat (map ?todo [0..<2]))] 0 [] = (1, [32], [1, 2, 3])"
    by (simp add: upt_rec rlen_def)
  ultimately show ?thesis
    using ring_buffer_consume_delivers [of "[(?r, ?v)]" "[(?cb, concat (map ?todo [0..<2]))]" "[]"] by (simp add: free_up_def)
qed

subsection \<open>The producer\<close>

record user_ring_buffer =
  u_mask :: u64
  u_cons :: u64
  u_prod :: u64
  u_data :: rmem

text \<open>A sample is given by its offset in the data pages; \<open>Inl\<close> is the value of \<open>errno\<close>.\<close>

definition user_ring_buffer__reserve :: "user_ring_buffer \<Rightarrow> u32 \<Rightarrow> (int + nat) \<times> user_ring_buffer" where
  "user_ring_buffer__reserve rb req =
     (if req AND (BPF_RINGBUF_BUSY_BIT OR BPF_RINGBUF_DISCARD_BIT) \<noteq> 0 then (Inl E2BIG, rb)
      else
        let cons_pos = u_cons rb; prod_pos = u_prod rb;
            max_size = ucast (u_mask rb + 1) :: u32;
            avail_size = ucast (ucast max_size - (prod_pos - cons_pos)) :: u32;
            total_size = (req + 8 + 7) div 8 * 8 in
        if total_size > max_size then (Inl E2BIG, rb)
        else if avail_size < total_size then (Inl ENOSPC, rb)
        else
          let sz = ring_size (u_mask rb); hdr = unat (prod_pos AND u_mask rb);
              d = rput sz (u_data rb) hdr (le_enc 4 (req OR BPF_RINGBUF_BUSY_BIT));
              d = rput sz d (hdr + 4) (le_enc 4 (0 :: u32)) in
          (Inr (unat ((prod_pos + 8) AND u_mask rb)), rb\<lparr>u_data := d, u_prod := prod_pos + ucast total_size\<rparr>))"

definition user_ringbuf_commit :: "user_ring_buffer \<Rightarrow> nat \<Rightarrow> bool \<Rightarrow> user_ring_buffer" where
  "user_ringbuf_commit rb sample discard =
     (let sz = ring_size (u_mask rb);
          hdr_offset = u_mask rb + 1 + of_nat sample - 8;
          hdr = unat (hdr_offset AND u_mask rb);
          new_len = (le_dec (rget sz (u_data rb) hdr 4) :: u32) AND NOT BPF_RINGBUF_BUSY_BIT;
          new_len = (if discard then new_len OR BPF_RINGBUF_DISCARD_BIT else new_len) in
      rb\<lparr>u_data := rput sz (u_data rb) hdr (le_enc 4 new_len)\<rparr>)"

definition user_ring_buffer__discard :: "user_ring_buffer \<Rightarrow> nat \<Rightarrow> user_ring_buffer" where
  "user_ring_buffer__discard rb sample = user_ringbuf_commit rb sample True"

definition user_ring_buffer__submit :: "user_ring_buffer \<Rightarrow> nat \<Rightarrow> user_ring_buffer" where
  "user_ring_buffer__submit rb sample = user_ringbuf_commit rb sample False"

text \<open>The records between the two positions; the producer writes only outside of them, and headers.\<close>

definition uring_ok :: "user_ring_buffer \<Rightarrow> rrec list \<Rightarrow> bool" where
  "uring_ok rb recs \<longleftrightarrow>
     ring_mask (u_mask rb) \<and> 8 \<le> ring_size (u_mask rb) \<and> ring_size (u_mask rb) \<le> 2 ^ 31 \<and>
     u_prod rb = u_cons rb + of_nat (room recs) \<and> room recs \<le> ring_size (u_mask rb) \<and>
     laid (ring_size (u_mask rb)) (u_data rb) (unat (u_cons rb)) recs"

definition sample_at :: "user_ring_buffer \<Rightarrow> rrec list \<Rightarrow> nat \<Rightarrow> nat" where
  "sample_at rb recs i = (unat (u_cons rb) + room (take i recs) + BPF_RINGBUF_HDR_SZ) mod ring_size (u_mask rb)"

lemma laid_append [simp]: "laid sz m p (xs @ ys) \<longleftrightarrow> laid sz m p xs \<and> laid sz m (p + room xs) ys"
  by (induction sz m p xs rule: laid.induct) (auto simp: add.assoc)

lemma laid_put:
  "w \<le> p \<Longrightarrow> p + room rs \<le> w + sz \<Longrightarrow> w \<le> q \<Longrightarrow> q + length bs \<le> w + sz \<Longrightarrow>
   p + room rs \<le> q \<or> q + length bs \<le> p \<Longrightarrow> 0 < sz \<Longrightarrow>
   laid sz (rput sz m q bs) p rs = laid sz m p rs"
proof (induction sz m p rs rule: laid.induct)
  case (2 sz m p st ds rs)
  note b = rlen_bounds(1) [of "length ds"]
  have "rget sz (rput sz m q bs) p 4 = rget sz m p 4"
    using 2 b by (intro rget_rput_other [of w]) auto
  moreover have "rget sz (rput sz m q bs) (p + 8) (length ds) = rget sz m (p + 8) (length ds)"
    using 2 b by (intro rget_rput_other [of w]) auto
  moreover have "laid sz (rput sz m q bs) (p + rlen (length ds)) rs = laid sz m (p + rlen (length ds)) rs"
    using 2 by auto
  ultimately show ?case by simp
qed simp

lemma ring_size_dvd: "ring_mask msk \<Longrightarrow> ring_size msk dvd 2 ^ 64"
proof -
  assume "ring_mask msk"
  then obtain k where k: "k < 64" "msk = 2 ^ k - 1" by (auto simp: ring_mask_def)
  have "ring_size msk = 2 ^ k" using ring_size_exp k by blast
  then show ?thesis using le_imp_power_dvd [of k 64 "2 :: nat"] k(1) by (simp only: less_imp_le_nat)
qed

lemma ring_offset:
  assumes "ring_mask msk"
  shows "unat ((a + of_nat n) AND msk) = (unat a + n) mod ring_size msk"
proof -
  have "unat (a + of_nat n) = (unat a + n) mod 2 ^ 64"
    by (simp add: unat_word_ariths unat_of_nat take_bit_eq_mod mod_add_right_eq)
  then show ?thesis unfolding ring_mask_and [OF assms] using mod_mod_cancel [OF ring_size_dvd [OF assms]] by simp
qed

lemma le_dec_put:
  fixes v :: u32
  assumes "4 \<le> sz"
  shows "le_dec (rget sz (rput sz m q (le_enc 4 v)) q 4) = v"
proof -
  have "rget sz (rput sz m q (le_enc 4 v)) (q + 0) 4 = take 4 (drop 0 (le_enc 4 v))"
    using assms by (intro rget_rput_same) simp_all
  then show ?thesis by (simp add: le_dec_enc)
qed

lemma reserve_words:
  fixes req :: u32
  shows "req AND (BPF_RINGBUF_BUSY_BIT OR BPF_RINGBUF_DISCARD_BIT) = 0 \<longleftrightarrow> unat req < 2 ^ 30"
    "unat req < 2 ^ 30 \<Longrightarrow> unat ((req + 8 + 7) div 8 * 8) = rlen (unat req)"
    "unat req < 2 ^ 30 \<Longrightarrow> req OR BPF_RINGBUF_BUSY_BIT = hdr_word Busy (unat req)"
proof -
  have "req AND (BPF_RINGBUF_BUSY_BIT OR BPF_RINGBUF_DISCARD_BIT) = 0 \<longleftrightarrow> \<not> bit req 31 \<and> \<not> bit req 30"
    unfolding state_bits_exp and_exp_eq_0_iff_not_bit bit.conj_disj_distrib or_eq_0_iff ..
  also have "\<dots> \<longleftrightarrow> unat req < 2 ^ 30"
  proof
    assume b: "\<not> bit req 31 \<and> \<not> bit req 30"
    have "take_bit 30 req = req"
    proof (rule bit_eqI)
      fix i assume "possible_bit TYPE(u32) i"
      then have "i < 30 \<or> i = 30 \<or> i = 31" by (auto simp: possible_bit_def)
      then show "bit (take_bit 30 req) i = bit req i" using b by (auto simp: bit_take_bit_iff)
    qed
    then show "unat req < 2 ^ 30" using take_bit_30_less by metis
  qed (use rec_bits in blast)
  finally show "req AND (BPF_RINGBUF_BUSY_BIT OR BPF_RINGBUF_DISCARD_BIT) = 0 \<longleftrightarrow> unat req < 2 ^ 30" .
next
  assume r: "unat req < 2 ^ 30"
  have "roundup_len req = (req + 8 + 7) div 8 * 8"
    unfolding roundup_len_def Let_def using rec_bits(1) [OF r]
    by (metis drop_push_take)
  then show "unat ((req + 8 + 7) div 8 * 8) = rlen (unat req)" using roundup_len_eq [of req] rec_bits(1) [OF r] by metis
  show "req OR BPF_RINGBUF_BUSY_BIT = hdr_word Busy (unat req)" by (simp add: hdr_word_def)
qed

lemma reserve_limits:
  assumes "uring_ok rb recs"
  shows "unat (ucast (u_mask rb + 1) :: u32) = ring_size (u_mask rb)"
    "unat (ucast (ucast (ucast (u_mask rb + 1) :: u32) - (u_prod rb - u_cons rb)) :: u32) = ring_size (u_mask rb) - room recs"
proof -
  let ?sz = "ring_size (u_mask rb)"
  have le: "?sz \<le> 2 ^ 31" "room recs \<le> ?sz" "u_prod rb = u_cons rb + of_nat (room recs)"
    using assms by (auto simp: uring_ok_def)
  have m: "u_mask rb + 1 = of_nat ?sz" by (simp add: ring_size_def)
  have u: "unat (of_nat n :: u32) = n" "unat (of_nat n :: u64) = n" if "n \<le> 2 ^ 31" for n
    using that by (simp_all add: unat_of_nat take_bit_eq_mod)
  have c: "(ucast (of_nat n :: u64) :: u32) = of_nat n" "(ucast (of_nat n :: u32) :: u64) = of_nat n" if "n \<le> 2 ^ 31" for n
    using u [OF that] that by (simp_all add: word_unat_eq_iff unsigned_ucast_eq take_bit_eq_mod)
  show "unat (ucast (u_mask rb + 1) :: u32) = ?sz" unfolding m using c u le(1) by simp
  have "(of_nat ?sz - of_nat (room recs) :: u64) = of_nat (?sz - room recs)" using le(2) by (simp add: of_nat_diff)
  then show "unat (ucast (ucast (ucast (u_mask rb + 1) :: u32) - (u_prod rb - u_cons rb)) :: u32) = ?sz - room recs"
    unfolding m le(3) using c [of ?sz] c [of "?sz - room recs"] u [of "?sz - room recs"] le(1) by simp
qed

lemma reserve_refused:
  assumes "uring_ok rb recs"
  shows "\<not> unat req < 2 ^ 30 \<or> ring_size (u_mask rb) < rlen (unat req) \<Longrightarrow> user_ring_buffer__reserve rb req = (Inl E2BIG, rb)"
    "unat req < 2 ^ 30 \<Longrightarrow> rlen (unat req) \<le> ring_size (u_mask rb) \<Longrightarrow> ring_size (u_mask rb) < room recs + rlen (unat req) \<Longrightarrow>
     user_ring_buffer__reserve rb req = (Inl ENOSPC, rb)"
proof -
  let ?sz = "ring_size (u_mask rb)"
  have le: "room recs \<le> ?sz" using assms by (simp add: uring_ok_def)
  show "user_ring_buffer__reserve rb req = (Inl E2BIG, rb)" if "\<not> unat req < 2 ^ 30 \<or> ?sz < rlen (unat req)"
    using that unfolding user_ring_buffer__reserve_def Let_def reserve_words(1) word_less_nat_alt reserve_limits [OF assms]
    by (auto simp: reserve_words(2) [simplified])
  show "user_ring_buffer__reserve rb req = (Inl ENOSPC, rb)"
    if "unat req < 2 ^ 30" "rlen (unat req) \<le> ?sz" "?sz < room recs + rlen (unat req)"
    using that le unfolding user_ring_buffer__reserve_def Let_def reserve_words(1) word_less_nat_alt reserve_limits [OF assms]
    by (auto simp: reserve_words(2) [simplified])
qed

lemma reserve_granted:
  assumes ok: "uring_ok rb recs" and req: "unat req < 2 ^ 30" and fits: "room recs + rlen (unat req) \<le> ring_size (u_mask rb)"
  shows "\<exists>rb' bs. user_ring_buffer__reserve rb req = (Inr (sample_at rb recs (length recs)), rb') \<and>
    length bs = unat req \<and> uring_ok rb' (recs @ [(Busy, bs)]) \<and> u_cons rb' = u_cons rb \<and> u_mask rb' = u_mask rb"
proof -
  let ?sz = "ring_size (u_mask rb)" and ?c = "unat (u_cons rb)"
  let ?q = "?c + room recs"
  let ?d1 = "rput ?sz (u_data rb) ?q (le_enc 4 (hdr_word Busy (unat req)))"
  let ?d = "rput ?sz ?d1 (?q + 4) (le_enc 4 (0 :: u32))"
  let ?bs = "rget ?sz ?d (?q + 8) (unat req)"
  have i: "ring_mask (u_mask rb)" "8 \<le> ?sz" "u_prod rb = u_cons rb + of_nat (room recs)" "laid ?sz (u_data rb) ?c recs"
    using ok by (auto simp: uring_ok_def)
  note b = rlen_bounds(1) [of "unat req"]
  have hdr: "unat (u_prod rb AND u_mask rb) = ?q mod ?sz" unfolding i(3) by (rule ring_offset [OF i(1)])
  have samp: "unat ((u_prod rb + 8) AND u_mask rb) = sample_at rb recs (length recs)"
    using ring_offset [OF i(1), of "u_cons rb" "room recs + 8"] unfolding i(3) by (simp add: sample_at_def add.assoc)
  have t: "(ucast ((req + 8 + 7) div 8 * 8) :: u64) = of_nat (rlen (unat req))"
    using reserve_words(2) [OF req] by (metis of_nat_unat)
  let ?rb = "rb\<lparr>u_data := ?d, u_prod := u_prod rb + of_nat (rlen (unat req))\<rparr>"
  have put: "rput ?sz m (?q mod ?sz + 4) bs = rput ?sz m (?q + 4) bs" for m bs
    by (metis mod_add_left_eq rput_mod)
  have "user_ring_buffer__reserve rb req = (Inr (sample_at rb recs (length recs)), ?rb)"
    using fits req unfolding user_ring_buffer__reserve_def Let_def reserve_words(1) word_less_nat_alt reserve_limits [OF ok]
    by (simp add: reserve_words(2) [simplified] reserve_words(3) hdr samp t [simplified] put)
  moreover have "uring_ok ?rb (recs @ [(Busy, ?bs)])"
  proof -
    have "laid ?sz ?d ?c recs = laid ?sz ?d1 ?c recs" "laid ?sz ?d1 ?c recs = laid ?sz (u_data rb) ?c recs"
      using fits b i(2) by (simp_all add: laid_put [where w = ?c])
    moreover have "rget ?sz ?d ?q 4 = rget ?sz ?d1 ?q 4"
      using fits b i(2) by (intro rget_rput_other [of ?c]) auto
    ultimately show ?thesis using ok i req fits le_dec_put [of ?sz _ ?q "hdr_word Busy (unat req)"]
      by (simp add: uring_ok_def add.assoc)
  qed
  ultimately show ?thesis by (intro exI [of _ ?rb] exI [of _ ?bs]) simp
qed

lemma hdr_back:
  fixes p sz :: nat
  assumes "8 \<le> sz"
  shows "(sz + (p + 8) mod sz - 8) mod sz = p mod sz"
proof -
  have "(sz - 8 + (p + 8) mod sz) mod sz = (sz - 8 + (p + 8)) mod sz" by (rule mod_add_right_eq)
  moreover have "sz - 8 + (p + 8) = p + sz" "sz - 8 + (p + 8) mod sz = sz + (p + 8) mod sz - 8" using assms by simp_all
  ultimately show ?thesis by simp
qed

lemma commit_record:
  assumes ok: "uring_ok rb recs" and i: "i < length recs" "recs ! i = (Busy, bs)"
  shows "uring_ok (user_ringbuf_commit rb (sample_at rb recs i) discard)
    (recs[i := (if discard then Discarded else Committed, bs)])"
proof -
  let ?sz = "ring_size (u_mask rb)" and ?c = "unat (u_cons rb)" and ?st = "if discard then Discarded else Committed"
  let ?xs = "take i recs" and ?ys = "drop (Suc i) recs"
  let ?q = "?c + room ?xs"
  have r: "recs = ?xs @ (Busy, bs) # ?ys" using i id_take_nth_drop by metis
  have u: "recs[i := (?st, bs)] = ?xs @ (?st, bs) # ?ys" using i(1) by (rule upd_conv_take_nth_drop)
  have inv: "ring_mask (u_mask rb)" "8 \<le> ?sz" "room recs \<le> ?sz" "laid ?sz (u_data rb) ?c (?xs @ (Busy, bs) # ?ys)"
    using ok r by (auto simp: uring_ok_def)
  have room: "room recs = room ?xs + rlen (length bs) + room ?ys" by (subst r) simp
  note b = rlen_bounds(1) [of "length bs"]
  have m: "u_mask rb + 1 = of_nat ?sz" by (simp add: ring_size_def)
  have "(u_mask rb + 1 + of_nat (sample_at rb recs i) - 8 :: u64) = of_nat (?sz + sample_at rb recs i - 8)"
    unfolding m using inv(2) by (simp add: of_nat_diff)
  then have "unat ((u_mask rb + 1 + of_nat (sample_at rb recs i) - 8) AND u_mask rb) = (?sz + sample_at rb recs i - 8) mod ?sz"
    using ring_offset [OF inv(1), of 0] by simp
  also have "\<dots> = ?q mod ?sz"
    unfolding sample_at_def by (rule hdr_back [OF inv(2)])
  finally have hdr: "unat ((u_mask rb + 1 + of_nat (sample_at rb recs i) - 8) AND u_mask rb) = ?q mod ?sz" .
  have n: "length bs < 2 ^ 30" "le_dec (rget ?sz (u_data rb) ?q 4) = hdr_word Busy (length bs)"
    "rget ?sz (u_data rb) (?q + 8) (length bs) = bs"
    using inv(4) by simp_all
  let ?d = "rput ?sz (u_data rb) ?q (le_enc 4 (hdr_word ?st (length bs)))"
  have c: "user_ringbuf_commit rb (sample_at rb recs i) discard = rb\<lparr>u_data := ?d\<rparr>"
    unfolding user_ringbuf_commit_def Let_def hdr rput_mod rget_mod n(2) hdr_word_commit(1) [OF n(1)]
    using hdr_word_commit(2) [OF n(1)] by simp
  have "laid ?sz ?d ?c ?xs = laid ?sz (u_data rb) ?c ?xs"
    "laid ?sz ?d (?q + rlen (length bs)) ?ys = laid ?sz (u_data rb) (?q + rlen (length bs)) ?ys"
    "rget ?sz ?d (?q + 8) (length bs) = rget ?sz (u_data rb) (?q + 8) (length bs)"
    using room inv(2,3) b by (simp_all add: laid_put [where w = ?c] rget_rput_other [where w = ?c])
  then have "laid ?sz ?d ?c (?xs @ (?st, bs) # ?ys)"
    using inv(4) n le_dec_put [of ?sz "u_data rb" ?q "hdr_word ?st (length bs)"] inv(2) by simp
  moreover have "room (recs[i := (?st, bs)]) = room recs" unfolding u room by simp
  ultimately show ?thesis using ok unfolding c u uring_ok_def by simp
qed

text \<open>When the kernel has consumed the first record, the others and their samples stay where they are.\<close>

lemma drain_record:
  assumes ok: "uring_ok rb (r # recs)"
  defines "rb' \<equiv> rb\<lparr>u_cons := u_cons rb + of_nat (rlen (length (snd r)))\<rparr>"
  shows "uring_ok rb' recs" "sample_at rb' recs i = sample_at rb (r # recs) (Suc i)"
proof -
  let ?sz = "ring_size (u_mask rb)" and ?n = "rlen (length (snd r))"
  have m: "ring_mask (u_mask rb)" using ok by (simp add: uring_ok_def)
  have c: "unat (u_cons rb + of_nat ?n) mod ?sz = (unat (u_cons rb) + ?n) mod ?sz"
    using ring_offset [OF m, of "u_cons rb" ?n] ring_mask_and [OF m] by metis
  have "laid ?sz d p rs = laid ?sz d q rs" if "p mod ?sz = q mod ?sz" for d p q rs
    using that
  proof (induction ?sz d p rs arbitrary: q rule: laid.induct)
    case (2 d p st bs rs)
    have e: "(p + k) mod ?sz = (q + k) mod ?sz" for k using 2(2) by (metis mod_add_left_eq)
    have g: "rget ?sz d (p + k) l = rget ?sz d (q + k) l" for k l using e [of k] by (metis rget_mod)
    show ?case using 2(1) [OF e] g [of 0 4] g [of 8] by simp
  qed simp
  from this [OF c] show "uring_ok rb' recs" using ok by (cases r) (simp add: uring_ok_def rb'_def)
  have "(unat (u_cons rb + of_nat ?n) + k) mod ?sz = (unat (u_cons rb) + ?n + k) mod ?sz" for k
    using c by (metis mod_add_left_eq)
  then show "sample_at rb' recs i = sample_at rb (r # recs) (Suc i)"
    unfolding sample_at_def rb'_def by (simp add: add.assoc)
qed

text \<open>
  C13. The producer of the user ring buffer, across wrap-around of the positions. A request is refused
  with \<open>E2BIG\<close> exactly if it is too long for the header or for the ring, and with \<open>ENOSPC\<close> exactly if it
  does not fit now, and then nothing changes; otherwise a record of that length, marked as being written,
  is added behind the others, and its sample is what is returned. Submitting or
  discarding the sample of any record being written changes the state of that record and
  leaves the bytes of all records as they are.
\<close>

theorem user_ring_keeps_records:
  assumes "uring_ok rb recs"
  shows "(case user_ring_buffer__reserve rb req of
      (Inl e, rb') \<Rightarrow> rb' = rb \<and>
        e = (if 2 ^ 30 \<le> unat req \<or> ring_size (u_mask rb) < rlen (unat req) then E2BIG else ENOSPC) \<and>
        (e = ENOSPC \<longrightarrow> ring_size (u_mask rb) < room recs + rlen (unat req))
    | (Inr sample, rb') \<Rightarrow> \<exists>bs. length bs = unat req \<and> uring_ok rb' (recs @ [(Busy, bs)]) \<and>
        sample = sample_at rb' (recs @ [(Busy, bs)]) (length recs)) \<and>
    (\<forall>i bs. i < length recs \<and> recs ! i = (Busy, bs) \<longrightarrow>
       uring_ok (user_ring_buffer__submit rb (sample_at rb recs i)) (recs[i := (Committed, bs)]) \<and>
       uring_ok (user_ring_buffer__discard rb (sample_at rb recs i)) (recs[i := (Discarded, bs)]))"
proof (intro conjI allI impI, goal_cases)
  case 1
  consider (big) "\<not> unat req < 2 ^ 30 \<or> ring_size (u_mask rb) < rlen (unat req)"
    | (full) "unat req < 2 ^ 30" "rlen (unat req) \<le> ring_size (u_mask rb)" "ring_size (u_mask rb) < room recs + rlen (unat req)"
    | (fits) "unat req < 2 ^ 30" "room recs + rlen (unat req) \<le> ring_size (u_mask rb)"
    by linarith
  then show ?case
  proof cases
    case fits
    from reserve_granted [OF assms this] obtain rb' bs where "user_ring_buffer__reserve rb req = (Inr (sample_at rb recs (length recs)), rb')"
      "length bs = unat req" "uring_ok rb' (recs @ [(Busy, bs)])" "u_cons rb' = u_cons rb" "u_mask rb' = u_mask rb" by blast
    then show ?thesis by (auto simp: sample_at_def)
  qed (use reserve_refused [OF assms] in auto)
next
  case (2 i bs)
  then show ?case using commit_record [OF assms, of i bs False] by (simp add: user_ring_buffer__submit_def)
next
  case (3 i bs)
  then show ?case using commit_record [OF assms, of i bs True] by (simp add: user_ring_buffer__discard_def)
qed

theorem user_ring_keeps_records_witness:
  "\<exists>bs sample rb'. user_ring_buffer__reserve \<lparr>u_mask = 63, u_cons = - 8, u_prod = - 8, u_data = \<lambda>_. 0\<rparr> 5 = (Inr sample, rb') \<and>
     length bs = 5 \<and> uring_ok rb' [(Busy, bs)]"
proof -
  let ?rb = "\<lparr>u_mask = 63, u_cons = - 8, u_prod = - 8, u_data = \<lambda>_. 0\<rparr>"
  have "ring_mask 63" unfolding ring_mask_def by (rule exI [of _ 6]) simp
  then have "uring_ok ?rb []" by (simp add: uring_ok_def ring_size_def)
  from user_ring_keeps_records [OF this, of 5] show ?thesis
    by (auto simp: ring_size_def rlen_def split: prod.split_asm sum.split_asm)
qed

subsection \<open>Waiting for room\<close>

record timespec =
  tv_sec :: u64
  tv_nsec :: u64

definition ns_elapsed_timespec :: "timespec \<Rightarrow> timespec \<Rightarrow> u64" where
  "ns_elapsed_timespec start fin =
     (let ns_per_s = 1000000000; start_ns = tv_sec start * ns_per_s + tv_nsec start;
          end_ns = tv_sec fin * ns_per_s + tv_nsec fin in end_ns - start_ns)"

text \<open>
  What the loop observes: the position of the consumer at the \<open>k\<close>-th attempt, the result of the \<open>k\<close>-th
  \<open>epoll_wait\<close> for a given timeout (the negated \<open>errno\<close> if it fails), and the readings of
  the clock (\<open>Inl\<close> is the \<open>errno\<close> of a failure), the first of which is taken at the start.
\<close>

record ring_env =
  e_cons :: "nat \<Rightarrow> u64"
  e_wait :: "nat \<Rightarrow> s32 \<Rightarrow> int"
  e_clock :: "nat \<Rightarrow> int + timespec"

text \<open>The \<open>continue\<close> of the source goes to the condition of the \<open>do\<close> loop.\<close>

partial_function (option) reserve_wait ::
  "ring_env \<Rightarrow> u32 \<Rightarrow> s32 \<Rightarrow> timespec \<Rightarrow> nat \<Rightarrow> s32 \<Rightarrow> user_ring_buffer \<Rightarrow> ((int + nat) \<times> user_ring_buffer) option" where
  "reserve_wait env req timeout_ms start k ms_remaining rb =
     (case user_ring_buffer__reserve (rb\<lparr>u_cons := e_cons env k\<rparr>) req of
        (Inr sample, rb) \<Rightarrow> Some (Inr sample, rb)
      | (Inl e, rb) \<Rightarrow>
          if e \<noteq> ENOSPC then Some (Inl e, rb)
          else if e_wait env k ms_remaining < 0 then Some (Inl (- e_wait env k ms_remaining), rb)
          else if timeout_ms = - 1 then
            (if sint ms_remaining > 0 then reserve_wait env req timeout_ms start (k + 1) ms_remaining rb
             else Some (user_ring_buffer__reserve (rb\<lparr>u_cons := e_cons env (k + 1)\<rparr>) req))
          else
            (case e_clock env (k + 1) of
               Inl e \<Rightarrow> Some (Inl e, rb)
             | Inr cur \<Rightarrow>
                 let ms_elapsed = ucast (ns_elapsed_timespec start cur div 1000000) :: s32;
                     ms_remaining = timeout_ms - ms_elapsed in
                 if sint ms_remaining > 0 then reserve_wait env req timeout_ms start (k + 1) ms_remaining rb
                 else Some (user_ring_buffer__reserve (rb\<lparr>u_cons := e_cons env (k + 1)\<rparr>) req)))"

definition user_ring_buffer__reserve_blocking ::
  "ring_env \<Rightarrow> user_ring_buffer \<Rightarrow> u32 \<Rightarrow> s32 \<Rightarrow> ((int + nat) \<times> user_ring_buffer) option" where
  "user_ring_buffer__reserve_blocking env rb req timeout_ms =
     (if sint timeout_ms < 0 \<and> timeout_ms \<noteq> - 1 then Some (Inl EINVAL, rb)
      else if timeout_ms \<noteq> - 1 then
        (case e_clock env 0 of
           Inl e \<Rightarrow> Some (Inl e, rb)
         | Inr start \<Rightarrow> reserve_wait env req timeout_ms start 0 timeout_ms rb)
      else reserve_wait env req timeout_ms \<lparr>tv_sec = 0, tv_nsec = 0\<rparr> 0 timeout_ms rb)"

text \<open>The \<open>k\<close>-th attempt on its own.\<close>

definition attempt :: "ring_env \<Rightarrow> user_ring_buffer \<Rightarrow> u32 \<Rightarrow> nat \<Rightarrow> (int + nat) \<times> user_ring_buffer" where
  "attempt env rb req k = user_ring_buffer__reserve (rb\<lparr>u_cons := e_cons env k\<rparr>) req"

definition elapsed_ms :: "timespec \<Rightarrow> timespec \<Rightarrow> nat" where
  "elapsed_ms start fin = unat (ns_elapsed_timespec start fin div 1000000)"

text \<open>After the \<open>K\<close>-th wait the time is over: at once if the timeout is \<open>- 1\<close>.\<close>

definition time_over :: "ring_env \<Rightarrow> s32 \<Rightarrow> nat \<Rightarrow> bool" where
  "time_over env timeout_ms K \<longleftrightarrow>
     (if timeout_ms = - 1 then K = 0
      else 0 \<le> sint timeout_ms \<and>
        (\<exists>start. e_clock env 0 = Inr start \<and>
          (\<forall>k \<le> K. \<exists>t. e_clock env (k + 1) = Inr t \<and> elapsed_ms start t < 2 ^ 31 \<and>
             (sint timeout_ms \<le> int (elapsed_ms start t) \<longleftrightarrow> k = K))))"

lemma reserve_refused_unchanged: "user_ring_buffer__reserve rb req = (Inl e, rb') \<Longrightarrow> rb' = rb"
  by (auto simp: user_ring_buffer__reserve_def Let_def split: if_split_asm)

lemma remaining_sign:
  fixes timeout_ms :: s32
  assumes "0 \<le> sint timeout_ms" "elapsed_ms start t < 2 ^ 31"
  shows "sint (timeout_ms - ucast (ns_elapsed_timespec start t div 1000000)) > 0 \<longleftrightarrow> int (elapsed_ms start t) < sint timeout_ms"
proof -
  let ?e = "ucast (ns_elapsed_timespec start t div 1000000) :: s32"
  have u: "unat ?e = elapsed_ms start t"
    using assms(2) by (simp add: elapsed_ms_def unsigned_ucast_eq take_bit_nat_eq_self)
  then have "sint ?e = int (elapsed_ms start t)" using sint_small [of ?e] assms(2) by (metis uint_nat)
  moreover have "sint timeout_ms < 2 ^ 31" using sint_lt [of timeout_ms] by simp
  ultimately have "sint (timeout_ms - ?e) = sint timeout_ms - int (elapsed_ms start t)"
    using assms unfolding sint_word_ariths(2) by (subst signed_take_bit_int_eq_self) auto
  then show ?thesis by simp
qed

lemma attempt_upd [simp]: "attempt env (rb\<lparr>u_cons := x\<rparr>) req k = attempt env rb req k"
  by (simp add: attempt_def)

lemma wait_step:
  assumes "\<And>k w. 0 \<le> e_wait env k w"
  shows "reserve_wait env req timeout_ms start k ms rb =
    (if fst (attempt env rb req k) \<noteq> Inl ENOSPC then Some (attempt env rb req k)
     else let rb = rb\<lparr>u_cons := e_cons env k\<rparr> in
       if timeout_ms = - 1 then
         (if sint ms > 0 then reserve_wait env req timeout_ms start (k + 1) ms rb else Some (attempt env rb req (k + 1)))
       else
         (case e_clock env (k + 1) of
            Inl e \<Rightarrow> Some (Inl e, rb)
          | Inr cur \<Rightarrow>
              let ms = timeout_ms - ucast (ns_elapsed_timespec start cur div 1000000) in
              if sint ms > 0 then reserve_wait env req timeout_ms start (k + 1) ms rb
              else Some (attempt env rb req (k + 1))))"
proof -
  obtain r rb1 where a: "user_ring_buffer__reserve (rb\<lparr>u_cons := e_cons env k\<rparr>) req = (r, rb1)"
    by (cases "user_ring_buffer__reserve (rb\<lparr>u_cons := e_cons env k\<rparr>) req")
  have w: "\<not> e_wait env k w < 0" for w using assms by (simp add: not_less)
  show ?thesis
  proof (cases r)
    case (Inl e)
    then have "rb1 = rb\<lparr>u_cons := e_cons env k\<rparr>" using reserve_refused_unchanged a by blast
    then show ?thesis using a Inl w
      by (subst reserve_wait.simps) (simp add: attempt_def Let_def split: sum.split)
  next
    case (Inr x)
    then show ?thesis using a by (subst reserve_wait.simps) (simp add: attempt_def)
  qed
qed

definition first_success :: "ring_env \<Rightarrow> user_ring_buffer \<Rightarrow> u32 \<Rightarrow> nat \<Rightarrow> nat \<Rightarrow> nat \<Rightarrow> bool" where
  "first_success env rb req a K j \<longleftrightarrow> a \<le> j \<and> j \<le> K + 1 \<and> (\<forall>i. a \<le> i \<and> i < j \<longrightarrow> fst (attempt env rb req i) = Inl ENOSPC) \<and>
     (fst (attempt env rb req j) = Inl ENOSPC \<longrightarrow> j = K + 1)"

lemma wait_timed:
  assumes waits: "\<And>k w. 0 \<le> e_wait env k w" and t: "timeout_ms \<noteq> - 1" "0 \<le> sint timeout_ms"
    and clock: "\<forall>k \<le> K. \<exists>t. e_clock env (k + 1) = Inr t \<and> elapsed_ms start t < 2 ^ 31 \<and>
      (sint timeout_ms \<le> int (elapsed_ms start t) \<longleftrightarrow> k = K)"
  shows "k \<le> K \<Longrightarrow> \<exists>j. first_success env rb req k K j \<and> reserve_wait env req timeout_ms start k ms rb = Some (attempt env rb req j)"
proof (induction k arbitrary: ms rb rule: inc_induct)
  case base
  obtain t where c: "e_clock env (K + 1) = Inr t" "elapsed_ms start t < 2 ^ 31" "sint timeout_ms \<le> int (elapsed_ms start t)"
    using clock by blast
  show ?case
  proof (cases "fst (attempt env rb req K) = Inl ENOSPC")
    case True
    then show ?thesis using c remaining_sign [OF t(2) c(2)] t(1)
      by (intro exI [of _ "K + 1"]) (subst wait_step [OF waits], auto simp: first_success_def Let_def le_Suc_eq less_Suc_eq_le)
  next
    case False
    then show ?thesis by (intro exI [of _ K]) (subst wait_step [OF waits], auto simp: first_success_def)
  qed
next
  case (step k)
  obtain t where c: "e_clock env (k + 1) = Inr t" "elapsed_ms start t < 2 ^ 31" "int (elapsed_ms start t) < sint timeout_ms"
    using clock step.hyps by (metis less_imp_le_nat nat_neq_iff not_le)
  show ?case
  proof (cases "fst (attempt env rb req k) = Inl ENOSPC")
    case True
    let ?ms = "timeout_ms - ucast (ns_elapsed_timespec start t div 1000000)" and ?rb = "rb\<lparr>u_cons := e_cons env k\<rparr>"
    obtain j where j: "first_success env ?rb req (Suc k) K j"
      "reserve_wait env req timeout_ms start (Suc k) ?ms ?rb = Some (attempt env ?rb req j)"
      using step.IH by blast
    have "fst (attempt env rb req i) = Inl ENOSPC" if "k \<le> i" "i < j" for i
      using j(1) True that by (cases "i = k") (auto simp: first_success_def)
    then have "first_success env rb req k K j" using j(1) by (auto simp: first_success_def)
    moreover have "reserve_wait env req timeout_ms start k ms rb = Some (attempt env rb req j)"
      using c remaining_sign [OF t(2) c(2)] t(1) True j(2) by (subst wait_step [OF waits]) (simp add: Let_def)
    ultimately show ?thesis by blast
  next
    case False
    then show ?thesis using step.hyps by (intro exI [of _ k]) (subst wait_step [OF waits], auto simp: first_success_def)
  qed
qed

text \<open>
  C30. Waiting for room ends. Where no wait fails and the time is over after the \<open>K\<close>-th wait,
  the result is that of the first attempt that is not refused for want of room, or of the last
  one, the attempt after the \<open>K\<close>-th wait. With the timeout \<open>- 1\<close>, for which the documentation
  promises to wait for ever, the time is over after the first wait.
\<close>

theorem reserve_blocking_returns:
  assumes "\<And>k w. 0 \<le> e_wait env k w" "time_over env timeout_ms K"
  shows "\<exists>j \<le> K + 1. user_ring_buffer__reserve_blocking env rb req timeout_ms = Some (attempt env rb req j) \<and>
    (\<forall>i < j. fst (attempt env rb req i) = Inl ENOSPC) \<and> (fst (attempt env rb req j) = Inl ENOSPC \<longrightarrow> j = K + 1)"
proof (cases "timeout_ms = - 1")
  case True
  then have K: "K = 0" using assms(2) by (simp add: time_over_def)
  show ?thesis
  proof (cases "fst (attempt env rb req 0) = Inl ENOSPC")
    case a: True
    then show ?thesis using True K
      by (intro exI [of _ 1]) (simp add: user_ring_buffer__reserve_blocking_def wait_step [OF assms(1), where k = 0])
  next
    case False
    then show ?thesis using True K
      by (intro exI [of _ 0]) (simp add: user_ring_buffer__reserve_blocking_def wait_step [OF assms(1), where k = 0])
  qed
next
  case False
  then obtain start where s: "0 \<le> sint timeout_ms" "e_clock env 0 = Inr start"
    and c: "\<forall>k \<le> K. \<exists>t. e_clock env (k + 1) = Inr t \<and> elapsed_ms start t < 2 ^ 31 \<and>
      (sint timeout_ms \<le> int (elapsed_ms start t) \<longleftrightarrow> k = K)"
    using assms(2) by (auto simp: time_over_def)
  from wait_timed [OF assms(1) False s(1) c le0, of rb req timeout_ms] obtain j where
    "first_success env rb req 0 K j" "reserve_wait env req timeout_ms start 0 timeout_ms rb = Some (attempt env rb req j)" by blast
  then show ?thesis
    using False s by (intro exI [of _ j]) (simp add: user_ring_buffer__reserve_blocking_def first_success_def)
qed

theorem reserve_blocking_returns_witness:
  "user_ring_buffer__reserve_blocking \<lparr>e_cons = \<lambda>_. 0, e_wait = \<lambda>_ _. 1, e_clock = \<lambda>_. Inl 1\<rparr>
     \<lparr>u_mask = 7, u_cons = 0, u_prod = 8, u_data = \<lambda>_. 0\<rparr> 0 (- 1) =
   Some (Inl ENOSPC, \<lparr>u_mask = 7, u_cons = 0, u_prod = 8, u_data = \<lambda>_. 0\<rparr>)"
proof -
  let ?env = "\<lparr>e_cons = \<lambda>_. 0, e_wait = \<lambda>_ _. 1, e_clock = \<lambda>_. Inl 1\<rparr>"
  let ?rb = "\<lparr>u_mask = 7, u_cons = 0, u_prod = 8, u_data = \<lambda>_. 0\<rparr>"
  have "attempt ?env ?rb 0 k = (Inl ENOSPC, ?rb)" for k
    by (simp add: attempt_def user_ring_buffer__reserve_def Let_def)
  then show ?thesis using reserve_blocking_returns [of ?env "- 1" 0 ?rb 0] by (auto simp: time_over_def)
qed

end
