(* ===== verification/Libbpf_Ringbuf_Setup.thy ===== *)
theory Libbpf_Ringbuf_Setup
  imports C_Runtime
begin

section \<open>Setting up and freeing ring buffers\<close>

text \<open>
  \<open>lib/libbpf/src/ringbuf.c\<close>: the functions that create ring buffers, add rings to them and free
  them. The world counts what the process holds: the lengths of its mappings, its epoll
  instances and its heap blocks. What the calls into the kernel and the allocator return is
  given; sizes are those of a 64-bit process.
\<close>

abbreviation (input) BPF_MAP_TYPE_RINGBUF :: u32 where "BPF_MAP_TYPE_RINGBUF \<equiv> 27"
abbreviation (input) BPF_MAP_TYPE_USER_RINGBUF :: u32 where "BPF_MAP_TYPE_USER_RINGBUF \<equiv> 31"

record rworld =
  live_maps :: "u64 multiset"
  live_epolls :: int
  live_blocks :: int

definition mmap :: "u64 \<Rightarrow> rworld \<Rightarrow> rworld" where
  "mmap len w = w\<lparr>live_maps := add_mset len (live_maps w)\<rparr>"

definition munmap :: "u64 \<Rightarrow> rworld \<Rightarrow> rworld" where
  "munmap len w = w\<lparr>live_maps := live_maps w - {#len#}\<rparr>"

text \<open>Of a ring, whether its two pointers are set.\<close>

record rmap =
  rm_mask :: u64
  rm_consumer :: bool
  rm_producer :: bool

record ring_mgr =
  page_size :: u64
  g_rings :: "rmap list"
  g_rings_block :: bool
  g_events_block :: bool
  g_epoll_fd :: int

text \<open>What the calls of one \<open>ring_buffer__add\<close> return: \<open>errno\<close> on failure, 0 otherwise.\<close>

record add_sys =
  a_info :: "int + u32 \<times> u32"
  a_rings :: bool
  a_events :: bool
  a_mmap1 :: int
  a_mmap2 :: int
  a_ctl :: int

record new_sys =
  n_opts :: bool
  n_calloc :: bool
  n_page :: u64
  n_epoll :: int
  n_add :: add_sys

definition ringbuf_unmap_ring :: "u64 \<Rightarrow> rmap \<Rightarrow> rworld \<Rightarrow> rmap \<times> rworld" where
  "ringbuf_unmap_ring page r w =
     (let (r, w) = (if rm_consumer r then (r\<lparr>rm_consumer := False\<rparr>, munmap page w) else (r, w)) in
      if rm_producer r then (r\<lparr>rm_producer := False\<rparr>, munmap (page + 2 * (rm_mask r + 1)) w) else (r, w))"

definition ring_buffer__add :: "add_sys \<Rightarrow> ring_mgr \<Rightarrow> rworld \<Rightarrow> int \<times> ring_mgr \<times> rworld" where
  "ring_buffer__add sys rb w =
     (case a_info sys of
        Inl e \<Rightarrow> (- e, rb, w)
      | Inr (type, max_entries) \<Rightarrow>
          if type \<noteq> BPF_MAP_TYPE_RINGBUF then (- EINVAL, rb, w)
          else if \<not> a_rings sys then (- ENOMEM, rb, w)
          else
            let w = (if g_rings_block rb then w else w\<lparr>live_blocks := live_blocks w + 1\<rparr>);
                rb = rb\<lparr>g_rings_block := True\<rparr> in
            if \<not> a_events sys then (- ENOMEM, rb, w)
            else
              let w = (if g_events_block rb then w else w\<lparr>live_blocks := live_blocks w + 1\<rparr>);
                  rb = rb\<lparr>g_events_block := True\<rparr>;
                  r = \<lparr>rm_mask = ucast (max_entries - 1), rm_consumer = False, rm_producer = False\<rparr> in
              if a_mmap1 sys \<noteq> 0 then (- a_mmap1 sys, rb, w)
              else
                let w = mmap (page_size rb) w; r = r\<lparr>rm_consumer := True\<rparr>;
                    mmap_sz = page_size rb + 2 * ucast max_entries in
                if mmap_sz \<noteq> ucast (mmap_sz :: u64) then (- E2BIG, rb, w)
                else if a_mmap2 sys \<noteq> 0 then
                  (case ringbuf_unmap_ring (page_size rb) r w of (r, w) \<Rightarrow> (- a_mmap2 sys, rb, w))
                else
                  let w = mmap mmap_sz w; r = r\<lparr>rm_producer := True\<rparr> in
                  if a_ctl sys \<noteq> 0 then
                    (case ringbuf_unmap_ring (page_size rb) r w of (r, w) \<Rightarrow> (- a_ctl sys, rb, w))
                  else (0, rb\<lparr>g_rings := g_rings rb @ [r]\<rparr>, w))"

definition ring_buffer__free :: "ring_mgr option \<Rightarrow> rworld \<Rightarrow> rworld" where
  "ring_buffer__free rb w =
     (case rb of
        None \<Rightarrow> w
      | Some rb \<Rightarrow>
          let w = fold (\<lambda>r w. snd (ringbuf_unmap_ring (page_size rb) r w)) (g_rings rb) w;
              w = (if g_epoll_fd rb \<ge> 0 then w\<lparr>live_epolls := live_epolls w - 1\<rparr> else w);
              w = (if g_events_block rb then w\<lparr>live_blocks := live_blocks w - 1\<rparr> else w);
              w = (if g_rings_block rb then w\<lparr>live_blocks := live_blocks w - 1\<rparr> else w) in
          w\<lparr>live_blocks := live_blocks w - 1\<rparr>)"

text \<open>A null pointer comes with the value of \<open>errno\<close>.\<close>

definition ring_buffer__new :: "new_sys \<Rightarrow> rworld \<Rightarrow> (int + ring_mgr) \<times> rworld" where
  "ring_buffer__new sys w =
     (if \<not> n_opts sys then (Inl EINVAL, w)
      else if \<not> n_calloc sys then (Inl ENOMEM, w)
      else
        let w = w\<lparr>live_blocks := live_blocks w + 1\<rparr>;
            rb = \<lparr>page_size = n_page sys, g_rings = [], g_rings_block = False, g_events_block = False,
                  g_epoll_fd = n_epoll sys\<rparr> in
        if g_epoll_fd rb < 0 then (Inl (- n_epoll sys), ring_buffer__free (Some rb) w)
        else
          let w = w\<lparr>live_epolls := live_epolls w + 1\<rparr> in
          case ring_buffer__add (n_add sys) rb w of (err, rb, w) \<Rightarrow>
            if err \<noteq> 0 then (Inl (- err), ring_buffer__free (Some rb) w) else (Inr rb, w))"

subsection \<open>The ring buffer the kernel reads\<close>

record user_ring =
  ur_page :: u64
  ur_map :: rmap
  ur_epoll_fd :: int

definition user_ringbuf_map :: "add_sys \<Rightarrow> user_ring \<Rightarrow> rworld \<Rightarrow> int \<times> user_ring \<times> rworld" where
  "user_ringbuf_map sys rb w =
     (case a_info sys of
        Inl e \<Rightarrow> (- e, rb, w)
      | Inr (type, max_entries) \<Rightarrow>
          if type \<noteq> BPF_MAP_TYPE_USER_RINGBUF then (- EINVAL, rb, w)
          else
            let r = (ur_map rb)\<lparr>rm_mask := ucast (max_entries - 1)\<rparr> in
            if a_mmap1 sys \<noteq> 0 then (- a_mmap1 sys, rb\<lparr>ur_map := r\<rparr>, w)
            else
              let w = mmap (ur_page rb) w; r = r\<lparr>rm_consumer := True\<rparr>;
                  mmap_sz = ur_page rb + 2 * ucast max_entries in
              if mmap_sz \<noteq> ucast (mmap_sz :: u64) then (- E2BIG, rb\<lparr>ur_map := r\<rparr>, w)
              else if a_mmap2 sys \<noteq> 0 then (- a_mmap2 sys, rb\<lparr>ur_map := r\<rparr>, w)
              else
                let w = mmap mmap_sz w; r = r\<lparr>rm_producer := True\<rparr> in
                if a_ctl sys \<noteq> 0 then (- a_ctl sys, rb\<lparr>ur_map := r\<rparr>, w) else (0, rb\<lparr>ur_map := r\<rparr>, w))"

definition user_ringbuf_unmap_ring :: "user_ring \<Rightarrow> rworld \<Rightarrow> user_ring \<times> rworld" where
  "user_ringbuf_unmap_ring rb w =
     (let r = ur_map rb;
          (r, w) = (if rm_consumer r then (r\<lparr>rm_consumer := False\<rparr>, munmap (ur_page rb) w) else (r, w));
          (r, w) = (if rm_producer r then (r\<lparr>rm_producer := False\<rparr>, munmap (ur_page rb + 2 * (rm_mask r + 1)) w) else (r, w)) in
      (rb\<lparr>ur_map := r\<rparr>, w))"

definition user_ring_buffer__free :: "user_ring option \<Rightarrow> rworld \<Rightarrow> rworld" where
  "user_ring_buffer__free rb w =
     (case rb of
        None \<Rightarrow> w
      | Some rb \<Rightarrow>
          let (rb, w) = user_ringbuf_unmap_ring rb w;
              w = (if ur_epoll_fd rb \<ge> 0 then w\<lparr>live_epolls := live_epolls w - 1\<rparr> else w) in
          w\<lparr>live_blocks := live_blocks w - 1\<rparr>)"

definition user_ring_buffer__new :: "new_sys \<Rightarrow> rworld \<Rightarrow> (int + user_ring) \<times> rworld" where
  "user_ring_buffer__new sys w =
     (if \<not> n_opts sys then (Inl EINVAL, w)
      else if \<not> n_calloc sys then (Inl ENOMEM, w)
      else
        let w = w\<lparr>live_blocks := live_blocks w + 1\<rparr>;
            rb = \<lparr>ur_page = n_page sys, ur_map = \<lparr>rm_mask = 0, rm_consumer = False, rm_producer = False\<rparr>,
                  ur_epoll_fd = n_epoll sys\<rparr> in
        if ur_epoll_fd rb < 0 then (Inl (- n_epoll sys), user_ring_buffer__free (Some rb) w)
        else
          let w = w\<lparr>live_epolls := live_epolls w + 1\<rparr> in
          case user_ringbuf_map (n_add sys) rb w of (err, rb, w) \<Rightarrow>
            if err \<noteq> 0 then (Inl (- err), user_ring_buffer__free (Some rb) w) else (Inr rb, w))"

subsection \<open>What a ring buffer holds\<close>

definition ring_maps :: "u64 \<Rightarrow> rmap \<Rightarrow> u64 multiset" where
  "ring_maps page r = (if rm_consumer r then {#page#} else {#}) +
     (if rm_producer r then {#page + 2 * (rm_mask r + 1)#} else {#})"

definition holds :: "ring_mgr \<Rightarrow> rworld \<Rightarrow> rworld" where
  "holds rb w = \<lparr>live_maps = live_maps w + sum_list (map (ring_maps (page_size rb)) (g_rings rb)),
     live_epolls = live_epolls w + of_bool (g_epoll_fd rb \<ge> 0),
     live_blocks = live_blocks w + of_bool (g_rings_block rb) + of_bool (g_events_block rb) + 1\<rparr>"

definition user_holds :: "user_ring \<Rightarrow> rworld \<Rightarrow> rworld" where
  "user_holds rb w = \<lparr>live_maps = live_maps w + ring_maps (ur_page rb) (ur_map rb),
     live_epolls = live_epolls w + of_bool (ur_epoll_fd rb \<ge> 0), live_blocks = live_blocks w + 1\<rparr>"

text \<open>The kernel creates no ring buffer map without entries.\<close>

definition sane_info :: "add_sys \<Rightarrow> bool" where
  "sane_info sys \<longleftrightarrow> (case a_info sys of Inl e \<Rightarrow> e \<noteq> 0 | Inr (t, n) \<Rightarrow> n \<noteq> 0)"

lemma map_length:
  assumes "(n :: u32) \<noteq> 0"
  shows "(ucast (n - 1) :: u64) + 1 = ucast n"
proof -
  have "unat (n - 1) + 1 = unat n" using assms unat_minus_one [of n] unat_gt_0 [of n] by simp
  then have "of_nat (unat (n - 1) + 1) = (of_nat (unat n) :: u64)" by (rule arg_cong)
  then show ?thesis by (simp add: add.commute)
qed

lemma unmap_ring:
  "snd (ringbuf_unmap_ring page r (w\<lparr>live_maps := ring_maps page r + M\<rparr>)) = w\<lparr>live_maps := M\<rparr>"
  by (simp add: ringbuf_unmap_ring_def ring_maps_def munmap_def Let_def)

lemma unmap_all:
  "fold (\<lambda>r w. snd (ringbuf_unmap_ring page r w)) rs (w\<lparr>live_maps := M + sum_list (map (ring_maps page) rs)\<rparr>) = w\<lparr>live_maps := M\<rparr>"
proof (induction rs arbitrary: w)
  case (Cons r rs)
  have e: "M + sum_list (map (ring_maps page) (r # rs)) = ring_maps page r + (M + sum_list (map (ring_maps page) rs))" by simp
  show ?case unfolding e fold_Cons comp_def unmap_ring by (rule Cons.IH)
qed simp

lemma free_holds: "ring_buffer__free (Some rb) (holds rb w) = w"
proof -
  have "fold (\<lambda>r w. snd (ringbuf_unmap_ring (page_size rb) r w)) (g_rings rb) (holds rb w) = (holds rb w)\<lparr>live_maps := live_maps w\<rparr>"
    using unmap_all [of "page_size rb" "g_rings rb" "live_maps w" "holds rb w"] by (simp add: holds_def)
  then show ?thesis by (cases w) (simp add: ring_buffer__free_def holds_def Let_def)
qed

lemma unmap_maps:
  "snd (ringbuf_unmap_ring page \<lparr>rm_mask = m, rm_consumer = True, rm_producer = False\<rparr> (mmap page w)) = w"
  "snd (ringbuf_unmap_ring page \<lparr>rm_mask = m, rm_consumer = True, rm_producer = True\<rparr>
     (mmap (page + 2 * (m + 1)) (mmap page w))) = w"
  by (simp_all add: ringbuf_unmap_ring_def munmap_def mmap_def Let_def)

lemma add_holds:
  assumes "sane_info sys"
  shows "case ring_buffer__add sys rb (holds rb w) of (err, rb', w') \<Rightarrow> w' = holds rb' w \<and> g_epoll_fd rb' = g_epoll_fd rb"
proof (cases "a_info sys")
  case (Inr x)
  obtain t n where x: "x = (t, n)" by (cases x)
  then have n: "ucast (n - 1) + 1 = (ucast n :: u64)" using assms Inr map_length by (simp add: sane_info_def)
  note u = unmap_maps [of "page_size rb" "ucast (n - 1)", unfolded n]
  show ?thesis using Inr x n u
    by (auto simp: ring_buffer__add_def Let_def holds_def prod.case_eq_if ring_maps_def mmap_def)
qed (simp add: ring_buffer__add_def)

lemma new_holds:
  assumes "sane_info (n_add sys)"
  shows "case ring_buffer__new sys w of (Inl e, w') \<Rightarrow> w' = w | (Inr rb, w') \<Rightarrow> w' = holds rb w"
proof -
  let ?rb = "\<lparr>page_size = n_page sys, g_rings = [], g_rings_block = False, g_events_block = False, g_epoll_fd = n_epoll sys\<rparr>"
  have h: "n_epoll sys < 0 \<Longrightarrow> w\<lparr>live_blocks := live_blocks w + 1\<rparr> = holds ?rb w"
    "\<not> n_epoll sys < 0 \<Longrightarrow> w\<lparr>live_blocks := live_blocks w + 1, live_epolls := live_epolls w + 1\<rparr> = holds ?rb w"
    by (simp_all add: holds_def)
  obtain err rb' w' where a: "ring_buffer__add (n_add sys) ?rb (holds ?rb w) = (err, rb', w')"
    by (cases "ring_buffer__add (n_add sys) ?rb (holds ?rb w)")
  have "w' = holds rb' w" using add_holds [OF assms, where rb = ?rb and w = w] unfolding a by simp
  then show ?thesis
    using h free_holds [of rb' w] free_holds [of ?rb w] a by (simp add: ring_buffer__new_def Let_def)
qed

fun add_all :: "add_sys list \<Rightarrow> ring_mgr \<Rightarrow> rworld \<Rightarrow> ring_mgr \<times> rworld" where
  "add_all [] rb w = (rb, w)"
| "add_all (a # as) rb w = (case ring_buffer__add a rb w of (err, rb, w) \<Rightarrow> add_all as rb w)"

lemma add_all_holds:
  "\<forall>a \<in> set as. sane_info a \<Longrightarrow> add_all as rb (holds rb w) = (rb', w') \<Longrightarrow> w' = holds rb' w"
proof (induction as arbitrary: rb)
  case (Cons a as)
  obtain err rb1 w1 where a: "ring_buffer__add a rb (holds rb w) = (err, rb1, w1)"
    by (cases "ring_buffer__add a rb (holds rb w)")
  have "w1 = holds rb1 w" using add_holds [where sys = a and rb = rb and w = w] Cons.prems(1) unfolding a by simp
  then show ?case using Cons a by simp
qed simp

lemma user_free_holds: "user_ring_buffer__free (Some rb) (user_holds rb w) = w"
  by (cases w) (simp add: user_ring_buffer__free_def user_ringbuf_unmap_ring_def user_holds_def ring_maps_def munmap_def Let_def)

lemma user_map_holds:
  assumes "sane_info sys" "ur_map rb = \<lparr>rm_mask = m, rm_consumer = False, rm_producer = False\<rparr>"
  shows "case user_ringbuf_map sys rb (user_holds rb w) of (err, rb', w') \<Rightarrow> w' = user_holds rb' w"
proof (cases "a_info sys")
  case (Inr x)
  obtain t n where x: "x = (t, n)" by (cases x)
  then have n: "ucast (n - 1) + 1 = (ucast n :: u64)" using assms Inr map_length by (simp add: sane_info_def)
  show ?thesis using Inr x n assms(2)
    by (auto simp: user_ringbuf_map_def Let_def user_holds_def ring_maps_def mmap_def)
qed (simp add: user_ringbuf_map_def)

lemma user_new_holds:
  assumes "sane_info (n_add sys)"
  shows "case user_ring_buffer__new sys w of (Inl e, w') \<Rightarrow> w' = w | (Inr rb, w') \<Rightarrow> w' = user_holds rb w"
proof -
  let ?rb = "\<lparr>ur_page = n_page sys, ur_map = \<lparr>rm_mask = 0, rm_consumer = False, rm_producer = False\<rparr>, ur_epoll_fd = n_epoll sys\<rparr>"
  have h: "n_epoll sys < 0 \<Longrightarrow> w\<lparr>live_blocks := live_blocks w + 1\<rparr> = user_holds ?rb w"
    "\<not> n_epoll sys < 0 \<Longrightarrow> w\<lparr>live_blocks := live_blocks w + 1, live_epolls := live_epolls w + 1\<rparr> = user_holds ?rb w"
    by (simp_all add: user_holds_def ring_maps_def)
  obtain err rb' w' where a: "user_ringbuf_map (n_add sys) ?rb (user_holds ?rb w) = (err, rb', w')"
    by (cases "user_ringbuf_map (n_add sys) ?rb (user_holds ?rb w)")
  have "w' = user_holds rb' w" using user_map_holds [OF assms, of ?rb 0 w] unfolding a by simp
  then show ?thesis
    using h user_free_holds [of rb' w] user_free_holds [of ?rb w] a by (simp add: user_ring_buffer__new_def Let_def)
qed

text \<open>
  C31. Ring buffers leak nothing. Whatever calls fail, a failed creation leaves the process with the
  mappings, epoll instances and heap blocks it had; and after a creation that succeeds, any number of
  rings added or refused, and the release, it has again what it had before, with every mapping
  unmapped at the length it was mapped with. The same holds for the ring the kernel reads.
\<close>

theorem ring_buffers_balanced:
  assumes "sane_info (n_add sys)" "\<forall>a \<in> set adds. sane_info a"
  shows "(case ring_buffer__new sys w of
      (Inl e, w') \<Rightarrow> w' = w
    | (Inr rb, w') \<Rightarrow> (case add_all adds rb w' of (rb', w'') \<Rightarrow> ring_buffer__free (Some rb') w'' = w)) \<and>
    (case user_ring_buffer__new sys w of
      (Inl e, w') \<Rightarrow> w' = w
    | (Inr rb, w') \<Rightarrow> user_ring_buffer__free (Some rb) w' = w)"
  using new_holds [OF assms(1), of w] user_new_holds [OF assms(1), of w] add_all_holds [OF assms(2)] free_holds user_free_holds
  by (fastforce split: prod.split sum.split)

theorem ring_buffers_balanced_witness:
  "\<exists>rb w' rb' w''. ring_buffer__new \<lparr>n_opts = True, n_calloc = True, n_page = 4096, n_epoll = 5,
       n_add = \<lparr>a_info = Inr (27, 8192), a_rings = True, a_events = True, a_mmap1 = 0, a_mmap2 = 0, a_ctl = 0\<rparr>\<rparr>
       \<lparr>live_maps = {#}, live_epolls = 0, live_blocks = 0\<rparr> = (Inr rb, w') \<and>
     live_maps w' = {#20480, 4096#} \<and>
     add_all [\<lparr>a_info = Inr (27, 4096), a_rings = True, a_events = True, a_mmap1 = 0, a_mmap2 = 12, a_ctl = 0\<rparr>] rb w' = (rb', w'') \<and>
     ring_buffer__free (Some rb') w'' = \<lparr>live_maps = {#}, live_epolls = 0, live_blocks = 0\<rparr>"
proof -
  let ?a = "\<lparr>a_info = Inr (27, 8192), a_rings = True, a_events = True, a_mmap1 = 0, a_mmap2 = 0, a_ctl = 0\<rparr>"
  let ?b = "\<lparr>a_info = Inr (27, 4096), a_rings = True, a_events = True, a_mmap1 = 0, a_mmap2 = 12, a_ctl = 0\<rparr>"
  let ?s = "\<lparr>n_opts = True, n_calloc = True, n_page = 4096, n_epoll = 5, n_add = ?a\<rparr>"
  let ?w = "\<lparr>live_maps = {#}, live_epolls = 0, live_blocks = 0\<rparr>"
  have "sane_info (n_add ?s)" "\<forall>a \<in> set [?b]. sane_info a" by (simp_all add: sane_info_def)
  from ring_buffers_balanced [OF this, of ?w] show ?thesis
    by (cases "add_all [?b] (projr (fst (ring_buffer__new ?s ?w))) (snd (ring_buffer__new ?s ?w))")
      (auto simp: ring_buffer__new_def ring_buffer__add_def Let_def mmap_def)
qed

end
