(* ===== verification/Echo_Server.thy ===== *)
theory Echo_Server
  imports Xdp_Echo
begin

section \<open>The user-space echo server\<close>

text \<open>
  \<open>server.c\<close>: a UDP socket bound to a fixed port on all addresses, and a loop that sends every
  datagram back to its sender. The socket calls are the operating system's: \<open>delivered\<close> is the
  documented behaviour of a bound datagram socket (it gets what is addressed to its port, and
  \<open>recvfrom\<close> cuts a datagram to the size of the buffer), and the source address the system
  chooses for an answer is a parameter. Addresses and ports are kept in network byte order.
\<close>

record sockaddr_in =
  sin_addr :: u32
  sin_port :: u16

record datagram =
  msg_src :: sockaddr_in
  msg_dst :: sockaddr_in
  msg_payload :: "u8 list"

definition BUF_SZ :: nat where
  "BUF_SZ = 2048"

definition PORT :: u16 where
  "PORT = 9000"

definition INADDR_ANY :: u32 where
  "INADDR_ANY = 0"

text \<open>The part of \<open>main\<close> before the loop: the address the socket is bound to, or the exit code.\<close>

definition server_setup :: "int \<Rightarrow> (sockaddr_in \<Rightarrow> int) \<Rightarrow> int + sockaddr_in" where
  "server_setup sock bind_addr =
     (if sock < 0 then Inl 1
      else let addr = \<lparr>sin_addr = bpf_htonl INADDR_ANY, sin_port = bpf_htons PORT\<rparr> in
        if bind_addr addr < 0 then Inl 1 else Inr addr)"

text \<open>
  One turn of the loop: \<open>recvfrom\<close> fails, or fills the buffer and the address of the peer;
  what is sent back is the filled part of the buffer, to the peer.
\<close>

datatype received = Failed | Received "u8 list" sockaddr_in

fun server_turn :: "received \<Rightarrow> (u8 list \<times> sockaddr_in) option" where
  "server_turn Failed = None"
| "server_turn (Received buf peer) = Some (buf, peer)"

definition server_loop :: "received list \<Rightarrow> (u8 list \<times> sockaddr_in) list" where
  "server_loop rs = List.map_filter server_turn rs"

definition recvfrom :: "nat \<Rightarrow> datagram \<Rightarrow> received" where
  "recvfrom len d = Received (take len (msg_payload d)) (msg_src d)"

definition delivered :: "sockaddr_in \<Rightarrow> datagram \<Rightarrow> bool" where
  "delivered addr d \<longleftrightarrow> sin_port (msg_dst d) = sin_port addr \<and>
     (sin_addr addr = INADDR_ANY \<or> sin_addr addr = sin_addr (msg_dst d))"

text \<open>
  The answers on the wire to a sequence of datagrams: \<open>src_for\<close> is the address the system sends
  from when it answers a datagram.
\<close>

definition server_answers :: "(datagram \<Rightarrow> u32) \<Rightarrow> sockaddr_in \<Rightarrow> datagram list \<Rightarrow> datagram list" where
  "server_answers src_for addr ds =
     concat (map (\<lambda>d. map (\<lambda>(buf, peer).
         \<lparr>msg_src = \<lparr>sin_addr = src_for d, sin_port = sin_port addr\<rparr>, msg_dst = peer, msg_payload = buf\<rparr>)
       (server_loop [recvfrom BUF_SZ d])) (filter (delivered addr) ds))"

lemma server_loop_map: "server_loop (map (recvfrom n) ds) = map (\<lambda>d. (take n (msg_payload d), msg_src d)) ds"
  by (induction ds) (simp_all add: server_loop_def recvfrom_def List.map_filter_simps)

lemma server_loop_skips: "server_loop (rs @ Failed # rs') = server_loop (rs @ rs')"
  by (simp add: server_loop_def List.map_filter_def)

lemma server_answers_one:
  "server_answers src_for addr [d] =
     (if delivered addr d
      then [\<lparr>msg_src = \<lparr>sin_addr = src_for d, sin_port = sin_port addr\<rparr>, msg_dst = msg_src d,
              msg_payload = take BUF_SZ (msg_payload d)\<rparr>]
      else [])"
  using server_loop_map [of BUF_SZ "[d]"] by (simp add: server_answers_def)

subsection \<open>Datagrams in packets\<close>

text \<open>The UDP datagram an Ethernet frame with an IPv4 header without options carries.\<close>

definition datagram_of :: "u8 list \<Rightarrow> datagram" where
  "datagram_of p =
     \<lparr>msg_src = \<lparr>sin_addr = le_dec (seg 26 4 p), sin_port = le_dec (seg 34 2 p)\<rparr>,
      msg_dst = \<lparr>sin_addr = le_dec (seg 30 4 p), sin_port = le_dec (seg 36 2 p)\<rparr>,
      msg_payload = seg 42 (unat (bpf_ntohs (le_dec (seg 38 2 p))) - 8) p\<rparr>"

definition carries_udp :: "u8 list \<Rightarrow> bool" where
  "carries_udp p \<longleftrightarrow> 42 \<le> length p \<and> p ! 23 = IPPROTO_UDP \<and>
     8 \<le> unat (bpf_ntohs (le_dec (seg 38 2 p))) \<and> 34 + unat (bpf_ntohs (le_dec (seg 38 2 p))) \<le> length p"

definition swapped :: "datagram \<Rightarrow> datagram" where
  "swapped d = d\<lparr>msg_src := msg_dst d, msg_dst := msg_src d\<rparr>"

lemma datagram_of_reply:
  assumes "42 \<le> length p"
  shows "datagram_of (udp_reply p) = swapped (datagram_of p)"
proof -
  let ?r = "udp_reply p"
  let ?a = "seg 6 6 p @ seg 0 6 p @ seg 12 12 p @ [0, 0]"
  have l: "length ?a = 26" using assms by simp
  have r: "?r = ?a @ seg 30 4 p @ seg 26 4 p @ seg 36 2 p @ seg 34 2 p @ seg 38 2 p @ [0, 0] @ drop 42 p"
    by (simp add: udp_reply_def)
  have "seg 26 4 ?r = seg 30 4 p" unfolding r by (rule seg_append) (use assms l in simp_all)
  moreover have "seg 30 4 ?r = seg 26 4 p"
    using seg_append [of "?a @ seg 30 4 p" 30 "seg 26 4 p" 4] assms unfolding r by simp
  moreover have "seg 34 2 ?r = seg 36 2 p"
    using seg_append [of "?a @ seg 30 4 p @ seg 26 4 p" 34 "seg 36 2 p" 2] assms unfolding r by simp
  moreover have "seg 36 2 ?r = seg 34 2 p"
    using seg_append [of "?a @ seg 30 4 p @ seg 26 4 p @ seg 36 2 p" 36 "seg 34 2 p" 2] assms unfolding r by simp
  moreover have "seg 38 2 ?r = seg 38 2 p"
    using seg_append [of "?a @ seg 30 4 p @ seg 26 4 p @ seg 36 2 p @ seg 34 2 p" 38 "seg 38 2 p" 2] assms unfolding r by simp
  moreover have "drop 42 ?r = drop 42 p" unfolding r using assms by simp
  then have "seg 42 n ?r = seg 42 n p" for n by (simp add: seg_def)
  ultimately show ?thesis by (simp add: datagram_of_def swapped_def)
qed

lemma setup_addr: "server_setup sock bind_addr = Inr addr \<Longrightarrow> sin_addr addr = INADDR_ANY \<and> sin_port addr = bpf_htons PORT"
proof -
  assume a: "server_setup sock bind_addr = Inr addr"
  have "bpf_htonl INADDR_ANY = INADDR_ANY" by code_simp
  with a show ?thesis by (auto simp: server_setup_def Let_def split: if_splits)
qed

lemma answer_is_swapped:
  assumes "sin_addr addr = INADDR_ANY" "src_for d = sin_addr (msg_dst d)"
  shows "server_answers src_for addr [d] = [swapped d] \<longleftrightarrow>
    sin_port (msg_dst d) = sin_port addr \<and> length (msg_payload d) \<le> BUF_SZ"
proof -
  obtain s t b where d: "d = \<lparr>msg_src = s, msg_dst = t, msg_payload = b\<rparr>" by (cases d) auto
  have "take BUF_SZ b = b \<longleftrightarrow> length b \<le> BUF_SZ" by (metis length_take min_le_iff_disj nle_le take_all_iff)
  then show ?thesis
    using assms by (cases t) (auto simp: d server_answers_one delivered_def swapped_def)
qed

end
