(* ===== verification/Echo_Client.thy ===== *)
theory Echo_Client
  imports Echo_Server
begin

section \<open>The echo client\<close>














end
