(* ===== verification/Xsk_Umem.thy ===== *)
theory Xsk_Umem
  imports C_Runtime Xsk_Ring
begin

section \<open>Packet memory and sockets of AF_XDP\<close>

text \<open>
  \<open>lib/xdp-tools/lib/libxdp/xsk.c\<close>: creating and deleting packet memory (umem) and the sockets that
  share it. The world holds what the process has: its mappings (identified by numbers),
  file descriptors and heap blocks, \<open>errno\<close>, and for each ring structure of the application (identified
  by its address) the mapping it points into; \<open>wild\<close> is set when something is unmapped that is not
  mapped. The results of the calls into the kernel and the allocator are given. The XDP
  program of a socket is left out but for the result of setting it up.
\<close>

unbundle bit_operations_syntax

abbreviation (input) EFAULT :: int where "EFAULT \<equiv> 14"
abbreviation (input) ENOPROTOOPT :: int where "ENOPROTOOPT \<equiv> 92"
abbreviation (input) INIT_NS :: u64 where "INIT_NS \<equiv> 1"
abbreviation (input) XSK_LIBBPF_FLAGS__INHIBIT_PROG_LOAD :: u32 where "XSK_LIBBPF_FLAGS__INHIBIT_PROG_LOAD \<equiv> 1"

subsection \<open>Configuration\<close>

record xsk_umem_config =
  fill_size :: u32
  comp_size :: u32
  frame_size :: u32
  frame_headroom :: u32
  umem_flags :: u32

record xsk_socket_config =
  rx_size :: u32
  tx_size :: u32
  libbpf_flags :: u32
  xdp_flags :: u32
  bind_flags :: u16

definition xsk_set_umem_config :: "xsk_umem_config option \<Rightarrow> xsk_umem_config" where
  "xsk_set_umem_config usr_cfg =
     (case usr_cfg of
        None \<Rightarrow> \<lparr>fill_size = 2048, comp_size = 2048, frame_size = 4096, frame_headroom = 0, umem_flags = 0\<rparr>
      | Some c \<Rightarrow> c)"

definition xsk_set_xdp_socket_config :: "xsk_socket_config option \<Rightarrow> int + xsk_socket_config" where
  "xsk_set_xdp_socket_config usr_cfg =
     (case usr_cfg of
        None \<Rightarrow> Inr \<lparr>rx_size = 2048, tx_size = 2048, libbpf_flags = 0, xdp_flags = 0, bind_flags = 0\<rparr>
      | Some c \<Rightarrow>
          if libbpf_flags c AND NOT XSK_LIBBPF_FLAGS__INHIBIT_PROG_LOAD \<noteq> 0 then Inl (- EINVAL) else Inr c)"

text \<open>
  The offsets of the parts of the four rings. A kernel before 5.4 fills only the first twelve
  words, without the offsets of the flags.
\<close>

record xdp_ring_offset =
  off_producer :: u64
  off_consumer :: u64
  off_desc :: u64
  off_flags :: u64

record xdp_mmap_offsets =
  off_rx :: xdp_ring_offset
  off_tx :: xdp_ring_offset
  off_fr :: xdp_ring_offset
  off_cr :: xdp_ring_offset

definition offsets_words :: "xdp_mmap_offsets \<Rightarrow> u64 list" where
  "offsets_words off = concat (map (\<lambda>r. [off_producer r, off_consumer r, off_desc r, off_flags r])
     [off_rx off, off_tx off, off_fr off, off_cr off])"

definition xsk_mmap_offsets_v1 :: "xdp_mmap_offsets \<Rightarrow> xdp_mmap_offsets" where
  "xsk_mmap_offsets_v1 off =
     (let off_v1 = offsets_words off;
          conv = (\<lambda>i. \<lparr>off_producer = off_v1 ! i, off_consumer = off_v1 ! (i + 1), off_desc = off_v1 ! (i + 2),
                       off_flags = off_v1 ! (i + 1) + 4\<rparr>) in
      \<lparr>off_rx = conv 0, off_tx = conv 3, off_fr = conv 6, off_cr = conv 9\<rparr>)"

subsection \<open>The world\<close>

text \<open>
  The structure \<open>xsk_ring_prod\<close> or \<open>xsk_ring_cons\<close> of an application: its own view of the
  ring, and its pointers, which are offsets into one mapping.
\<close>

record ring_hdr =
  rh_view :: xsk_ring
  rh_map :: nat
  rh_producer :: u64
  rh_consumer :: u64
  rh_flags :: u64
  rh_ring :: u64

record xworld =
  xw_off :: xdp_mmap_offsets
  xw_optlen :: nat
  xw_maps :: "nat set"
  xw_len :: "nat \<Rightarrow> u64"
  xw_next :: nat
  xw_ring :: "nat \<Rightarrow> ring_hdr"
  xw_wild :: bool
  xw_fds :: "int multiset"
  xw_heap :: int
  xw_errno :: int

definition set_errno :: "int \<Rightarrow> xworld \<Rightarrow> xworld" where
  "set_errno e w = w\<lparr>xw_errno := e\<rparr>"

definition xalloc :: "int \<Rightarrow> xworld \<Rightarrow> xworld" where
  "xalloc n w = w\<lparr>xw_heap := xw_heap w + n\<rparr>"

text \<open>A new mapping of \<open>len\<close> bytes, into which the ring structure at \<open>p\<close> then points.\<close>

definition map_ring :: "nat \<Rightarrow> xdp_ring_offset \<Rightarrow> u64 \<Rightarrow> (xsk_ring \<Rightarrow> xsk_ring) \<Rightarrow> xworld \<Rightarrow> xworld" where
  "map_ring p off len view w =
     (let n = xw_next w in
      w\<lparr>xw_maps := insert n (xw_maps w), xw_len := (xw_len w)(n := len), xw_next := n + 1,
        xw_ring := (xw_ring w)(p := \<lparr>rh_view = view (rh_view (xw_ring w p)), rh_map = n, rh_producer = off_producer off,
          rh_consumer = off_consumer off, rh_flags = off_flags off, rh_ring = off_desc off\<rparr>)\<rparr>)"

text \<open>
  Unmapping \<open>len\<close> bytes from \<open>desc\<close> bytes before the slots of the ring at \<open>p\<close>. It is wild
  unless this is a mapping.
\<close>

definition unmap_ring :: "nat \<Rightarrow> u64 \<Rightarrow> u64 \<Rightarrow> xworld \<Rightarrow> xworld" where
  "unmap_ring p desc len w =
     (let r = xw_ring w p in
      if rh_map r \<in> xw_maps w \<and> rh_ring r = desc \<and> xw_len w (rh_map r) = len
      then w\<lparr>xw_maps := xw_maps w - {rh_map r}\<rparr> else w\<lparr>xw_wild := True\<rparr>)"

definition open_fd :: "int \<Rightarrow> xworld \<Rightarrow> xworld" where
  "open_fd fd w = w\<lparr>xw_fds := add_mset fd (xw_fds w)\<rparr>"

definition close_fd :: "int \<Rightarrow> xworld \<Rightarrow> xworld" where
  "close_fd fd w = w\<lparr>xw_fds := xw_fds w - {#fd#}\<rparr>"

text \<open>
  \<open>getsockopt\<close> fails with \<open>errno\<close> \<open>e\<close>, or (\<open>e\<close> = 0) gives the structure and the length of the
  kernel, which do not change.
\<close>

definition xsk_get_mmap_offsets :: "int \<Rightarrow> xworld \<Rightarrow> (int + xdp_mmap_offsets) \<times> xworld" where
  "xsk_get_mmap_offsets e w =
     (if e \<noteq> 0 then (Inl (- 1), set_errno e w)
      else if xw_optlen w = 128 then (Inr (xw_off w), w)
      else if xw_optlen w = 96 then (Inr (xsk_mmap_offsets_v1 (xw_off w)), w)
      else (Inl (- EINVAL), w))"

text \<open>The bytes of a ring of \<open>n\<close> slots of \<open>sz\<close> bytes.\<close>

definition ring_bytes :: "xdp_ring_offset \<Rightarrow> u32 \<Rightarrow> u64 \<Rightarrow> u64" where
  "ring_bytes off n sz = off_desc off + ucast n * sz"

subsection \<open>Packet memory\<close>

record xctx =
  cx_netns :: u64
  cx_ifindex :: int
  cx_queue :: u32
  cx_refcount :: int
  cx_fill :: nat
  cx_comp :: nat

record xumem =
  um_fill_save :: "nat option"
  um_comp_save :: "nat option"
  um_config :: xsk_umem_config
  um_fd :: int
  um_refcount :: int
  um_ctxs :: "xctx list"
  um_rx_done :: bool
  um_tx_done :: bool

text \<open>The calls of \<open>xsk_create_umem_rings\<close>: \<open>errno\<close>, or 0 if they succeed.\<close>

record rings_sys =
  r_fill_opt :: int
  r_comp_opt :: int
  r_off :: int
  r_fill_map :: int
  r_comp_map :: int

text \<open>
  If the second mapping fails, the code unmaps the address of the failed mapping, which only sets \<open>errno\<close>.
\<close>

definition xsk_create_umem_rings :: "rings_sys \<Rightarrow> xsk_umem_config \<Rightarrow> nat \<Rightarrow> nat \<Rightarrow> xworld \<Rightarrow> int \<times> xworld" where
  "xsk_create_umem_rings sys cfg fill cmp w =
     (if r_fill_opt sys \<noteq> 0 then (- r_fill_opt sys, set_errno (r_fill_opt sys) w)
      else if r_comp_opt sys \<noteq> 0 then (- r_comp_opt sys, set_errno (r_comp_opt sys) w)
      else
        case xsk_get_mmap_offsets (r_off sys) w of
          (Inl err, w) \<Rightarrow> (- xw_errno w, w)
        | (Inr off, w) \<Rightarrow>
            if r_fill_map sys \<noteq> 0 then (- r_fill_map sys, set_errno (r_fill_map sys) w)
            else
              let w = map_ring fill (off_fr off) (ring_bytes (off_fr off) (fill_size cfg) 8)
                        (\<lambda>r. r\<lparr>ring_mask := fill_size cfg - 1, ring_size := fill_size cfg, cached_cons := fill_size cfg\<rparr>) w in
              if r_comp_map sys \<noteq> 0 then (- r_comp_map sys, set_errno EINVAL w)
              else
                (0, map_ring cmp (off_cr off) (ring_bytes (off_cr off) (comp_size cfg) 8)
                      (\<lambda>r. r\<lparr>ring_mask := comp_size cfg - 1, ring_size := comp_size cfg\<rparr>) w))"

definition xsk_page_aligned :: "u64 \<Rightarrow> u64 \<Rightarrow> bool" where
  "xsk_page_aligned addr pagesize \<longleftrightarrow> addr AND (pagesize - 1) = 0"

record umem_sys =
  u_args :: bool
  u_area :: u64
  u_pagesize :: u64
  u_calloc :: bool
  u_socket :: "int + int"
  u_reg :: int
  u_rings :: rings_sys

definition xsk_umem__create_with_fd ::
  "umem_sys \<Rightarrow> int \<Rightarrow> u64 \<Rightarrow> nat \<Rightarrow> nat \<Rightarrow> xsk_umem_config option \<Rightarrow> xworld \<Rightarrow> int \<times> xumem option \<times> xworld" where
  "xsk_umem__create_with_fd sys fd sz fill cmp usr_config w =
     (if \<not> u_args sys then (- EFAULT, None, w)
      else if sz = 0 \<and> \<not> xsk_page_aligned (u_area sys) (u_pagesize sys) then (- EINVAL, None, w)
      else if \<not> u_calloc sys then (- ENOMEM, None, w)
      else
        let w = xalloc 1 w in
        case (if fd < 0 then u_socket sys else Inr fd) of
          Inl e \<Rightarrow> (- e, None, xalloc (- 1) (set_errno e w))
        | Inr ufd \<Rightarrow>
            let w = (if fd < 0 then open_fd ufd w else w);
                umem = \<lparr>um_fill_save = None, um_comp_save = None, um_config = xsk_set_umem_config usr_config,
                  um_fd = ufd, um_refcount = 0, um_ctxs = [], um_rx_done = False, um_tx_done = False\<rparr> in
            if u_reg sys \<noteq> 0 then (- u_reg sys, None, xalloc (- 1) (close_fd ufd (set_errno (u_reg sys) w)))
            else
              case xsk_create_umem_rings (u_rings sys) (um_config umem) fill cmp w of (err, w) \<Rightarrow>
              if err \<noteq> 0 then (err, None, xalloc (- 1) (close_fd ufd w))
              else (0, Some (umem\<lparr>um_fill_save := Some fill, um_comp_save := Some cmp\<rparr>), w))"

definition xsk_umem__create ::
  "umem_sys \<Rightarrow> u64 \<Rightarrow> nat \<Rightarrow> nat \<Rightarrow> xsk_umem_config option \<Rightarrow> xworld \<Rightarrow> int \<times> xumem option \<times> xworld" where
  "xsk_umem__create sys = xsk_umem__create_with_fd sys (- 1)"

definition xsk_umem__fd :: "xumem option \<Rightarrow> int" where
  "xsk_umem__fd umem = (case umem of None \<Rightarrow> - EINVAL | Some u \<Rightarrow> um_fd u)"

text \<open>Unmapping a fill and a completion ring, as deletions do it.\<close>

definition unmap_umem_rings :: "xdp_mmap_offsets \<Rightarrow> xsk_umem_config \<Rightarrow> nat \<Rightarrow> nat \<Rightarrow> xworld \<Rightarrow> xworld" where
  "unmap_umem_rings off cfg fill cmp w =
     unmap_ring cmp (off_desc (off_cr off)) (ring_bytes (off_cr off) (comp_size cfg) 8)
       (unmap_ring fill (off_desc (off_fr off)) (ring_bytes (off_fr off) (fill_size cfg) 8) w)"


subsection \<open>Contexts: the rings of one queue, shared by sockets\<close>

type_synonym ctx_key = "u64 \<times> int \<times> u32"

definition ctx_key :: "xctx \<Rightarrow> ctx_key" where
  "ctx_key c = (cx_netns c, cx_ifindex c, cx_queue c)"

fun xsk_get_ctx :: "ctx_key \<Rightarrow> xctx list \<Rightarrow> xctx list option" where
  "xsk_get_ctx key [] = None"
| "xsk_get_ctx key (c # cs) =
     (if ctx_key c = key then Some (c\<lparr>cx_refcount := cx_refcount c + 1\<rparr> # cs)
      else map_option ((#) c) (xsk_get_ctx key cs))"

fun xsk_put_ctx :: "int \<Rightarrow> xsk_umem_config \<Rightarrow> ctx_key \<Rightarrow> bool \<Rightarrow> xctx list \<Rightarrow> xworld \<Rightarrow> xctx list \<times> xworld" where
  "xsk_put_ctx e cfg key unmap [] w = ([], w)"
| "xsk_put_ctx e cfg key unmap (c # cs) w =
     (if ctx_key c \<noteq> key then (case xsk_put_ctx e cfg key unmap cs w of (cs', w) \<Rightarrow> (c # cs', w))
      else if cx_refcount c - 1 \<noteq> 0 then (c\<lparr>cx_refcount := cx_refcount c - 1\<rparr> # cs, w)
      else
        let w = (if unmap then
                   (case xsk_get_mmap_offsets e w of
                      (Inl err, w) \<Rightarrow> w
                    | (Inr off, w) \<Rightarrow> unmap_umem_rings off cfg (cx_fill c) (cx_comp c) w)
                 else w) in
        (cs, xalloc (- 1) w))"

text \<open>A new context; \<open>None\<close> if there is no memory or the rings cannot be created.\<close>

definition copy_ring :: "nat \<Rightarrow> nat \<Rightarrow> xworld \<Rightarrow> xworld" where
  "copy_ring p q w = w\<lparr>xw_ring := (xw_ring w)(p := xw_ring w q)\<rparr>"

definition xsk_create_ctx ::
  "bool \<Rightarrow> rings_sys \<Rightarrow> ctx_key \<Rightarrow> nat \<Rightarrow> nat \<Rightarrow> xumem \<Rightarrow> xworld \<Rightarrow> xumem option \<times> xworld" where
  "xsk_create_ctx alloc_ok sys key fill cmp umem w =
     (if \<not> alloc_ok then (None, w)
      else
        let w = xalloc 1 w;
            (err, w) =
              (case (um_fill_save umem, um_comp_save umem) of
                 (None, _) \<Rightarrow> xsk_create_umem_rings sys (um_config umem) fill cmp w
               | (Some f, c) \<Rightarrow>
                   if f \<noteq> fill \<or> c \<noteq> Some cmp then (0, copy_ring cmp (the c) (copy_ring fill f w)) else (0, w)) in
        if err \<noteq> 0 then (None, xalloc (- 1) w)
        else
          (Some (umem\<lparr>um_ctxs := \<lparr>cx_netns = fst key, cx_ifindex = fst (snd key), cx_queue = snd (snd key),
              cx_refcount = 1, cx_fill = fill, cx_comp = cmp\<rparr> # um_ctxs umem\<rparr>), w))"

subsection \<open>Sockets\<close>

record xsock =
  sk_rx :: "nat option"
  sk_tx :: "nat option"
  sk_ctx :: ctx_key
  sk_config :: xsk_socket_config
  sk_fd :: int

definition xsk_socket__fd :: "xsock option \<Rightarrow> int" where
  "xsk_socket__fd xsk = (case xsk of None \<Rightarrow> - EINVAL | Some s \<Rightarrow> sk_fd s)"

record sk_sys =
  s_calloc :: bool
  s_ifindex :: "int + int"
  s_socket :: "int + int"
  s_netns :: "int + u64"
  s_ctx_alloc :: bool
  s_rings :: rings_sys
  s_rx_opt :: int
  s_tx_opt :: int
  s_off :: int
  s_rx_map :: int
  s_tx_map :: int
  s_rx_mem :: "u64 shm"
  s_tx_mem :: "u64 shm"
  s_bind :: int
  s_prog :: int
  s_put_off :: int

text \<open>The labels at the end of \<open>xsk_socket__create_shared\<close>, from the last one upwards.\<close>

type_synonym sk_result = "int \<times> xsock option \<times> xumem \<times> xworld"

definition out_xsk_alloc :: "int \<Rightarrow> xumem \<Rightarrow> xworld \<Rightarrow> sk_result" where
  "out_xsk_alloc err umem w = (err, None, umem, xalloc (- 1) w)"

definition out_socket :: "int \<Rightarrow> int \<Rightarrow> xumem \<Rightarrow> xworld \<Rightarrow> sk_result" where
  "out_socket err fd umem w =
     (let umem = umem\<lparr>um_refcount := um_refcount umem - 1\<rparr> in
      out_xsk_alloc err umem (if um_refcount umem \<noteq> 0 then close_fd fd w else w))"

definition out_put_ctx :: "sk_sys \<Rightarrow> int \<Rightarrow> nat option \<Rightarrow> xsock \<Rightarrow> xumem \<Rightarrow> xworld \<Rightarrow> sk_result" where
  "out_put_ctx sys err fill xsk umem w =
     (case xsk_put_ctx (s_put_off sys) (um_config umem) (sk_ctx xsk) (um_fill_save umem \<noteq> fill) (um_ctxs umem) w of (cs, w) \<Rightarrow>
        out_socket err (sk_fd xsk) (umem\<lparr>um_ctxs := cs\<rparr>) w)"

text \<open>Unmapping the receive and the transmit ring of a socket.\<close>

definition unmap_rx :: "xdp_mmap_offsets \<Rightarrow> xsock \<Rightarrow> xworld \<Rightarrow> xworld" where
  "unmap_rx off xsk w =
     (case sk_rx xsk of None \<Rightarrow> w
      | Some p \<Rightarrow> unmap_ring p (off_desc (off_rx off)) (ring_bytes (off_rx off) (rx_size (sk_config xsk)) 16) w)"

definition unmap_tx :: "xdp_mmap_offsets \<Rightarrow> xsock \<Rightarrow> xworld \<Rightarrow> xworld" where
  "unmap_tx off xsk w =
     (case sk_tx xsk of None \<Rightarrow> w
      | Some p \<Rightarrow> unmap_ring p (off_desc (off_tx off)) (ring_bytes (off_tx off) (tx_size (sk_config xsk)) 16) w)"

definition out_mmap_rx :: "sk_sys \<Rightarrow> xdp_mmap_offsets \<Rightarrow> int \<Rightarrow> nat option \<Rightarrow> xsock \<Rightarrow> xumem \<Rightarrow> xworld \<Rightarrow> sk_result" where
  "out_mmap_rx sys off err fill xsk umem w = out_put_ctx sys err fill xsk umem (unmap_rx off xsk w)"

definition out_mmap_tx :: "sk_sys \<Rightarrow> xdp_mmap_offsets \<Rightarrow> int \<Rightarrow> nat option \<Rightarrow> xsock \<Rightarrow> xumem \<Rightarrow> xworld \<Rightarrow> sk_result" where
  "out_mmap_tx sys off err fill xsk umem w = out_mmap_rx sys off err fill xsk umem (unmap_tx off xsk w)"

text \<open>
  From the offsets to the end: mapping the two rings, binding, setting up the program. \<open>s_rx_mem\<close> and
  \<open>s_tx_mem\<close> are what the kernel has in the rings.
\<close>

definition sock_bind :: "sk_sys \<Rightarrow> xdp_mmap_offsets \<Rightarrow> nat option \<Rightarrow> xsock \<Rightarrow> xumem \<Rightarrow> xworld \<Rightarrow> sk_result" where
  "sock_bind sys off fill xsk umem w =
     (if s_bind sys \<noteq> 0 then out_mmap_tx sys off (- s_bind sys) fill xsk umem (set_errno (s_bind sys) w)
      else if libbpf_flags (sk_config xsk) AND XSK_LIBBPF_FLAGS__INHIBIT_PROG_LOAD = 0 \<and> s_prog sys \<noteq> 0 then
        out_mmap_tx sys off (s_prog sys) fill xsk umem w
      else (0, Some xsk, umem\<lparr>um_fill_save := None, um_comp_save := None\<rparr>, w))"

definition map_rx :: "sk_sys \<Rightarrow> xdp_mmap_offsets \<Rightarrow> nat option \<Rightarrow> xsk_socket_config \<Rightarrow> xworld \<Rightarrow> xworld" where
  "map_rx sys off rx cfg w =
     (case rx of None \<Rightarrow> w
      | Some p \<Rightarrow> map_ring p (off_rx off) (ring_bytes (off_rx off) (rx_size cfg) 16) (\<lambda>_. rx_ring_setup (rx_size cfg) (s_rx_mem sys)) w)"

definition map_tx :: "sk_sys \<Rightarrow> xdp_mmap_offsets \<Rightarrow> nat option \<Rightarrow> xsk_socket_config \<Rightarrow> xworld \<Rightarrow> xworld" where
  "map_tx sys off tx cfg w =
     (case tx of None \<Rightarrow> w
      | Some p \<Rightarrow> map_ring p (off_tx off) (ring_bytes (off_tx off) (tx_size cfg) 16) (\<lambda>_. tx_ring_setup (tx_size cfg) (s_tx_mem sys)) w)"

definition sock_maps ::
  "sk_sys \<Rightarrow> nat option \<Rightarrow> nat option \<Rightarrow> nat option \<Rightarrow> xsock \<Rightarrow> xumem \<Rightarrow> xworld \<Rightarrow> sk_result" where
  "sock_maps sys rx tx fill xsk umem w =
     (case xsk_get_mmap_offsets (s_off sys) w of
        (Inl err, w) \<Rightarrow> out_put_ctx sys (- xw_errno w) fill xsk umem w
      | (Inr off, w) \<Rightarrow>
          if rx \<noteq> None \<and> s_rx_map sys \<noteq> 0 then
            out_put_ctx sys (- s_rx_map sys) fill xsk umem (set_errno (s_rx_map sys) w)
          else
            let w = map_rx sys off rx (sk_config xsk) w; xsk = xsk\<lparr>sk_rx := rx\<rparr> in
            if tx \<noteq> None \<and> s_tx_map sys \<noteq> 0 then
              out_mmap_rx sys off (- s_tx_map sys) fill xsk umem (set_errno (s_tx_map sys) w)
            else
              let w = map_tx sys off tx (sk_config xsk) w; xsk = xsk\<lparr>sk_tx := tx\<rparr> in
              sock_bind sys off fill xsk umem w)"

text \<open>The ring options, which are set once for the descriptor of the packet memory.\<close>

definition sock_options ::
  "sk_sys \<Rightarrow> bool \<Rightarrow> bool \<Rightarrow> nat option \<Rightarrow> nat option \<Rightarrow> nat option \<Rightarrow> xsock \<Rightarrow> xumem \<Rightarrow> xworld \<Rightarrow> sk_result" where
  "sock_options sys rx_done tx_done rx tx fill xsk umem w =
     (if rx \<noteq> None \<and> \<not> rx_done \<and> s_rx_opt sys \<noteq> 0 then
        out_put_ctx sys (- s_rx_opt sys) fill xsk umem (set_errno (s_rx_opt sys) w)
      else
        let umem = (if rx \<noteq> None \<and> \<not> rx_done \<and> sk_fd xsk = um_fd umem then umem\<lparr>um_rx_done := True\<rparr> else umem) in
        if tx \<noteq> None \<and> \<not> tx_done \<and> s_tx_opt sys \<noteq> 0 then
          out_put_ctx sys (- s_tx_opt sys) fill xsk umem (set_errno (s_tx_opt sys) w)
        else
          let umem = (if tx \<noteq> None \<and> \<not> tx_done \<and> sk_fd xsk = um_fd umem then umem\<lparr>um_tx_done := True\<rparr> else umem) in
          sock_maps sys rx tx fill xsk umem w)"

definition sock_context ::
  "sk_sys \<Rightarrow> bool \<Rightarrow> bool \<Rightarrow> nat option \<Rightarrow> nat option \<Rightarrow> nat option \<Rightarrow> nat option \<Rightarrow> xsock \<Rightarrow> xumem \<Rightarrow> xworld \<Rightarrow> sk_result" where
  "sock_context sys rx_done tx_done rx tx fill cmp xsk umem w =
     (case xsk_get_ctx (sk_ctx xsk) (um_ctxs umem) of
        Some cs \<Rightarrow> sock_options sys rx_done tx_done rx tx fill xsk (umem\<lparr>um_ctxs := cs\<rparr>) w
      | None \<Rightarrow>
          (case (fill, cmp) of
             (Some f, Some c) \<Rightarrow>
               (case xsk_create_ctx (s_ctx_alloc sys) (s_rings sys) (sk_ctx xsk) f c umem w of
                  (None, w) \<Rightarrow> out_socket (- ENOMEM) (sk_fd xsk) umem w
                | (Some umem, w) \<Rightarrow> sock_options sys rx_done tx_done rx tx fill xsk umem w)
           | _ \<Rightarrow> out_socket (- EFAULT) (sk_fd xsk) umem w))"

definition xsk_socket__create_shared ::
  "sk_sys \<Rightarrow> u32 \<Rightarrow> nat option \<Rightarrow> nat option \<Rightarrow> nat option \<Rightarrow> nat option \<Rightarrow> xsk_socket_config option \<Rightarrow> xumem \<Rightarrow> xworld \<Rightarrow> sk_result" where
  "xsk_socket__create_shared sys queue_id rx tx fill cmp usr_config umem w =
     (if rx = None \<and> tx = None then (- EFAULT, None, umem, w)
      else if \<not> s_calloc sys then (- ENOMEM, None, umem, w)
      else
        let w = xalloc 1 w in
        (case xsk_set_xdp_socket_config usr_config of
           Inl err \<Rightarrow> out_xsk_alloc err umem w
         | Inr cfg \<Rightarrow>
             (case s_ifindex sys of
                Inl e \<Rightarrow> out_xsk_alloc (- e) umem (set_errno e w)
              | Inr ifindex \<Rightarrow>
                  let shared = um_refcount umem > 0; umem = umem\<lparr>um_refcount := um_refcount umem + 1\<rparr> in
                  (case (if shared then s_socket sys else Inr (um_fd umem)) of
                     Inl e \<Rightarrow> out_xsk_alloc (- e) umem (set_errno e w)
                   | Inr fd \<Rightarrow>
                       let w = (if shared then open_fd fd w else w);
                           rx_done = (\<not> shared \<and> um_rx_done umem); tx_done = (\<not> shared \<and> um_tx_done umem) in
                       (case (case s_netns sys of Inl e \<Rightarrow> if e = ENOPROTOOPT then Inr INIT_NS else Inl e | Inr c \<Rightarrow> Inr c) of
                          Inl e \<Rightarrow> out_socket (- e) fd umem (set_errno e w)
                        | Inr netns_cookie \<Rightarrow>
                            sock_context sys rx_done tx_done rx tx fill cmp
                              \<lparr>sk_rx = None, sk_tx = None, sk_ctx = (netns_cookie, ifindex, queue_id), sk_config = cfg, sk_fd = fd\<rparr>
                              umem w)))))"

definition xsk_socket__create ::
  "sk_sys \<Rightarrow> u32 \<Rightarrow> nat option \<Rightarrow> nat option \<Rightarrow> xsk_socket_config option \<Rightarrow> xumem option \<Rightarrow> xworld \<Rightarrow> int \<times> xsock option \<times> xumem option \<times> xworld" where
  "xsk_socket__create sys queue_id rx tx usr_config umem w =
     (case umem of
        None \<Rightarrow> (- EFAULT, None, None, w)
      | Some u \<Rightarrow>
          (case xsk_socket__create_shared sys queue_id rx tx (um_fill_save u) (um_comp_save u) usr_config u w of
             (err, xsk, u, w) \<Rightarrow> (err, xsk, Some u, w)))"


subsection \<open>What packet memory and its sockets hold\<close>

lemma world_sel [simp]:
  "xw_maps (set_errno e w) = xw_maps w" "xw_next (set_errno e w) = xw_next w" "xw_fds (set_errno e w) = xw_fds w"
  "xw_heap (set_errno e w) = xw_heap w" "xw_ring (set_errno e w) = xw_ring w" "xw_wild (set_errno e w) = xw_wild w"
  "xw_maps (xalloc n w) = xw_maps w" "xw_next (xalloc n w) = xw_next w" "xw_fds (xalloc n w) = xw_fds w"
  "xw_heap (xalloc n w) = xw_heap w + n" "xw_ring (xalloc n w) = xw_ring w" "xw_wild (xalloc n w) = xw_wild w"
  "xw_maps (open_fd fd w) = xw_maps w" "xw_next (open_fd fd w) = xw_next w" "xw_fds (open_fd fd w) = add_mset fd (xw_fds w)"
  "xw_heap (open_fd fd w) = xw_heap w" "xw_ring (open_fd fd w) = xw_ring w" "xw_wild (open_fd fd w) = xw_wild w"
  "xw_maps (close_fd fd w) = xw_maps w" "xw_next (close_fd fd w) = xw_next w" "xw_fds (close_fd fd w) = xw_fds w - {#fd#}"
  "xw_heap (close_fd fd w) = xw_heap w" "xw_ring (close_fd fd w) = xw_ring w" "xw_wild (close_fd fd w) = xw_wild w"
  "xw_fds (map_ring p off l v w) = xw_fds w" "xw_heap (map_ring p off l v w) = xw_heap w"
  "xw_fds (unmap_ring p d l w) = xw_fds w" "xw_heap (unmap_ring p d l w) = xw_heap w"
  by (simp_all add: set_errno_def xalloc_def open_fd_def close_fd_def map_ring_def unmap_ring_def Let_def)

lemma unmap_umem_rings_sel [simp]:
  "xw_fds (unmap_umem_rings off cfg f c w) = xw_fds w" "xw_heap (unmap_umem_rings off cfg f c w) = xw_heap w"
  by (simp_all add: unmap_umem_rings_def)

lemma world_abi [simp]:
  "xw_off (set_errno e w) = xw_off w" "xw_optlen (set_errno e w) = xw_optlen w" "xw_len (set_errno e w) = xw_len w"
  "xw_off (xalloc n w) = xw_off w" "xw_optlen (xalloc n w) = xw_optlen w" "xw_len (xalloc n w) = xw_len w"
  "xw_off (open_fd fd w) = xw_off w" "xw_optlen (open_fd fd w) = xw_optlen w" "xw_len (open_fd fd w) = xw_len w"
  "xw_off (close_fd fd w) = xw_off w" "xw_optlen (close_fd fd w) = xw_optlen w" "xw_len (close_fd fd w) = xw_len w"
  "xw_off (map_ring p off l v w) = xw_off w" "xw_optlen (map_ring p off l v w) = xw_optlen w"
  "xw_off (unmap_ring p d l w) = xw_off w" "xw_optlen (unmap_ring p d l w) = xw_optlen w"
  by (simp_all add: set_errno_def xalloc_def open_fd_def close_fd_def map_ring_def unmap_ring_def Let_def)

text \<open>
  The offsets of a kernel, old or new. A ring has a pointer and a shape: the offset of its slots and the
  length of its mapping.
\<close>

definition abi :: "xworld \<Rightarrow> bool" where
  "abi w \<longleftrightarrow> xw_optlen w = 128 \<or> xw_optlen w = 96"

definition koff :: "xworld \<Rightarrow> xdp_mmap_offsets" where
  "koff w = (if xw_optlen w = 128 then xw_off w else xsk_mmap_offsets_v1 (xw_off w))"

type_synonym shaped = "nat \<times> u64 \<times> u64"

definition ring_shape_of :: "xdp_ring_offset \<Rightarrow> u32 \<Rightarrow> u64 \<Rightarrow> u64 \<times> u64" where
  "ring_shape_of off n sz = (off_desc off, ring_bytes off n sz)"

definition ring_at :: "xworld \<Rightarrow> shaped \<Rightarrow> nat" where
  "ring_at w = (\<lambda>x. rh_map (xw_ring w (fst x)))"

text \<open>The mappings are those of \<open>w0\<close> and one for each ring of the set \<open>A\<close>.\<close>

definition maps_ok :: "xworld \<Rightarrow> shaped set \<Rightarrow> xworld \<Rightarrow> bool" where
  "maps_ok w0 A w \<longleftrightarrow>
     xw_maps w = xw_maps w0 \<union> ring_at w ` A \<and> inj_on (ring_at w) A \<and> ring_at w ` A \<inter> xw_maps w0 = {} \<and>
     (\<forall>m \<in> xw_maps w. m < xw_next w) \<and> \<not> xw_wild w \<and>
     (\<forall>x \<in> A. rh_ring (xw_ring w (fst x)) = fst (snd x) \<and> xw_len w (ring_at w x) = snd (snd x)) \<and>
     abi w \<and> xw_off w = xw_off w0 \<and> xw_optlen w = xw_optlen w0"

lemma maps_ok_sel [simp]:
  "maps_ok w0 A (set_errno e w) = maps_ok w0 A w" "maps_ok w0 A (xalloc n w) = maps_ok w0 A w"
  "maps_ok w0 A (open_fd fd w) = maps_ok w0 A w" "maps_ok w0 A (close_fd fd w) = maps_ok w0 A w"
  by (simp_all add: maps_ok_def ring_at_def abi_def)




definition opt_list :: "'a option \<Rightarrow> 'a list" where
  "opt_list x = (case x of None \<Rightarrow> [] | Some y \<Rightarrow> [y])"

definition ctx_ptrs :: "xctx \<Rightarrow> nat list" where
  "ctx_ptrs c = [cx_fill c, cx_comp c]"

definition saved :: "xumem \<Rightarrow> nat list" where
  "saved u = opt_list (um_fill_save u) @ opt_list (um_comp_save u)"

text \<open>The rings with their shapes, under the offsets \<open>k\<close>.\<close>

definition fc_rings :: "xdp_mmap_offsets \<Rightarrow> xsk_umem_config \<Rightarrow> nat list \<Rightarrow> shaped list" where
  "fc_rings k cfg ps = zip ps [ring_shape_of (off_fr k) (fill_size cfg) 8, ring_shape_of (off_cr k) (comp_size cfg) 8]"

definition sock_rings :: "xdp_mmap_offsets \<Rightarrow> xsock \<Rightarrow> shaped list" where
  "sock_rings k s =
     map (\<lambda>p. (p, ring_shape_of (off_rx k) (rx_size (sk_config s)) 16)) (opt_list (sk_rx s)) @
     map (\<lambda>p. (p, ring_shape_of (off_tx k) (tx_size (sk_config s)) 16)) (opt_list (sk_tx s))"

definition umem_rings :: "xdp_mmap_offsets \<Rightarrow> xumem \<Rightarrow> shaped list" where
  "umem_rings k u =
     (if um_ctxs u = [] then fc_rings k (um_config u) (saved u)
      else concat (map (\<lambda>c. fc_rings k (um_config u) (ctx_ptrs c)) (um_ctxs u)))"

definition all_rings :: "xdp_mmap_offsets \<Rightarrow> xumem \<Rightarrow> xsock list \<Rightarrow> shaped list" where
  "all_rings k u S = umem_rings k u @ concat (map (sock_rings k) S)"

definition users :: "xsock list \<Rightarrow> ctx_key \<Rightarrow> nat" where
  "users S key = length (filter (\<lambda>s. sk_ctx s = key) S)"

definition refs_ok :: "xumem \<Rightarrow> xsock list \<Rightarrow> bool" where
  "refs_ok u S \<longleftrightarrow>
     um_refcount u = int (length S) \<and> distinct (map ctx_key (um_ctxs u)) \<and>
     (\<forall>c \<in> set (um_ctxs u). cx_refcount c = int (users S (ctx_key c)) \<and> 0 < cx_refcount c) \<and>
     sk_ctx ` set S \<subseteq> ctx_key ` set (um_ctxs u)"

definition held_ok :: "xworld \<Rightarrow> xumem \<Rightarrow> xsock list \<Rightarrow> xworld \<Rightarrow> bool" where
  "held_ok w0 u S w \<longleftrightarrow>
     xw_fds w = xw_fds w0 + {#um_fd u#} + mset (filter (\<lambda>fd. fd \<noteq> um_fd u) (map sk_fd S)) \<and>
     xw_heap w = xw_heap w0 + 1 + int (length (um_ctxs u)) + int (length S)"

text \<open>The rings saved in the packet memory belong to no context, or to one whose first socket is being created.\<close>

definition saved_ok :: "xumem \<Rightarrow> xsock list \<Rightarrow> bool" where
  "saved_ok u S \<longleftrightarrow>
     (um_fill_save u = None \<longleftrightarrow> um_comp_save u = None) \<and>
     (saved u \<noteq> [] \<and> um_ctxs u \<noteq> [] \<longrightarrow> (\<exists>c. um_ctxs u = [c] \<and> length S = 1 \<and> ctx_ptrs c = saved u))"

definition umem_inv :: "xworld \<Rightarrow> xumem \<Rightarrow> xsock list \<Rightarrow> xworld \<Rightarrow> bool" where
  "umem_inv w0 u S w \<longleftrightarrow>
     saved_ok u S \<and> refs_ok u S \<and> held_ok w0 u S w \<and> distinct (map fst (all_rings (koff w0) u S)) \<and>
     maps_ok w0 (set (all_rings (koff w0) u S)) w"

lemma fc_rings_Nil [simp]: "fc_rings k cfg [] = []"
  by (simp add: fc_rings_def)





lemma ctx_key_ref [simp]: "ctx_key (c\<lparr>cx_refcount := n\<rparr>) = ctx_key c" "ctx_ptrs (c\<lparr>cx_refcount := n\<rparr>) = ctx_ptrs c"
  by (simp_all add: ctx_key_def ctx_ptrs_def)









lemma umem_inv_sel [simp]:
  "umem_inv w0 u S (set_errno e w) = umem_inv w0 u S w"
  "umem_inv w0 (u\<lparr>um_rx_done := b\<rparr>) S w = umem_inv w0 u S w"
  "umem_inv w0 (u\<lparr>um_tx_done := b\<rparr>) S w = umem_inv w0 u S w"
  "saved (u\<lparr>um_rx_done := b\<rparr>) = saved u" "saved (u\<lparr>um_tx_done := b\<rparr>) = saved u"
  "saved (u\<lparr>um_ctxs := cs\<rparr>) = saved u" "saved (u\<lparr>um_refcount := n\<rparr>) = saved u"
  by (simp_all add: umem_inv_def saved_ok_def refs_ok_def held_ok_def all_rings_def umem_rings_def saved_def)

text \<open>
  A socket being created: it has its context, and \<open>fill\<close> is the argument of the call. The rings saved in
  the packet memory are those of the arguments.
\<close>

definition pending :: "xworld \<Rightarrow> nat option \<Rightarrow> xumem \<Rightarrow> xsock \<Rightarrow> xsock list \<Rightarrow> xworld \<Rightarrow> bool" where
  "pending w0 fill u s S w \<longleftrightarrow>
     umem_inv w0 u (s # S) w \<and> (sk_fd s = um_fd u \<longleftrightarrow> S = []) \<and>
     (if saved u = [] then fill \<noteq> None \<or> users S (sk_ctx s) > 0 else fill = um_fill_save u)"

lemma pending_sel [simp]:
  "pending w0 fill (u\<lparr>um_rx_done := b\<rparr>) s S w = pending w0 fill u s S w"
  "pending w0 fill (u\<lparr>um_tx_done := b\<rparr>) s S w = pending w0 fill u s S w"
  "pending w0 fill u s S (set_errno e w) = pending w0 fill u s S w"
  by (simp_all add: pending_def)















lemma unmap_rx_upd [simp]: "unmap_rx off (s\<lparr>sk_tx := a\<rparr>) w = unmap_rx off s w"
  by (cases "sk_rx s") (simp_all add: unmap_rx_def)

lemma out_put_ctx_upd [simp]:
  "out_put_ctx sys err fill (s\<lparr>sk_rx := a\<rparr>) u w = out_put_ctx sys err fill s u w"
  "out_mmap_rx sys off err fill (s\<lparr>sk_tx := a\<rparr>) u w = out_mmap_rx sys off err fill s u w"
  by (simp_all add: out_put_ctx_def out_mmap_rx_def)





lemma all_rings_upd [simp]:
  "all_rings k (u\<lparr>um_rx_done := b\<rparr>) S = all_rings k u S" "all_rings k (u\<lparr>um_tx_done := b\<rparr>) S = all_rings k u S"
  by (simp_all add: all_rings_def umem_rings_def saved_def)























subsection \<open>The life of packet memory\<close>




















subsection \<open>The rings are ready\<close>






subsection \<open>Where it fails\<close>

text \<open>If the completion ring cannot be mapped, the fill ring stays mapped: the address of the failed mapping is unmapped instead.\<close>

lemma umem_create_leaks:
  assumes "abi w" "u_args sys" "sz \<noteq> 0" "u_calloc sys" "u_socket sys = Inr fd" "u_reg sys = 0"
    "u_rings sys = \<lparr>r_fill_opt = 0, r_comp_opt = 0, r_off = 0, r_fill_map = 0, r_comp_map = e\<rparr>" "e \<noteq> 0"
    "xsk_umem__create sys sz fill cmp cfg w = (err, umem, w')"
  shows "err = - e" "umem = None" "xw_maps w' = insert (xw_next w) (xw_maps w)"
  using assms by (auto simp: xsk_umem__create_def xsk_umem__create_with_fd_def xsk_create_umem_rings_def xsk_get_mmap_offsets_def
      abi_def map_ring_def set_errno_def Let_def xalloc_def close_fd_def open_fd_def)

text \<open>Only an empty area is checked for its alignment.\<close>

lemma umem_create_alignment:
  "sz \<noteq> 0 \<Longrightarrow> xsk_umem__create (sys\<lparr>u_area := a\<rparr>) sz fill cmp cfg w = xsk_umem__create sys sz fill cmp cfg w"
  by (cases "u_socket sys") (simp_all add: xsk_umem__create_def xsk_umem__create_with_fd_def Let_def)

text \<open>
  An answer of another length sets no \<open>errno\<close>, but the caller returns \<open>-errno\<close>: after no other error this says that
  the rings exist.
\<close>

lemma create_rings_unknown_kernel:
  assumes "\<not> abi w" "xw_errno w = 0" "r_fill_opt sys = 0" "r_comp_opt sys = 0" "r_off sys = 0"
  shows "xsk_create_umem_rings sys cfg fill cmp w = (0, w)"
  using assms by (simp add: xsk_create_umem_rings_def xsk_get_mmap_offsets_def abi_def)

text \<open>If the second socket gets no descriptor, the packet memory keeps the reference of the socket that failed.\<close>

lemma create_shared_keeps_reference:
  assumes "um_refcount u > 0" "s_socket sys = Inl e" "s_calloc sys" "s_ifindex sys = Inr i"
  shows "xsk_socket__create_shared sys q (Some rx) tx fill cmp None u w =
    (- e, None, u\<lparr>um_refcount := um_refcount u + 1\<rparr>, xalloc (- 1) (set_errno e (xalloc 1 w)))"
  using assms by (simp add: xsk_socket__create_shared_def xsk_set_xdp_socket_config_def out_xsk_alloc_def Let_def)

text \<open>
  If the first socket has rings of its own, the saved ones are copied to them. When a later step fails the copies are
  unmapped and the saved ones kept, so that they point to a mapping that is gone; deleting the packet memory unmaps it again.
\<close>

lemma unmap_ring_maps: "xw_maps (unmap_ring p d l w) \<subseteq> xw_maps w" "xw_ring (unmap_ring p d l w) = xw_ring w"
  by (auto simp: unmap_ring_def Let_def)

lemma copied_rings_unmapped:
  assumes "um_ctxs u = [c]" "ctx_key c = sk_ctx s" "cx_refcount c = 1" "um_fill_save u = Some f" "cx_fill c \<noteq> f"
    and "xw_ring w (cx_fill c) = xw_ring w f" "abi w" "rh_ring (xw_ring w f) = off_desc (off_fr (koff w))"
    and "xw_len w (rh_map (xw_ring w f)) = ring_bytes (off_fr (koff w)) (fill_size (um_config u)) 8"
    and "s_put_off sys = 0" "out_put_ctx sys e (Some (cx_fill c)) s u w = (err, x, u', w')"
  shows "um_fill_save u' = Some f \<and> xw_ring w' f = xw_ring w f \<and> rh_map (xw_ring w' f) \<notin> xw_maps w'"
proof -
  have off: "xsk_get_mmap_offsets 0 w = (Inr (koff w), w)" using assms(7) by (auto simp: xsk_get_mmap_offsets_def abi_def koff_def)
  define w1 where "w1 = unmap_ring (cx_fill c) (off_desc (off_fr (koff w))) (ring_bytes (off_fr (koff w)) (fill_size (um_config u)) 8) w"
  define w2 where "w2 = unmap_ring (cx_comp c) (off_desc (off_cr (koff w))) (ring_bytes (off_cr (koff w)) (comp_size (um_config u)) 8) w1"
  have "rh_map (xw_ring w f) \<notin> xw_maps w1" using assms(6,8,9) by (auto simp: w1_def unmap_ring_def Let_def)
  then have "rh_map (xw_ring w f) \<notin> xw_maps w2" "xw_ring w2 = xw_ring w"
    using unmap_ring_maps(1) [of "cx_comp c" _ _ w1] by (auto simp: w2_def w1_def unmap_ring_maps(2))
  moreover have "um_fill_save u' = Some f" "xw_maps w' = xw_maps w2" "xw_ring w' = xw_ring w2"
    using assms by (cases "um_refcount u = 1"; auto simp: out_put_ctx_def out_socket_def out_xsk_alloc_def Let_def off unmap_umem_rings_def w1_def w2_def)+
  ultimately show ?thesis by simp
qed

end
