(* ===== verification/Libbpf_Nlattr.thy ===== *)
theory Libbpf_Nlattr
  imports C_Runtime
begin

unbundle bit_operations_syntax

section \<open>Netlink attributes\<close>

text \<open>
  \<open>lib/libbpf/src/nlattr.c\<close> and \<open>nlattr.h\<close>: reading and writing the type-length-value attributes of netlink
  messages. A message is a list of bytes, a pointer into it an offset, and reading outside of it a fault
  (\<open>None\<close>). Shown are that the parser stays inside the stream it is given and what its index
  holds, and that it reads back what \<open>nlattr_add\<close> has written, nested attributes included.
\<close>

abbreviation (input) EMSGSIZE :: int where "EMSGSIZE \<equiv> 90"
abbreviation (input) LIBBPF_NLA_UNSPEC :: u16 where "LIBBPF_NLA_UNSPEC \<equiv> 0"
abbreviation (input) LIBBPF_NLA_STRING :: u16 where "LIBBPF_NLA_STRING \<equiv> 5"
abbreviation (input) LIBBPF_NLA_TYPE_MAX :: u16 where "LIBBPF_NLA_TYPE_MAX \<equiv> 8"
abbreviation (input) NLA_F_NESTED :: u16 where "NLA_F_NESTED \<equiv> 0x8000"

definition NLA_TYPE_MASK :: u16 where "NLA_TYPE_MASK = 0x3fff"

definition NLA_ALIGN :: "int \<Rightarrow> int" where
  "NLA_ALIGN len = (len + 3) AND NOT 3"

subsection \<open>Reading\<close>

definition nla_next :: "u8 list \<Rightarrow> nat \<Rightarrow> int \<Rightarrow> (nat \<times> int) option" where
  "nla_next b nla remaining = do {
     len \<leftarrow> (rd 2 b nla :: u16 option);
     let totlen = NLA_ALIGN (uint len);
     Some (nla + nat totlen, remaining - totlen)
   }"

definition nla_ok :: "u8 list \<Rightarrow> nat \<Rightarrow> int \<Rightarrow> bool option" where
  "nla_ok b nla remaining =
     (if remaining \<ge> 4 then do {
        len \<leftarrow> (rd 2 b nla :: u16 option);
        Some (uint len \<ge> 4 \<and> uint len \<le> remaining)
      } else Some False)"

definition nla_type :: "u8 list \<Rightarrow> nat \<Rightarrow> nat option" where
  "nla_type b nla = do { t \<leftarrow> (rd 2 b (nla + 2) :: u16 option); Some (unat (t AND NLA_TYPE_MASK)) }"

definition libbpf_nla_data :: "nat \<Rightarrow> nat" where
  "libbpf_nla_data nla = nla + 4"

definition libbpf_nla_len :: "u8 list \<Rightarrow> nat \<Rightarrow> int option" where
  "libbpf_nla_len b nla = do { len \<leftarrow> (rd 2 b nla :: u16 option); Some (uint len - 4) }"

definition libbpf_nla_getattr_u8 :: "u8 list \<Rightarrow> nat \<Rightarrow> u8 option" where
  "libbpf_nla_getattr_u8 b nla = rd 1 b (libbpf_nla_data nla)"

definition libbpf_nla_getattr_u16 :: "u8 list \<Rightarrow> nat \<Rightarrow> u16 option" where
  "libbpf_nla_getattr_u16 b nla = rd 2 b (libbpf_nla_data nla)"

definition libbpf_nla_getattr_u32 :: "u8 list \<Rightarrow> nat \<Rightarrow> u32 option" where
  "libbpf_nla_getattr_u32 b nla = rd 4 b (libbpf_nla_data nla)"

definition libbpf_nla_getattr_u64 :: "u8 list \<Rightarrow> nat \<Rightarrow> u64 option" where
  "libbpf_nla_getattr_u64 b nla = rd 8 b (libbpf_nla_data nla)"

record libbpf_nla_policy =
  pt_type :: u16
  pt_minlen :: u16
  pt_maxlen :: u16

definition nla_attr_minlen :: "nat list" where
  "nla_attr_minlen = [0, 1, 2, 4, 8, 1, 0, 0, 0]"

text \<open>The least length a policy asks for.\<close>

definition policy_minlen :: "libbpf_nla_policy \<Rightarrow> nat" where
  "policy_minlen pt =
     (if pt_minlen pt \<noteq> 0 then unat (pt_minlen pt)
      else if pt_type pt \<noteq> LIBBPF_NLA_UNSPEC then nla_attr_minlen ! unat (pt_type pt) else 0)"

text \<open>The comparison with the least length is one of unsigned numbers.\<close>

definition validate_nla :: "u8 list \<Rightarrow> nat \<Rightarrow> nat \<Rightarrow> libbpf_nla_policy list \<Rightarrow> int option" where
  "validate_nla b nla maxtype policy = do {
     type \<leftarrow> nla_type b nla;
     if type > maxtype then Some 0
     else if type \<ge> length policy then None
     else
       let pt = policy ! type in
       if pt_type pt > LIBBPF_NLA_TYPE_MAX then Some 0
       else do {
         len \<leftarrow> libbpf_nla_len b nla;
         if (of_int len :: u32) < of_nat (policy_minlen pt) then Some (- 1)
         else if pt_maxlen pt \<noteq> 0 \<and> len > uint (pt_maxlen pt) then Some (- 1)
         else if pt_type pt = LIBBPF_NLA_STRING then do {
           c \<leftarrow> (rd 1 b (nat (int (libbpf_nla_data nla) + len - 1)) :: u8 option);
           Some (if c \<noteq> 0 then - 1 else 0)
         }
         else Some 0
       }
   }"

lemma NLA_ALIGN_div: "NLA_ALIGN len = 4 * ((len + 3) div 4)"
proof -
  have "(len + 3) AND NOT (mask 2) = push_bit 2 (drop_bit 2 (len + 3))"
  proof (rule bit_eqI)
    show "bit ((len + 3) AND NOT (mask 2)) n \<longleftrightarrow> bit (push_bit 2 (drop_bit 2 (len + 3))) n" for n
      by (cases "2 \<le> n") (auto simp: bit_simps dest!: le_Suc_ex)
  qed
  then show ?thesis by (simp add: NLA_ALIGN_def mask_eq_exp_minus_1 push_bit_eq_mult drop_bit_eq_div)
qed

lemma NLA_ALIGN_bounds: "len \<le> NLA_ALIGN len" "NLA_ALIGN len < len + 4"
  unfolding NLA_ALIGN_div by presburger+

lemma NLA_ALIGN_mod: "NLA_ALIGN len mod 4 = 0"
  by (simp add: NLA_ALIGN_div)

lemma nla_next_less:
  assumes "nla_ok b nla rem = Some True" "nla_next b nla rem = Some (next, rem')"
  shows "0 < rem" "rem' < rem"
proof -
  obtain len :: u16 where l: "rd 2 b nla = Some len" "uint len \<ge> 4" "rem \<ge> 4"
    using assms(1) by (auto simp: nla_ok_def bind_eq_Some_conv split: if_split_asm)
  show "0 < rem" using l(3) by simp
  have "rem' = rem - NLA_ALIGN (uint len)" using assms(2) l(1) by (simp add: nla_next_def Let_def)
  then show "rem' < rem" using NLA_ALIGN_bounds(1) [of "uint len"] l(2) by simp
qed

text \<open>
  The loop of \<open>libbpf_nla_parse\<close>. The index \<open>tb\<close> has \<open>maxtype\<close> + 1 entries; an access beyond them is a fault.
\<close>

function parse_attrs ::
  "u8 list \<Rightarrow> nat \<Rightarrow> libbpf_nla_policy list option \<Rightarrow> nat option list \<Rightarrow> nat \<Rightarrow> int \<Rightarrow> (int \<times> nat option list) option" where
  "parse_attrs b maxtype policy tb nla rem =
     (case nla_ok b nla rem of
        None \<Rightarrow> None
      | Some False \<Rightarrow> Some (0, tb)
      | Some True \<Rightarrow>
          (case (nla_type b nla, nla_next b nla rem) of
             (Some type, Some (next, rem')) \<Rightarrow>
               if type > maxtype then parse_attrs b maxtype policy tb next rem'
               else
                 (case (case policy of None \<Rightarrow> Some 0 | Some ps \<Rightarrow> validate_nla b nla maxtype ps) of
                    None \<Rightarrow> None
                  | Some err \<Rightarrow>
                      if err < 0 then Some (err, tb)
                      else if type \<ge> length tb then None
                      else parse_attrs b maxtype policy (tb[type := Some nla]) next rem')
           | _ \<Rightarrow> None))"
  by pat_completeness auto
termination
  by (relation "measure (\<lambda>(b, maxtype, policy, tb, nla, rem). nat rem)")
    (auto dest: nla_next_less(1) [OF _ sym] nla_next_less(2) [OF _ sym])

declare parse_attrs.simps [simp del]

lemma parse_attrs_stop: "nla_ok b nla rem = Some False \<Longrightarrow> parse_attrs b maxtype policy tb nla rem = Some (0, tb)"
  by (simp add: parse_attrs.simps)

lemma parse_attrs_step:
  assumes "nla_ok b nla rem = Some True" "nla_type b nla = Some type" "nla_next b nla rem = Some (nla', rem')"
  shows "parse_attrs b maxtype policy tb nla rem =
    (if type > maxtype then parse_attrs b maxtype policy tb nla' rem'
     else
       (case (case policy of None \<Rightarrow> Some 0 | Some ps \<Rightarrow> validate_nla b nla maxtype ps) of
          None \<Rightarrow> None
        | Some err \<Rightarrow>
            if err < 0 then Some (err, tb)
            else if type \<ge> length tb then None
            else parse_attrs b maxtype policy (tb[type := Some nla]) nla' rem'))"
  by (subst parse_attrs.simps) (simp add: assms)

definition libbpf_nla_parse ::
  "u8 list \<Rightarrow> nat \<Rightarrow> nat \<Rightarrow> int \<Rightarrow> libbpf_nla_policy list option \<Rightarrow> (int \<times> nat option list) option" where
  "libbpf_nla_parse b maxtype head len policy = parse_attrs b maxtype policy (replicate (maxtype + 1) None) head len"

definition libbpf_nla_parse_nested ::
  "u8 list \<Rightarrow> nat \<Rightarrow> nat \<Rightarrow> libbpf_nla_policy list option \<Rightarrow> (int \<times> nat option list) option" where
  "libbpf_nla_parse_nested b maxtype nla policy = do {
     len \<leftarrow> libbpf_nla_len b nla;
     libbpf_nla_parse b maxtype (libbpf_nla_data nla) len policy
   }"

subsection \<open>The parser stays in its stream\<close>

text \<open>An attribute that lies between two offsets, and one that obeys a policy.\<close>

definition attr_len :: "u8 list \<Rightarrow> nat \<Rightarrow> nat" where
  "attr_len b p = unat (le_dec (seg p 2 b) :: u16)"

definition attr_in :: "u8 list \<Rightarrow> nat \<Rightarrow> nat \<Rightarrow> nat \<Rightarrow> bool" where
  "attr_in b lo hi p \<longleftrightarrow> lo \<le> p \<and> 4 \<le> attr_len b p \<and> p + attr_len b p \<le> hi"

definition obeys :: "u8 list \<Rightarrow> nat \<Rightarrow> libbpf_nla_policy \<Rightarrow> bool" where
  "obeys b p pt \<longleftrightarrow> pt_type pt > LIBBPF_NLA_TYPE_MAX \<or>
     policy_minlen pt \<le> attr_len b p - 4 \<and> (pt_maxlen pt = 0 \<or> attr_len b p - 4 \<le> unat (pt_maxlen pt)) \<and>
     (pt_type pt = LIBBPF_NLA_STRING \<longrightarrow> 1 \<le> attr_len b p - 4 \<and> b ! (p + attr_len b p - 1) = 0)"

lemma attr_len_uint: "uint (le_dec (seg p 2 b) :: u16) = int (attr_len b p)"
  by (simp only: attr_len_def uint_nat)

lemma policy_minlen_bound: "pt_type pt \<le> LIBBPF_NLA_TYPE_MAX \<Longrightarrow> policy_minlen pt < 2 ^ 16"
proof -
  assume "pt_type pt \<le> LIBBPF_NLA_TYPE_MAX"
  then have "unat (pt_type pt) < length nla_attr_minlen" by (simp add: nla_attr_minlen_def word_le_nat_alt)
  moreover have "\<forall>x \<in> set nla_attr_minlen. x < 2 ^ 16" by (simp add: nla_attr_minlen_def)
  ultimately have "nla_attr_minlen ! unat (pt_type pt) < 2 ^ 16" by (metis nth_mem)
  then show ?thesis using unsigned_less [of "pt_minlen pt", where ?'a = nat] by (simp add: policy_minlen_def)
qed

lemma policy_minlen_string: "pt_type pt = LIBBPF_NLA_STRING \<Longrightarrow> 1 \<le> policy_minlen pt"
  by (simp add: policy_minlen_def nla_attr_minlen_def unat_gt_0 Suc_le_eq)

lemma validate_nla_sound:
  assumes "attr_in b lo hi p" "hi \<le> length b" "nla_type b p = Some t" "t \<le> maxtype" "maxtype < length ps"
  shows "\<exists>err. validate_nla b p maxtype ps = Some err \<and> err \<in> {0, - 1} \<and> (err = 0 \<longrightarrow> obeys b p (ps ! t))"
proof (cases "pt_type (ps ! t) > LIBBPF_NLA_TYPE_MAX")
  case True
  then show ?thesis using assms(3-5) by (simp add: validate_nla_def obeys_def)
next
  case False
  let ?pt = "ps ! t"
  define n where "n = attr_len b p - 4"
  have a: "attr_len b p = n + 4" "p + (n + 4) \<le> length b" using assms(1,2) by (auto simp: attr_in_def n_def)
  have l: "libbpf_nla_len b p = Some (int n)" using a by (simp add: libbpf_nla_len_def attr_len_uint)
  have b16: "n < 2 ^ 16" using unsigned_less [of "le_dec (seg p 2 b) :: u16", where ?'a = nat] by (simp add: n_def attr_len_def)
  have m: "policy_minlen ?pt < 2 ^ 16" using policy_minlen_bound False by simp
  have cmp: "(of_nat n :: u32) < of_nat (policy_minlen ?pt) \<longleftrightarrow> n < policy_minlen ?pt"
    using b16 m by (simp add: word_less_nat_alt unsigned_of_nat take_bit_nat_eq_self)
  have mx: "uint (pt_maxlen ?pt) < int n \<longleftrightarrow> unat (pt_maxlen ?pt) < n" by (metis of_nat_less_iff uint_nat)
  have c: "rd 1 b (nat (int (libbpf_nla_data p) + int n - 1)) = Some (b ! (p + n + 3))" if "1 \<le> n"
  proof -
    have "nat (int (libbpf_nla_data p) + int n - 1) = p + n + 3" using that by (simp add: libbpf_nla_data_def)
    then show ?thesis using that a by (simp add: rd_def)
  qed
  have st: "1 \<le> n" if "pt_type ?pt = LIBBPF_NLA_STRING" "\<not> n < policy_minlen ?pt"
    using that policy_minlen_string [of ?pt] by simp
  have eq: "validate_nla b p maxtype ps =
      (if n < policy_minlen ?pt then Some (- 1)
       else if pt_maxlen ?pt \<noteq> 0 \<and> n > unat (pt_maxlen ?pt) then Some (- 1)
       else if pt_type ?pt = LIBBPF_NLA_STRING then Some (if b ! (p + n + 3) \<noteq> 0 then - 1 else 0) else Some 0)"
    using assms(3-5) False st c by (auto simp: validate_nla_def l cmp mx Let_def)
  have ob: "obeys b p ?pt \<longleftrightarrow> policy_minlen ?pt \<le> n \<and> (pt_maxlen ?pt = 0 \<or> n \<le> unat (pt_maxlen ?pt)) \<and>
      (pt_type ?pt = LIBBPF_NLA_STRING \<longrightarrow> 1 \<le> n \<and> b ! (p + n + 3) = 0)"
    using False by (simp add: obeys_def a(1) ac_simps)
  have "validate_nla b p maxtype ps = Some (if obeys b p ?pt then 0 else - 1)"
    unfolding eq ob using st
    by (cases "n < policy_minlen ?pt"; cases "pt_type ?pt = LIBBPF_NLA_STRING"; cases "pt_maxlen ?pt = 0") simp_all
  then show ?thesis by simp
qed

lemma nla_ok_iff:
  assumes "0 \<le> rem \<Longrightarrow> nla + nat rem \<le> length b"
  shows "nla_ok b nla rem = Some (4 \<le> rem \<and> attr_in b nla (nla + nat rem) nla)"
proof (cases "4 \<le> rem")
  case True
  then have "nla + 2 \<le> length b" using assms by simp
  then show ?thesis using True by (auto simp: nla_ok_def attr_len_uint attr_in_def)
qed (simp add: nla_ok_def)

lemma attr_in_next:
  assumes "attr_in b nla (nla + nat rem) nla" "nla + nat rem \<le> length b"
  shows "nla_next b nla rem = Some (nla + nat (NLA_ALIGN (int (attr_len b nla))), rem - NLA_ALIGN (int (attr_len b nla)))"
    "\<exists>t. nla_type b nla = Some t"
proof -
  have "nla + 4 \<le> length b" using assms by (simp add: attr_in_def)
  then show "nla_next b nla rem = Some (nla + nat (NLA_ALIGN (int (attr_len b nla))), rem - NLA_ALIGN (int (attr_len b nla)))"
      "\<exists>t. nla_type b nla = Some t"
    by (simp_all add: nla_next_def attr_len_uint nla_type_def Let_def)
qed

text \<open>What the index of a parse holds.\<close>

definition index_ok :: "u8 list \<Rightarrow> nat \<Rightarrow> libbpf_nla_policy list option \<Rightarrow> nat \<Rightarrow> nat \<Rightarrow> nat option list \<Rightarrow> bool" where
  "index_ok b maxtype policy lo hi tb \<longleftrightarrow> length tb = maxtype + 1 \<and>
     (\<forall>t p. t \<le> maxtype \<longrightarrow> tb ! t = Some p \<longrightarrow>
        attr_in b lo hi p \<and> nla_type b p = Some t \<and> (case policy of None \<Rightarrow> True | Some ps \<Rightarrow> obeys b p (ps ! t)))"

lemma index_ok_update:
  assumes "index_ok b maxtype policy lo hi tb" "attr_in b lo hi p" "nla_type b p = Some t" "t \<le> maxtype"
    "\<And>ps. policy = Some ps \<Longrightarrow> obeys b p (ps ! t)"
  shows "index_ok b maxtype policy lo hi (tb[t := Some p])"
  unfolding index_ok_def
proof (intro conjI allI impI)
  show "length (tb[t := Some p]) = maxtype + 1" using assms(1) by (simp add: index_ok_def)
  fix t' q
  assume "t' \<le> maxtype" "tb[t := Some p] ! t' = Some q"
  moreover have "t < length tb" using assms(1,4) by (simp add: index_ok_def)
  ultimately consider "t' = t" "q = p" | "tb ! t' = Some q" by (cases "t' = t") simp_all
  then have "attr_in b lo hi q \<and> nla_type b q = Some t' \<and> (case policy of None \<Rightarrow> True | Some ps \<Rightarrow> obeys b q (ps ! t'))"
  proof cases
    case 1
    then show ?thesis using assms(2,3,5) by (simp split: option.split)
  next
    case 2
    then show ?thesis using assms(1) \<open>t' \<le> maxtype\<close> unfolding index_ok_def by blast
  qed
  then show "attr_in b lo hi q" "nla_type b q = Some t'" "case policy of None \<Rightarrow> True | Some ps \<Rightarrow> obeys b q (ps ! t')" by blast+
qed

lemma parse_attrs_safe:
  assumes "0 \<le> rem \<Longrightarrow> nla + nat rem \<le> hi" "hi \<le> length b" "lo \<le> nla"
    "\<And>ps. policy = Some ps \<Longrightarrow> maxtype < length ps" "index_ok b maxtype policy lo hi tb"
  shows "\<exists>r tb'. parse_attrs b maxtype policy tb nla rem = Some (r, tb') \<and> r \<in> {0, - 1} \<and> index_ok b maxtype policy lo hi tb'"
  using assms
proof (induction "nat rem" arbitrary: tb nla rem rule: less_induct)
  case less
  have ok: "nla_ok b nla rem = Some (4 \<le> rem \<and> attr_in b nla (nla + nat rem) nla)"
    using less.prems(1,2) by (intro nla_ok_iff) simp
  show ?case
  proof (cases "4 \<le> rem \<and> attr_in b nla (nla + nat rem) nla")
    case False
    then have "nla_ok b nla rem = Some False" by (simp add: ok)
    then show ?thesis using less.prems(5) by (simp add: parse_attrs_stop)
  next
    case True
    then have yes: "nla_ok b nla rem = Some True" by (simp add: ok)
    have fits: "nla + nat rem \<le> hi" "nla + nat rem \<le> length b" using True less.prems(1,2) by simp_all
    define l where "l = NLA_ALIGN (int (attr_len b nla))"
    obtain t where n: "nla_next b nla rem = Some (nla + nat l, rem - l)" and t: "nla_type b nla = Some t"
      using attr_in_next [of b nla rem] True fits unfolding l_def by blast
    have l: "4 \<le> l" using NLA_ALIGN_bounds(1) [of "int (attr_len b nla)"] True unfolding l_def attr_in_def by linarith
    have nx: "0 \<le> rem - l \<Longrightarrow> nla + nat l + nat (rem - l) \<le> hi" "lo \<le> nla + nat l" "nat (rem - l) < nat rem"
      using fits(1) l True less.prems(3) by linarith+
    have inn: "attr_in b lo hi nla" using True fits(1) less.prems(3) by (simp add: attr_in_def)
    note IH = less.hyps [OF nx(3) nx(1) less.prems(2) nx(2) less.prems(4)]
    note step = parse_attrs_step [OF yes t n, of maxtype policy tb]
    show ?thesis
    proof (cases "maxtype < t")
      case True
      then show ?thesis using IH [OF _ _ less.prems(5)] step by simp
    next
      case False
      obtain err where e: "(case policy of None \<Rightarrow> Some 0 | Some ps \<Rightarrow> validate_nla b nla maxtype ps) = Some err" "err \<in> {0, - 1}"
        and ob: "\<And>ps. err = 0 \<Longrightarrow> policy = Some ps \<Longrightarrow> obeys b nla (ps ! t)"
      proof (cases policy)
        case (Some ps)
        then show ?thesis using that validate_nla_sound [OF inn less.prems(2) t _ less.prems(4) [OF Some]] False by auto
      qed (use that in simp)
      have len: "length tb = maxtype + 1" using less.prems(5) by (simp add: index_ok_def)
      show ?thesis
      proof (cases "err = 0")
        case True
        have "index_ok b maxtype policy lo hi (tb[t := Some nla])"
          using index_ok_update [OF less.prems(5) inn t _ ob [OF True]] False by simp
        then show ?thesis using IH step e(1) True False len by simp
      qed (use step e False less.prems(5) in simp)
    qed
  qed
qed

lemma nla_parse_index:
  assumes "0 \<le> len \<Longrightarrow> head + nat len \<le> length b" "\<And>ps. policy = Some ps \<Longrightarrow> maxtype < length ps"
  shows "\<exists>r tb. libbpf_nla_parse b maxtype head len policy = Some (r, tb) \<and> r \<in> {0, - 1} \<and>
    index_ok b maxtype policy head (head + nat len) tb"
proof -
  have "index_ok b maxtype policy head (head + nat len) (replicate (maxtype + 1) None)"
    by (auto simp: index_ok_def less_Suc_eq_le simp del: replicate.simps)
  then show ?thesis unfolding libbpf_nla_parse_def
  proof (cases "0 \<le> len")
    case True
    with assms(1) have "head + nat len \<le> length b" by simp
    with \<open>index_ok _ _ _ _ _ _\<close> show "\<exists>r tb. parse_attrs b maxtype policy (replicate (maxtype + 1) None) head len = Some (r, tb) \<and>
        r \<in> {0, - 1} \<and> index_ok b maxtype policy head (head + nat len) tb"
      using parse_attrs_safe [of len head "head + nat len" b head policy maxtype] assms(2) by blast
  next
    case False
    then show "\<exists>r tb. parse_attrs b maxtype policy (replicate (maxtype + 1) None) head len = Some (r, tb) \<and>
        r \<in> {0, - 1} \<and> index_ok b maxtype policy head (head + nat len) tb"
      using \<open>index_ok _ _ _ _ _ _\<close> by (simp add: parse_attrs_stop nla_ok_def)
  qed
qed

text \<open>
  C15. Parsing netlink attributes is safe. Whatever a stream contains, and whatever length is claimed within the message, the parser
  returns without reading outside of the stream; every attribute in the index lies in the stream as a whole, has the type it is indexed
  by, and, if a policy is given, has a length between its bounds and a terminated string where the policy says so.
\<close>

theorem nla_parse_safe:
  assumes "0 \<le> len \<Longrightarrow> head + nat len \<le> length b" "\<And>ps. policy = Some ps \<Longrightarrow> maxtype < length ps"
  shows "\<exists>r tb. libbpf_nla_parse b maxtype head len policy = Some (r, tb) \<and> r \<in> {0, - 1} \<and>
    index_ok b maxtype policy head (head + nat len) tb"
  by (rule nla_parse_index [OF assms])

theorem nla_parse_safe_witness:
  "(\<exists>r tb. libbpf_nla_parse [8, 0, 1, 0, 104, 105, 33, 0] 1 0 8 (Some (replicate 2 \<lparr>pt_type = 5, pt_minlen = 0, pt_maxlen = 9\<rparr>))
       = Some (r, tb) \<and> r \<in> {0, - 1} \<and>
     index_ok [8, 0, 1, 0, 104, 105, 33, 0] 1 (Some (replicate 2 \<lparr>pt_type = 5, pt_minlen = 0, pt_maxlen = 9\<rparr>)) 0 (0 + nat 8) tb) \<and>
   libbpf_nla_parse [8, 0, 1, 0, 104, 105, 33, 0] 1 0 8 (Some (replicate 2 \<lparr>pt_type = 5, pt_minlen = 0, pt_maxlen = 9\<rparr>))
     = Some (0, [None, Some 0])"
proof
  show "\<exists>r tb. libbpf_nla_parse [8, 0, 1, 0, 104, 105, 33, 0] 1 0 8 (Some (replicate 2 \<lparr>pt_type = 5, pt_minlen = 0, pt_maxlen = 9\<rparr>))
       = Some (r, tb) \<and> r \<in> {0, - 1} \<and>
     index_ok [8, 0, 1, 0, 104, 105, 33, 0] 1 (Some (replicate 2 \<lparr>pt_type = 5, pt_minlen = 0, pt_maxlen = 9\<rparr>)) 0 (0 + nat 8) tb"
    by (rule nla_parse_safe) auto
qed code_simp

subsection \<open>Error messages of the kernel\<close>

text \<open>
  \<open>libbpf_nla_dump_errormsg\<close> at a message header: the length is at its start, the flags at 6; the error structure at 16 has
  the error number and the header of the message it answers, whose length is at 20. The second component is the text that is
  printed. The pointer to the attributes is computed with signed numbers and may lie before the buffer.
\<close>

definition extack_policy :: "libbpf_nla_policy list" where
  "extack_policy =
     [\<lparr>pt_type = 0, pt_minlen = 0, pt_maxlen = 0\<rparr>, \<lparr>pt_type = LIBBPF_NLA_STRING, pt_minlen = 0, pt_maxlen = 0\<rparr>,
      \<lparr>pt_type = 3, pt_minlen = 0, pt_maxlen = 0\<rparr>, \<lparr>pt_type = 0, pt_minlen = 0, pt_maxlen = 0\<rparr>]"

definition nlmsg_len :: "u8 list \<Rightarrow> nat \<Rightarrow> int option" where
  "nlmsg_len b nlh = do { l \<leftarrow> (rd 4 b nlh :: u32 option); Some (sint (l - 16)) }"

definition libbpf_nla_dump_errormsg :: "u8 list \<Rightarrow> nat \<Rightarrow> (int \<times> nat option) option" where
  "libbpf_nla_dump_errormsg b nlh = do {
     fl \<leftarrow> (rd 2 b (nlh + 6) :: u16 option);
     if fl AND 0x200 = 0 then Some (0, None)
     else do {
       inner \<leftarrow> (if fl AND 0x100 = 0 then nlmsg_len b (nlh + 20) else Some 0);
       if 20 + inner \<ge> 2 ^ 31 then None
       else do {
         let attr = int nlh + 16 + (20 + inner);
         l \<leftarrow> (rd 4 b nlh :: u32 option);
         let alen = sint (of_int (int nlh + uint l - attr) :: u32);
         (err, tb) \<leftarrow> (if attr < 0 \<and> alen \<ge> 4 then None else libbpf_nla_parse b 3 (nat attr) alen (Some extack_policy));
         if err \<noteq> 0 then Some (0, None) else Some (0, map_option libbpf_nla_data (tb ! 1))
       }
     }
   }"

text \<open>
  For a message that lies in the buffer and whose copy of the request has a sensible length, the text that is printed is a
  string that ends in the message.
\<close>

lemma dump_errormsg_safe:
  assumes "rd 4 b nlh = Some (l :: u32)" "nlh + unat l \<le> length b" "36 \<le> unat l" "unat l < 2 ^ 31"
    "rd 4 b (nlh + 20) = Some (il :: u32)" "16 \<le> unat il" "unat il < 2 ^ 31 - 20"
  shows "\<exists>e. libbpf_nla_dump_errormsg b nlh = Some (0, e) \<and>
    (\<forall>p. e = Some p \<longrightarrow> nlh + 36 \<le> p \<and> (\<exists>n. p + n < nlh + unat l \<and> b ! (p + n) = 0))"
proof -
  have len: "nlh + 36 \<le> length b" using assms(2,3) by simp
  obtain fl :: u16 where fl: "rd 2 b (nlh + 6) = Some fl" using len by simp
  show ?thesis
  proof (cases "fl AND 0x200 = 0")
    case True
    then show ?thesis using fl by (simp add: libbpf_nla_dump_errormsg_def)
  next
    case False
    define inner where "inner = (if fl AND 0x100 = 0 then unat il - 16 else 0)"
    have "il - 16 = of_int (int (unat il) - 16)" by simp
    moreover have "sint (of_int (int (unat il) - 16) :: u32) = int (unat il) - 16"
      using assms(6,7) by (intro sint_of_int_small) (simp_all del: of_nat_unat)
    ultimately have ns: "nlmsg_len b (nlh + 20) = Some (int (unat il - 16))"
      using assms(5,6) by (simp only: nlmsg_len_def bind.bind_lunit of_nat_diff) simp
    have inner: "(if fl AND 0x100 = 0 then nlmsg_len b (nlh + 20) else Some 0) = Some (int inner)" "20 + int inner < 2 ^ 31"
      using ns assms(6,7) by (simp_all add: inner_def less_imp_diff_less)
    define attr where "attr = nlh + 36 + inner"
    define alen where "alen = int nlh + int (unat l) - int attr"
    have "int inner < 2 ^ 31 - 36" using assms(6,7) by (auto simp: inner_def)
    then have al: "sint (of_int alen :: u32) = alen"
      using assms(4) by (intro sint_of_int_small) (simp_all add: alen_def attr_def del: of_nat_unat)
    have fits: "0 \<le> alen \<Longrightarrow> attr + nat alen \<le> length b" using assms(2) unfolding alen_def by linarith
    obtain r tb where p: "libbpf_nla_parse b 3 attr alen (Some extack_policy) = Some (r, tb)" "r \<in> {0, - 1}"
        "index_ok b 3 (Some extack_policy) attr (attr + nat alen) tb"
      using nla_parse_index [OF fits, of "Some extack_policy" 3] by (fastforce simp: extack_policy_def)
    have at: "int nlh + 16 + (20 + int inner) = int attr" "uint l = int (unat l)" by (simp_all add: attr_def)
    have run: "libbpf_nla_dump_errormsg b nlh = Some (0, if r \<noteq> 0 then None else map_option libbpf_nla_data (tb ! 1))"
      unfolding libbpf_nla_dump_errormsg_def fl inner(1) assms(1) bind.bind_lunit Let_def at alen_def [symmetric] al
      using False inner(2) p(1) by simp
    show ?thesis
    proof (cases "r = 0 \<and> tb ! 1 \<noteq> None")
      case True
      then obtain q where q: "tb ! 1 = Some q" by blast
      have "(1 :: nat) \<le> 3" by simp
      then have i: "attr_in b attr (attr + nat alen) q" "obeys b q (extack_policy ! 1)"
        using p(3) q unfolding index_ok_def option.case by blast+
      have f: "attr \<le> q" "5 \<le> attr_len b q" "q + attr_len b q \<le> attr + nat alen" "b ! (q + attr_len b q - 1) = 0"
        using i by (auto simp: attr_in_def obeys_def extack_policy_def)
      have idx: "q + 4 + (attr_len b q - 5) = q + attr_len b q - 1" using f(2) by simp
      have "nlh + 36 \<le> q + 4" "q + 4 + (attr_len b q - 5) < nlh + unat l" "b ! (q + 4 + (attr_len b q - 5)) = 0"
        using f unfolding idx attr_def alen_def by linarith+
      then show ?thesis using run True q by (auto simp: libbpf_nla_data_def)
    qed (use run in auto)
  qed
qed

subsection \<open>Writing\<close>

text \<open>
  A request (\<open>struct libbpf_nla_req\<close>) is a list of 164 bytes: the message header of 16 bytes, of which the first four
  are the length \<open>nlmsg_len\<close>, a family header of at most 20 bytes and 128 bytes for attributes. The condition of
  \<open>nlattr_add\<close> is a sum of an unsigned and a signed number of 32 bits, which is unsigned, compared with a 64-bit size;
  signed overflow is undefined. Copying fewer than 0 bytes is copying a huge number of them, which faults.
\<close>

definition REQ_SIZE :: nat where "REQ_SIZE = 164"

definition NLMSG_ALIGN :: "u32 \<Rightarrow> u32" where
  "NLMSG_ALIGN len = (len + 3) AND NOT 3"

definition req_tail :: "u8 list \<Rightarrow> nat option" where
  "req_tail req = do { len \<leftarrow> rd 4 req 0; Some (unat (NLMSG_ALIGN len)) }"

definition nlattr_add :: "u8 list \<Rightarrow> int \<Rightarrow> u8 list option \<Rightarrow> int \<Rightarrow> (int \<times> u8 list) option" where
  "nlattr_add req type data len = do {
     nlmsg_len \<leftarrow> (rd 4 req 0 :: u32 option);
     if len + 7 > 2 ^ 31 - 1 then None
     else if unat (NLMSG_ALIGN nlmsg_len + of_int (NLA_ALIGN (4 + len))) > REQ_SIZE then Some (- EMSGSIZE, req)
     else if (data \<noteq> None) \<noteq> (len \<noteq> 0) then Some (- EINVAL, req)
     else do {
       nla \<leftarrow> req_tail req;
       req \<leftarrow> wr 2 req (nla + 2) (of_int type :: u16);
       req \<leftarrow> wr 2 req nla (of_int (4 + len) :: u16);
       req \<leftarrow> (case data of
                 None \<Rightarrow> Some req
               | Some d \<Rightarrow>
                   if len < 0 \<or> nat len > length d \<or> nla + 4 + nat len > length req then None
                   else Some (patch (nla + 4) (take (nat len) d) req));
       nla_len \<leftarrow> (rd 2 req nla :: u16 option);
       nlmsg_len \<leftarrow> rd 4 req 0;
       req \<leftarrow> wr 4 req 0 (NLMSG_ALIGN nlmsg_len + of_int (NLA_ALIGN (uint nla_len)));
       Some (0, req)
     }
   }"

definition nlattr_begin_nested :: "u8 list \<Rightarrow> int \<Rightarrow> (nat option \<times> u8 list) option" where
  "nlattr_begin_nested req type = do {
     tail \<leftarrow> req_tail req;
     (e, req) \<leftarrow> nlattr_add req (type OR uint NLA_F_NESTED) None 0;
     Some (if e \<noteq> 0 then None else Some tail, req)
   }"

definition nlattr_end_nested :: "u8 list \<Rightarrow> nat \<Rightarrow> u8 list option" where
  "nlattr_end_nested req tail = do {
     t \<leftarrow> req_tail req;
     wr 2 req tail (of_int (int t - int tail) :: u16)
   }"

subsection \<open>What is written is read back\<close>

text \<open>
  The bytes of an attribute, the bytes of a list of them, and a request that holds a list of attributes from \<open>base\<close> on and
  is zero behind them.
\<close>

definition align4 :: "nat \<Rightarrow> nat" where
  "align4 n = (n + 3) div 4 * 4"

definition attr_bytes :: "u16 \<times> u8 list \<Rightarrow> u8 list" where
  "attr_bytes a = le_enc 2 (of_nat (4 + length (snd a)) :: u16) @ le_enc 2 (fst a) @ snd a @
     replicate (align4 (length (snd a)) - length (snd a)) 0"

abbreviation body :: "(u16 \<times> u8 list) list \<Rightarrow> u8 list" where
  "body attrs \<equiv> concat (map attr_bytes attrs)"

definition req_holds :: "u8 list \<Rightarrow> nat \<Rightarrow> (u16 \<times> u8 list) list \<Rightarrow> bool" where
  "req_holds req base attrs \<longleftrightarrow> 4 dvd base \<and> 4 \<le> base \<and> base + length (body attrs) \<le> REQ_SIZE \<and> length req = REQ_SIZE \<and>
     seg 0 4 req = le_enc 4 (of_nat (base + length (body attrs)) :: u32) \<and>
     drop base req = body attrs @ replicate (REQ_SIZE - base - length (body attrs)) 0"

lemma align4_bounds: "n \<le> align4 n" "align4 n < n + 4" "4 dvd align4 n"
  unfolding align4_def by (presburger, presburger, simp)

lemma align4_dvd: "4 dvd n \<Longrightarrow> align4 n = n"
  unfolding align4_def by presburger

lemma align4_add4: "align4 (4 + n) = 4 + align4 n"
  unfolding align4_def by presburger

lemma NLA_ALIGN_nat: "NLA_ALIGN (int n) = int (align4 n)"
  unfolding NLA_ALIGN_div align4_def by (simp add: zdiv_int)

lemma NLMSG_ALIGN_dvd: "4 dvd n \<Longrightarrow> NLMSG_ALIGN (of_nat n) = of_nat n"
proof -
  assume "4 dvd n"
  then obtain j where "n = 4 * j" by blast
  then obtain k where k: "(of_nat n :: u32) = push_bit 2 (of_nat k)" using that by (simp add: push_bit_eq_mult ac_simps)
  have m: "(3 :: u32) = mask 2" by (simp add: mask_eq_exp_minus_1)
  have "push_bit 2 (of_nat k :: u32) + mask 2 = push_bit 2 (of_nat k) OR mask 2"
    by (rule disjunctive_add) (auto simp: bit_simps)
  then show ?thesis unfolding NLMSG_ALIGN_def k m by (auto simp: bit_eq_iff bit_simps)
qed

lemma length_attr_bytes [simp]: "length (attr_bytes a) = 4 + align4 (length (snd a))"
  using align4_bounds(1) [of "length (snd a)"] by (simp add: attr_bytes_def)

lemma body_dvd: "4 dvd length (body attrs)"
  by (induction attrs) (simp_all add: align4_bounds(3))

lemma req_holdsE:
  assumes "req_holds req base attrs"
  obtains hdr where "req = le_enc 4 (of_nat (base + length (body attrs)) :: u32) @ hdr @ body attrs @
      replicate (REQ_SIZE - base - length (body attrs)) 0"
    "length hdr = base - 4" "4 dvd base" "4 \<le> base" "base + length (body attrs) \<le> REQ_SIZE"
proof -
  let ?l = "le_enc 4 (of_nat (base + length (body attrs)) :: u32)"
  from assms have b: "4 dvd base" "4 \<le> base" "base + length (body attrs) \<le> REQ_SIZE" "length req = REQ_SIZE" "seg 0 4 req = ?l"
    "drop base req = body attrs @ replicate (REQ_SIZE - base - length (body attrs)) 0"
    by (simp_all add: req_holds_def)
  have "req = seg 0 4 req @ seg 4 (base - 4) req @ drop base req"
    using b(2) by (simp add: seg_def) (metis append.assoc append_take_drop_id le_add_diff_inverse take_add)
  then show ?thesis using that [of "seg 4 (base - 4) req"] b by simp
qed

lemma req_holdsI:
  assumes "4 dvd base" "4 \<le> base" "base + length (body attrs) \<le> REQ_SIZE" "length hdr = base - 4"
  shows "req_holds (le_enc 4 (of_nat (base + length (body attrs)) :: u32) @ hdr @ body attrs @
      replicate (REQ_SIZE - base - length (body attrs)) 0) base attrs"
  using assms by (simp add: req_holds_def seg_def)

lemma req_holds_patch:
  assumes "req_holds req base attrs" "4 \<le> p" "p + length bs \<le> base"
  shows "req_holds (patch p bs req) base attrs"
proof -
  have "base \<le> length req" using assms(1) by (simp add: req_holds_def)
  then have "drop base (patch p bs req) = drop base req" "seg 0 4 (patch p bs req) = seg 0 4 req" "length (patch p bs req) = length req"
    using assms(2,3) by (simp_all add: patch_def seg_def)
  then show ?thesis using assms(1) by (simp add: req_holds_def)
qed

lemma req_tail_eq:
  assumes "4 dvd k" "k \<le> REQ_SIZE"
  shows "rd 4 (le_enc 4 (of_nat k :: u32) @ xs) 0 = Some (of_nat k :: u32)" "req_tail (le_enc 4 (of_nat k :: u32) @ xs) = Some k"
proof -
  show r: "rd 4 (le_enc 4 (of_nat k :: u32) @ xs) 0 = Some (of_nat k :: u32)" by (simp add: seg_def endian)
  then show "req_tail (le_enc 4 (of_nat k :: u32) @ xs) = Some k"
    using assms by (simp add: req_tail_def NLMSG_ALIGN_dvd unsigned_of_nat take_bit_nat_eq_self REQ_SIZE_def)
qed

lemma patch_zeros:
  assumes "length l = 2" "length t = 2" "4 + align4 (length d) \<le> z"
  shows "patch 4 d (patch 0 l (patch 2 t (replicate z 0))) =
    l @ t @ d @ replicate (align4 (length d) - length d) 0 @ replicate (z - 4 - align4 (length d)) (0 :: u8)"
proof -
  have "z - 4 - length d = (align4 (length d) - length d) + (z - 4 - align4 (length d))"
    using assms(3) align4_bounds(1) [of "length d"] by simp
  then have "replicate (z - 4 - length d) (0 :: u8) = replicate (align4 (length d) - length d) 0 @ replicate (z - 4 - align4 (length d)) 0"
    by (simp only: replicate_add)
  then show ?thesis using assms by (simp add: patch_def)
qed

text \<open>The pointer to the data of an attribute: an attribute without data has none.\<close>

abbreviation (input) data_ptr :: "u8 list \<Rightarrow> u8 list option" where
  "data_ptr d \<equiv> (if d = [] then None else Some d)"

lemma add_sum:
  assumes "4 dvd k" "k \<le> REQ_SIZE" "int n + 7 < 2 ^ 31"
  shows "unat (NLMSG_ALIGN (of_nat k) + of_int (NLA_ALIGN (4 + int n))) = k + 4 + align4 n"
proof -
  have "4 + int n = int (4 + n)" by simp
  then have "NLA_ALIGN (4 + int n) = int (4 + align4 n)" by (simp only: NLA_ALIGN_nat align4_add4)
  then have e: "NLMSG_ALIGN (of_nat k) + of_int (NLA_ALIGN (4 + int n)) = (of_nat (k + (4 + align4 n)) :: u32)"
    using assms(1) by (simp add: NLMSG_ALIGN_dvd)
  have "k + (4 + align4 n) < 2 ^ 32" using assms(2,3) align4_bounds(2) [of n] by (simp add: REQ_SIZE_def)
  then show ?thesis unfolding e by (simp only: unsigned_of_nat) (simp add: take_bit_nat_eq_self)
qed

lemma nlattr_add_full:
  assumes "req_holds req base attrs" "base + length (body attrs) + 4 + align4 (length d) > REQ_SIZE" "int (length d) + 7 < 2 ^ 31"
  shows "nlattr_add req t data (int (length d)) = Some (- EMSGSIZE, req)"
proof -
  obtain xs where r: "req = le_enc 4 (of_nat (base + length (body attrs)) :: u32) @ xs" and k: "4 dvd base + length (body attrs)"
      "base + length (body attrs) \<le> REQ_SIZE"
    using assms(1) by (elim req_holdsE) (simp add: body_dvd)
  show ?thesis using assms(2,3) add_sum [OF k assms(3)] req_tail_eq(1) [OF k] by (simp add: nlattr_add_def r)
qed

lemma nlattr_add_ok:
  assumes "req_holds req base attrs" "base + length (body attrs) + 4 + align4 (length d) \<le> REQ_SIZE"
  shows "\<exists>req'. nlattr_add req t (data_ptr d) (int (length d)) = Some (0, req') \<and> req_holds req' base (attrs @ [(of_int t, d)]) \<and>
    seg 4 (base - 4) req' = seg 4 (base - 4) req"
proof -
  define k where "k = base + length (body attrs)"
  obtain hdr where r: "req = le_enc 4 (of_nat k :: u32) @ hdr @ body attrs @ replicate (REQ_SIZE - k) 0"
    and h: "length hdr = base - 4" "4 dvd base" "4 \<le> base" "k \<le> REQ_SIZE"
    using assms(1) by (elim req_holdsE) (simp add: k_def)
  have k4: "4 dvd k" using h(2) body_dvd by (simp add: k_def)
  let ?n = "align4 (length d)"
  have n: "length d \<le> ?n" "k + 4 + ?n \<le> REQ_SIZE" using align4_bounds(1) assms(2) by (simp_all add: k_def)
  have small: "int (length d) + 7 < 2 ^ 31" "length d < 2 ^ 16 - 4" using n by (simp_all add: REQ_SIZE_def)
  define front where "front = le_enc 4 (of_nat k :: u32) @ hdr @ body attrs"
  define w where "w = (of_int (4 + int (length d)) :: u16)"
  define t' where "t' = (of_int t :: u16)"
  define z where "z = REQ_SIZE - k"
  define z1 where "z1 = patch 0 (le_enc 2 w) (patch 2 (le_enc 2 t') (replicate z 0))"
  define area where "area = attr_bytes (t', d) @ replicate (z - 4 - ?n) 0"
  have f: "length front = k" "req = front @ replicate z 0" using h r by (simp_all add: front_def k_def z_def)
  have bk: "patch (k + i) bs (front @ zs) = front @ patch i bs zs" "patch k bs (front @ zs) = front @ patch 0 bs zs"
    "patch (Suc (Suc k)) bs (front @ zs) = front @ patch 2 bs zs" for i bs zs
    using f(1) by (simp_all add: patch_def)
  have z: "4 + ?n \<le> z" using n by (simp add: z_def)
  have w: "uint w = int (4 + length d)" "w = of_nat (4 + length d)"
    using small(2) by (simp only: w_def unsigned_of_int, simp add: take_bit_int_eq_self) (simp add: w_def)
  have area: "patch 4 d z1 = area" using patch_zeros [of "le_enc 2 w" "le_enc 2 t'" d z] z
    by (simp add: attr_bytes_def z1_def area_def w(2))
  have len: "length z1 = z" "length area = z" using z by (simp_all add: z1_def area_def)
  have tail: "req_tail (front @ zs) = Some k" "rd 4 (front @ zs) 0 = Some (of_nat k :: u32)" for zs
    using req_tail_eq [OF k4 h(4)] by (simp_all add: front_def)
  have "seg k 2 (front @ area) = le_enc 2 w" using f(1) by (simp add: seg_def area_def attr_bytes_def w(2))
  then have nl: "rd 2 (front @ area) k = Some w" using f(1) len z by (simp add: endian)
  have new: "NLMSG_ALIGN (of_nat k) + of_int (NLA_ALIGN (uint w)) = (of_nat (k + (4 + ?n)) :: u32)"
    using k4 by (simp only: w(1) NLA_ALIGN_nat align4_add4 NLMSG_ALIGN_dvd) simp
  define wide where "wide = (of_nat (k + (4 + ?n)) :: u32)"
  have empty: "d = [] \<Longrightarrow> z1 = area" using area by (simp add: patch_def)
  have "nlattr_add req t (data_ptr d) (int (length d)) = Some (0, patch 0 (le_enc 4 wide) (front @ area))"
    unfolding nlattr_add_def f(2) w_def [symmetric] t'_def [symmetric]
    using add_sum [OF k4 h(4) small(1)] small(1) n f(1) len z area empty
    by (cases "d = []") (simp_all add: tail bk z1_def [symmetric] nl new [folded wide_def])
  moreover have "patch 0 (le_enc 4 wide) (front @ area) =
      le_enc 4 (of_nat (base + length (body (attrs @ [(t', d)]))) :: u32) @ hdr @ body (attrs @ [(t', d)]) @
        replicate (REQ_SIZE - base - length (body (attrs @ [(t', d)]))) 0"
    by (simp add: front_def area_def patch_def k_def z_def wide_def ac_simps)
  ultimately show ?thesis
    using req_holdsI [of base "attrs @ [(t', d)]" hdr] h n(2) r by (simp add: k_def t'_def seg_def)
qed

lemma end_nested_ok:
  assumes "req_holds req base (attrs @ (t, []) # inner)"
  shows "\<exists>req'. nlattr_end_nested req (base + length (body attrs)) = Some req' \<and> req_holds req' base (attrs @ [(t, body inner)]) \<and>
    seg 4 (base - 4) req' = seg 4 (base - 4) req"
proof -
  let ?all = "attrs @ (t, []) # inner" and ?new = "attrs @ [(t, body inner)]"
  define k where "k = base + length (body attrs)"
  obtain hdr where r: "req = le_enc 4 (of_nat (base + length (body ?all)) :: u32) @ hdr @ body ?all @
      replicate (REQ_SIZE - base - length (body ?all)) 0"
    and h: "length hdr = base - 4" "4 dvd base" "4 \<le> base" "base + length (body ?all) \<le> REQ_SIZE"
    using assms by (elim req_holdsE)
  have al: "align4 0 = 0" "align4 (length (body inner)) = length (body inner)"
    using align4_dvd [OF body_dvd] by (simp_all add: align4_def)
  have same: "length (body ?new) = length (body ?all)" by (simp add: al)
  define front where "front = le_enc 4 (of_nat (base + length (body ?all)) :: u32) @ hdr @ body attrs"
  define rest where "rest = le_enc 2 t @ body inner @ replicate (REQ_SIZE - base - length (body ?all)) 0"
  have f: "length front = k" "req = front @ le_enc 2 (4 :: u16) @ rest"
    using h r by (simp_all add: front_def rest_def k_def attr_bytes_def al)
  have tail: "req_tail req = Some (base + length (body ?all))"
    unfolding r using h(2) body_dvd [of ?all] by (intro req_tail_eq(2) [OF _ h(4)]) (rule dvd_add)
  have "int (base + length (body ?all)) - int k = int (4 + length (body inner))" by (simp add: k_def al)
  then have "nlattr_end_nested req k = wr 2 req k (of_nat (4 + length (body inner)) :: u16)"
    by (simp only: nlattr_end_nested_def tail bind.bind_lunit of_int_of_nat_eq)
  also have "\<dots> = Some (front @ le_enc 2 (of_nat (4 + length (body inner)) :: u16) @ rest)"
    using f by (simp add: patch_def)
  also have "front @ le_enc 2 (of_nat (4 + length (body inner)) :: u16) @ rest =
      le_enc 4 (of_nat (base + length (body ?new)) :: u32) @ hdr @ body ?new @ replicate (REQ_SIZE - base - length (body ?new)) 0"
    by (simp add: front_def rest_def attr_bytes_def al)
  finally show ?thesis
    using req_holdsI [of base ?new hdr] h same r unfolding k_def by (simp add: seg_def)
qed

text \<open>An entry of an index that is empty, or that points at an attribute with given data.\<close>

definition entry_is :: "u8 list \<Rightarrow> nat option \<Rightarrow> u8 list option \<Rightarrow> bool" where
  "entry_is b e x \<longleftrightarrow>
     (case x of
        None \<Rightarrow> e = None
      | Some d \<Rightarrow> (\<exists>q. e = Some q \<and> q + 4 + length d \<le> length b \<and> attr_len b q = 4 + length d \<and> seg (q + 4) (length d) b = d))"

definition attr_key :: "u16 \<times> u8 list \<Rightarrow> nat \<times> u8 list" where
  "attr_key a = (unat (fst a AND NLA_TYPE_MASK), snd a)"

lemma parse_first:
  assumes "seg p (length (attr_bytes a @ rest)) b = attr_bytes a @ rest" "p + length (attr_bytes a @ rest) \<le> length b"
    "4 + length (snd a) < 2 ^ 16"
  shows "attr_len b p = 4 + length (snd a)" "nla_type b p = Some (fst (attr_key a))" "seg (p + 4) (length (snd a)) b = snd a"
    "seg (p + length (attr_bytes a)) (length rest) b = rest"
proof -
  have part: "seg (p + i) n b = seg i n (attr_bytes a @ rest)" if "i + n \<le> length (attr_bytes a @ rest)" for i n
    using seg_seg [OF that assms(2)] assms(1) by simp
  have n: "length (snd a) \<le> align4 (length (snd a))" by (rule align4_bounds)
  have "seg p 2 b = le_enc 2 (of_nat (4 + length (snd a)) :: u16)" "seg (p + 2) 2 b = le_enc 2 (fst a)"
    using part [of 0 2] part [of 2 2] by (simp_all add: attr_bytes_def seg_def)
  then show "attr_len b p = 4 + length (snd a)" "nla_type b p = Some (fst (attr_key a))"
    using assms(2,3) by (simp_all add: attr_len_def nla_type_def attr_key_def endian unsigned_of_nat take_bit_nat_eq_self del: of_nat_add)
  show "seg (p + 4) (length (snd a)) b = snd a" using part [of 4 "length (snd a)"] n by (simp add: attr_bytes_def seg_def)
  show "seg (p + length (attr_bytes a)) (length rest) b = rest"
    using part [of "length (attr_bytes a)" "length rest"] by (simp add: seg_def del: length_attr_bytes)
qed

lemma parse_back:
  assumes "seg p (length (body attrs)) b = body attrs" "p + length (body attrs) \<le> length b"
    "\<forall>a \<in> set attrs. 4 + length (snd a) < 2 ^ 16" "length tb = maxtype + 1"
  shows "\<exists>tb'. parse_attrs b maxtype None tb p (int (length (body attrs))) = Some (0, tb') \<and> length tb' = maxtype + 1 \<and>
    (\<forall>t \<le> maxtype. case map_of (rev (map attr_key attrs)) t of None \<Rightarrow> tb' ! t = tb ! t | Some d \<Rightarrow> entry_is b (tb' ! t) (Some d))"
  using assms
proof (induction attrs arbitrary: p tb)
  case Nil
  then show ?case by (simp add: parse_attrs_stop nla_ok_def)
next
  case (Cons a attrs)
  let ?l = "length (attr_bytes a)" and ?k = "fst (attr_key a)"
  have fit: "p + length (attr_bytes a @ body attrs) \<le> length b" "4 + length (snd a) < 2 ^ 16" using Cons.prems(2,3) by simp_all
  note first = parse_first [of p a "body attrs" b, OF _ fit]
  have f: "attr_len b p = 4 + length (snd a)" "nla_type b p = Some ?k" "seg (p + 4) (length (snd a)) b = snd a"
      "seg (p + ?l) (length (body attrs)) b = body attrs"
    using first Cons.prems(1) by simp_all
  have n: "length (snd a) \<le> align4 (length (snd a))" by (rule align4_bounds)
  have rem: "0 \<le> int (length (body (a # attrs)))" "p + nat (int (length (body (a # attrs)))) \<le> length b" using Cons.prems(2) by simp_all
  have inn: "attr_in b p (p + nat (int (length (body (a # attrs))))) p" using n by (simp add: attr_in_def f(1))
  have yes: "nla_ok b p (int (length (body (a # attrs)))) = Some True"
    using nla_ok_iff [of "int (length (body (a # attrs)))" p b] rem inn by simp
  have nx: "nla_next b p (int (length (body (a # attrs)))) = Some (p + ?l, int (length (body attrs)))"
    using attr_in_next(1) [OF inn rem(2)] unfolding f(1) NLA_ALIGN_nat align4_add4 nat_int by simp
  note step = parse_attrs_step [OF yes f(2) nx, of maxtype None tb]
  have key: "map_of (rev (map attr_key (a # attrs))) t =
      (case map_of (rev (map attr_key attrs)) t of Some d \<Rightarrow> Some d | None \<Rightarrow> if t = ?k then Some (snd a) else None)" for t
    by (simp add: map_add_def attr_key_def split: option.split)
  have fit': "p + ?l + length (body attrs) \<le> length b" "\<forall>a \<in> set attrs. 4 + length (snd a) < 2 ^ 16" using Cons.prems(2,3) by simp_all
  have here: "entry_is b (Some p) (Some (snd a))" using f fit n by (simp add: entry_is_def)
  show ?case
  proof (cases "maxtype < ?k")
    case True
    then show ?thesis using Cons.IH [OF f(4) fit' Cons.prems(4)] step unfolding key by (fastforce split: option.split)
  next
    case False
    have "length (tb[?k := Some p]) = maxtype + 1" using Cons.prems(4) by simp
    from Cons.IH [OF f(4) fit' this] obtain tb' where tb': "parse_attrs b maxtype None (tb[?k := Some p]) (p + ?l) (int (length (body attrs))) = Some (0, tb')"
        "length tb' = maxtype + 1"
        and e: "\<And>t. t \<le> maxtype \<Longrightarrow> case map_of (rev (map attr_key attrs)) t of
            None \<Rightarrow> tb' ! t = tb[?k := Some p] ! t | Some d \<Rightarrow> entry_is b (tb' ! t) (Some d)"
      by blast
    have "case map_of (rev (map attr_key (a # attrs))) t of None \<Rightarrow> tb' ! t = tb ! t | Some d \<Rightarrow> entry_is b (tb' ! t) (Some d)"
      if "t \<le> maxtype" for t
      using e [OF that] here False Cons.prems(4) unfolding key by (cases "t = ?k") (auto split: option.split_asm option.split)
    then show ?thesis using tb' step False Cons.prems(4) by simp
  qed
qed

lemma nla_parse_back:
  assumes "seg p (length (body attrs)) b = body attrs" "p + length (body attrs) \<le> length b" "\<forall>a \<in> set attrs. 4 + length (snd a) < 2 ^ 16"
  shows "\<exists>tb. libbpf_nla_parse b maxtype p (int (length (body attrs))) None = Some (0, tb) \<and> length tb = maxtype + 1 \<and>
    (\<forall>t \<le> maxtype. entry_is b (tb ! t) (map_of (rev (map attr_key attrs)) t))"
proof -
  have "length (replicate (maxtype + 1) None) = maxtype + 1" by simp
  from parse_back [OF assms this] obtain tb where tb: "libbpf_nla_parse b maxtype p (int (length (body attrs))) None = Some (0, tb)"
      "length tb = maxtype + 1"
      and e: "\<And>t. t \<le> maxtype \<Longrightarrow> case map_of (rev (map attr_key attrs)) t of
          None \<Rightarrow> tb ! t = replicate (maxtype + 1) None ! t | Some d \<Rightarrow> entry_is b (tb ! t) (Some d)"
    unfolding libbpf_nla_parse_def by blast
  have "entry_is b (tb ! t) (map_of (rev (map attr_key attrs)) t)" if "t \<le> maxtype" for t
    using e [OF that] that by (simp add: entry_is_def less_Suc_eq_le split: option.split_asm del: replicate_Suc)
  then show ?thesis using tb by blast
qed

lemma nested_back:
  assumes "entry_is b (Some q) (Some (body inner))" "\<forall>a \<in> set inner. 4 + length (snd a) < 2 ^ 16"
  shows "\<exists>tb. libbpf_nla_parse_nested b maxtype q None = Some (0, tb) \<and> length tb = maxtype + 1 \<and>
    (\<forall>t \<le> maxtype. entry_is b (tb ! t) (map_of (rev (map attr_key inner)) t))"
proof -
  have q: "q + 4 + length (body inner) \<le> length b" "attr_len b q = 4 + length (body inner)"
    "seg (q + 4) (length (body inner)) b = body inner"
    using assms(1) by (auto simp: entry_is_def)
  have "libbpf_nla_len b q = Some (int (length (body inner)))" using q(1,2) by (simp add: libbpf_nla_len_def attr_len_uint)
  then show ?thesis using nla_parse_back [OF q(3,1) assms(2)] by (simp add: libbpf_nla_parse_nested_def libbpf_nla_data_def)
qed

text \<open>
  How the library writes requests: attributes one by one up to the first error, and a nested attribute around a list of them.
\<close>

abbreviation wire :: "(int \<times> u8 list) list \<Rightarrow> (u16 \<times> u8 list) list" where
  "wire \<equiv> map (\<lambda>a. (of_int (fst a), snd a))"

fun add_attrs :: "u8 list \<Rightarrow> (int \<times> u8 list) list \<Rightarrow> (int \<times> u8 list) option" where
  "add_attrs req [] = Some (0, req)"
| "add_attrs req (a # attrs) = do {
     (e, req) \<leftarrow> nlattr_add req (fst a) (data_ptr (snd a)) (int (length (snd a)));
     if e < 0 then Some (e, req) else add_attrs req attrs
   }"

definition add_nested :: "u8 list \<Rightarrow> int \<Rightarrow> (int \<times> u8 list) list \<Rightarrow> (int \<times> u8 list) option" where
  "add_nested req type inner = do {
     (nla, req) \<leftarrow> nlattr_begin_nested req type;
     case nla of
       None \<Rightarrow> Some (- EMSGSIZE, req)
     | Some tail \<Rightarrow> do {
         (e, req) \<leftarrow> add_attrs req inner;
         if e < 0 then Some (e, req) else do { req \<leftarrow> nlattr_end_nested req tail; Some (0, req) }
       }
   }"

definition data_small :: "(int \<times> u8 list) list \<Rightarrow> bool" where
  "data_small attrs \<longleftrightarrow> (\<forall>a \<in> set attrs. int (length (snd a)) + 7 < 2 ^ 31)"

lemma add_attrs_run:
  assumes "req_holds req base attrs" "data_small new"
  shows "\<exists>r req'. add_attrs req new = Some (r, req') \<and>
    (if base + length (body (attrs @ wire new)) \<le> REQ_SIZE
     then r = 0 \<and> req_holds req' base (attrs @ wire new) \<and> seg 4 (base - 4) req' = seg 4 (base - 4) req
     else r = - EMSGSIZE)"
  using assms
proof (induction new arbitrary: req attrs)
  case Nil
  then show ?case by (simp add: req_holds_def)
next
  case (Cons a new)
  let ?fits = "base + length (body attrs) + 4 + align4 (length (snd a)) \<le> REQ_SIZE"
  show ?case
  proof (cases ?fits)
    case True
    then obtain req1 where a: "nlattr_add req (fst a) (data_ptr (snd a)) (int (length (snd a))) = Some (0, req1)"
        "req_holds req1 base (attrs @ [(of_int (fst a), snd a)])" "seg 4 (base - 4) req1 = seg 4 (base - 4) req"
      using nlattr_add_ok [OF Cons.prems(1), of "snd a" "fst a"] by blast
    have small: "data_small new" using Cons.prems(2) by (simp add: data_small_def)
    have e: "attrs @ wire (a # new) = (attrs @ [(of_int (fst a), snd a)]) @ wire new" "add_attrs req (a # new) = add_attrs req1 new"
      using a(1) by simp_all
    show ?thesis unfolding e by (rule Cons.IH [OF a(2) small, unfolded a(3)])
  next
    case False
    then have "nlattr_add req (fst a) (data_ptr (snd a)) (int (length (snd a))) = Some (- EMSGSIZE, req)"
      unfolding not_le using Cons.prems by (intro nlattr_add_full [OF Cons.prems(1)]) (simp_all add: data_small_def)
    then show ?thesis using False by simp
  qed
qed

lemma begin_nested_run:
  assumes "req_holds req base attrs"
  shows "if base + length (body attrs) + 4 \<le> REQ_SIZE
    then \<exists>req'. nlattr_begin_nested req t = Some (Some (base + length (body attrs)), req') \<and>
      req_holds req' base (attrs @ [(of_int (t OR uint NLA_F_NESTED), [])]) \<and> seg 4 (base - 4) req' = seg 4 (base - 4) req
    else nlattr_begin_nested req t = Some (None, req)"
proof -
  obtain xs where r: "req = le_enc 4 (of_nat (base + length (body attrs)) :: u32) @ xs" and k: "4 dvd base + length (body attrs)"
      "base + length (body attrs) \<le> REQ_SIZE"
    using assms by (elim req_holdsE) (simp add: body_dvd)
  have tail: "req_tail req = Some (base + length (body attrs))" using req_tail_eq(2) [OF k] by (simp add: r)
  have al: "align4 (length ([] :: u8 list)) = 0" by (simp add: align4_def)
  show ?thesis
    using nlattr_add_ok [OF assms, of "[]" "t OR uint NLA_F_NESTED", unfolded al]
      nlattr_add_full [OF assms, of "[]" "t OR uint NLA_F_NESTED" None, unfolded al]
    by (auto simp: nlattr_begin_nested_def tail)
qed

lemma add_nested_run:
  assumes "req_holds req base attrs" "data_small inner"
  shows "\<exists>r req'. add_nested req t inner = Some (r, req') \<and>
    (if base + length (body attrs) + 4 + length (body (wire inner)) \<le> REQ_SIZE
     then r = 0 \<and> req_holds req' base (attrs @ [(of_int (t OR uint NLA_F_NESTED), body (wire inner))]) \<and>
       seg 4 (base - 4) req' = seg 4 (base - 4) req
     else r = - EMSGSIZE)"
proof (cases "base + length (body attrs) + 4 \<le> REQ_SIZE")
  case True
  let ?n = "(of_int (t OR uint NLA_F_NESTED) :: u16, [] :: u8 list)"
  obtain req1 where b: "nlattr_begin_nested req t = Some (Some (base + length (body attrs)), req1)"
      "req_holds req1 base (attrs @ [?n])" "seg 4 (base - 4) req1 = seg 4 (base - 4) req"
    using begin_nested_run [OF assms(1), of t] True by auto
  obtain r req2 where a: "add_attrs req1 inner = Some (r, req2)"
      "if base + length (body ((attrs @ [?n]) @ wire inner)) \<le> REQ_SIZE
       then r = 0 \<and> req_holds req2 base ((attrs @ [?n]) @ wire inner) \<and> seg 4 (base - 4) req2 = seg 4 (base - 4) req1
       else r = - EMSGSIZE"
    using add_attrs_run [OF b(2) assms(2)] by blast
  have len: "base + length (body ((attrs @ [?n]) @ wire inner)) = base + length (body attrs) + 4 + length (body (wire inner))"
    by (simp add: align4_def)
  show ?thesis
  proof (cases "base + length (body attrs) + 4 + length (body (wire inner)) \<le> REQ_SIZE")
    case True
    then have r: "r = 0" "req_holds req2 base (attrs @ ?n # wire inner)" "seg 4 (base - 4) req2 = seg 4 (base - 4) req1"
      using a(2) unfolding len by simp_all
    from end_nested_ok [OF r(2)] show ?thesis using True a(1) b r by (auto simp: add_nested_def)
  next
    case False
    then show ?thesis using a b(1) unfolding len by (simp add: add_nested_def)
  qed
qed (use begin_nested_run [OF assms(1), of t] in \<open>simp add: add_nested_def\<close>)

lemma attr_in_body: "a \<in> set attrs \<Longrightarrow> 4 + length (snd a) \<le> length (body attrs)"
proof (induction attrs)
  case (Cons x attrs)
  then show ?case using align4_bounds(1) [of "length (snd a)"] by auto
qed simp

lemma req_length: "req_holds req base attrs \<Longrightarrow> rd 4 req 0 = Some (of_nat (base + length (body attrs)) :: u32)"
  by (simp add: req_holds_def REQ_SIZE_def endian)

lemma req_bytes:
  assumes "req_holds req base attrs"
  shows "seg base (length (body attrs)) req = body attrs" "base + length (body attrs) \<le> length req" "length (body attrs) < 2 ^ 16"
  using assms by (simp_all add: req_holds_def seg_def REQ_SIZE_def)

lemma nested_bytes_read:
  assumes "A = outer @ [(t, body inner)]" "seg p (length (body A)) b = body A" "p + length (body A) \<le> length b" "length (body A) < 2 ^ 16"
    "nest = unat (t AND NLA_TYPE_MASK)" "nest \<le> maxtype"
  shows "\<exists>tb q itb. libbpf_nla_parse b maxtype p (int (length (body A))) None = Some (0, tb) \<and>
    (\<forall>k \<le> maxtype. k \<noteq> nest \<longrightarrow> entry_is b (tb ! k) (map_of (rev (map attr_key outer)) k)) \<and>
    tb ! nest = Some q \<and> libbpf_nla_parse_nested b imax q None = Some (0, itb) \<and>
    (\<forall>k \<le> imax. entry_is b (itb ! k) (map_of (rev (map attr_key inner)) k))"
proof -
  have key: "map_of (rev (map attr_key A)) k = (if k = nest then Some (body inner) else map_of (rev (map attr_key outer)) k)" for k
    by (simp add: attr_key_def assms(1,5))
  have small: "\<forall>a \<in> set A. 4 + length (snd a) < 2 ^ 16" using attr_in_body [of _ A] assms(4) by fastforce
  then have "4 + length (body inner) < 2 ^ 16" unfolding assms(1) by (metis UnCI list.set_intros(1) set_append snd_conv)
  then have inner: "\<forall>a \<in> set inner. 4 + length (snd a) < 2 ^ 16" using attr_in_body [of _ inner] by fastforce
  obtain tb where tb: "libbpf_nla_parse b maxtype p (int (length (body A))) None = Some (0, tb)"
      and e: "\<And>k. k \<le> maxtype \<Longrightarrow> entry_is b (tb ! k) (if k = nest then Some (body inner) else map_of (rev (map attr_key outer)) k)"
    using nla_parse_back [OF assms(2,3) small, of maxtype] unfolding key by blast
  have "entry_is b (tb ! nest) (Some (body inner))" using e [OF assms(6)] by simp
  then obtain q where q: "tb ! nest = Some q" "entry_is b (Some q) (Some (body inner))" by (auto simp: entry_is_def)
  have "entry_is b (tb ! k) (map_of (rev (map attr_key outer)) k)" if "k \<le> maxtype" "k \<noteq> nest" for k
    using e [OF that(1)] that(2) by simp
  then show ?thesis using tb q(1) nested_back [OF q(2) inner, of imax] by blast
qed

text \<open>
  C17. Netlink requests are read back as they were written. Writing attributes to a request that holds none yet, and then a
  nested attribute around further ones, succeeds exactly if they fit the 164 bytes of a request, and gives -EMSGSIZE
  otherwise. If it succeeds, the header keeps everything but its length, and parsing the request finds for each type the data
  written last under that type (nothing for the other types), and the nested attribute, which parses to the inner ones.
\<close>

theorem nlattr_roundtrip:
  assumes "req_holds req base []" "data_small outer" "data_small inner"
    "nest = unat (of_int (t OR uint NLA_F_NESTED) AND NLA_TYPE_MASK)" "nest \<le> maxtype"
    "sz = length (body (wire outer)) + 4 + length (body (wire inner))"
  shows "\<exists>r req'. do { (e, req1) \<leftarrow> add_attrs req outer; if e < 0 then Some (e, req1) else add_nested req1 t inner } = Some (r, req') \<and>
    r = (if base + sz \<le> REQ_SIZE then 0 else - EMSGSIZE) \<and>
    (r = 0 \<longrightarrow> rd 4 req' 0 = Some (of_nat (base + sz) :: u32) \<and> seg 4 (base - 4) req' = seg 4 (base - 4) req \<and>
       (\<exists>tb q itb. libbpf_nla_parse req' maxtype base (int sz) None = Some (0, tb) \<and>
          (\<forall>k \<le> maxtype. k \<noteq> nest \<longrightarrow> entry_is req' (tb ! k) (map_of (rev (map attr_key (wire outer))) k)) \<and>
          tb ! nest = Some q \<and> libbpf_nla_parse_nested req' imax q None = Some (0, itb) \<and>
          (\<forall>k \<le> imax. entry_is req' (itb ! k) (map_of (rev (map attr_key (wire inner))) k))))"
proof -
  obtain r1 req1 where a: "add_attrs req outer = Some (r1, req1)"
      "if base + length (body (wire outer)) \<le> REQ_SIZE
       then r1 = 0 \<and> req_holds req1 base (wire outer) \<and> seg 4 (base - 4) req1 = seg 4 (base - 4) req else r1 = - EMSGSIZE"
    using add_attrs_run [OF assms(1,2), unfolded append_Nil] by blast
  show ?thesis
  proof (cases "base + length (body (wire outer)) \<le> REQ_SIZE")
    case False
    then show ?thesis using a assms(6) by simp
  next
    case True
    let ?nested = "(of_int (t OR uint NLA_F_NESTED) :: u16, body (wire inner))"
    have r1: "r1 = 0" "req_holds req1 base (wire outer)" "seg 4 (base - 4) req1 = seg 4 (base - 4) req" using a(2) True by simp_all
    obtain r req' where n: "add_nested req1 t inner = Some (r, req')"
        "if base + sz \<le> REQ_SIZE
         then r = 0 \<and> req_holds req' base (wire outer @ [?nested]) \<and> seg 4 (base - 4) req' = seg 4 (base - 4) req1 else r = - EMSGSIZE"
      using add_nested_run [OF r1(2) assms(3), of t] unfolding assms(6) add.assoc by blast
    show ?thesis
    proof (cases "base + sz \<le> REQ_SIZE")
      case False
      then show ?thesis using a(1) n r1(1) by simp
    next
      case True
      then have r: "r = 0" "req_holds req' base (wire outer @ [?nested])" "seg 4 (base - 4) req' = seg 4 (base - 4) req"
        using n(2) r1(3) by simp_all
      have sz: "length (body (wire outer @ [?nested])) = sz" using align4_dvd [OF body_dvd [of "wire inner"]] by (simp add: assms(6))
      note nested_bytes_read [OF refl req_bytes [OF r(2)] assms(4,5), unfolded sz, of imax]
      moreover have "rd 4 req' 0 = Some (of_nat (base + sz) :: u32)" using req_length [OF r(2)] unfolding sz .
      moreover have "do { (e, req1) \<leftarrow> add_attrs req outer; if e < 0 then Some (e, req1) else add_nested req1 t inner } = Some (r, req')"
        using a(1) n(1) r1(1) by simp
      moreover have "r = (if base + sz \<le> REQ_SIZE then 0 else - EMSGSIZE)" using True r(1) by simp
      ultimately show ?thesis using r(3) by blast
    qed
  qed
qed

definition demo_req :: "u8 list" where
  "demo_req = le_enc 4 (32 :: u32) @ replicate 160 0"

theorem nlattr_roundtrip_witness:
  "\<exists>r req'. do { (e, req1) \<leftarrow> add_attrs demo_req [(3, [101, 116, 104, 48, 0])];
      if e < 0 then Some (e, req1) else add_nested req1 43 [(1, [7, 0, 0, 0]), (3, [2, 0, 0, 0])] } = Some (r, req') \<and> r = 0 \<and>
    (\<exists>tb q itb. libbpf_nla_parse req' 57 32 32 None = Some (0, tb) \<and> entry_is req' (tb ! 3) (Some [101, 116, 104, 48, 0]) \<and>
      entry_is req' (tb ! 4) None \<and> tb ! 43 = Some q \<and> libbpf_nla_parse_nested req' 8 q None = Some (0, itb) \<and>
      entry_is req' (itb ! 1) (Some [7, 0, 0, 0]) \<and> entry_is req' (itb ! 3) (Some [2, 0, 0, 0]))"
proof -
  have h: "req_holds demo_req 32 []" by (simp add: req_holds_def demo_req_def REQ_SIZE_def seg_def)
  have n: "43 = unat (of_int (43 OR uint NLA_F_NESTED) AND NLA_TYPE_MASK)" by code_simp
  have sz: "32 = length (body (wire [(3, [101, 116, 104, 48, 0])])) + 4 + length (body (wire [(1, [7, 0, 0, 0]), (3, [2, 0, 0, 0])]))"
    by (simp add: align4_def)
  have keys: "map_of (rev (map attr_key (wire [(3, [101, 116, 104, 48, 0])]))) = [3 \<mapsto> [101, 116, 104, 48, 0]]"
      "map_of (rev (map attr_key (wire [(1, [7, 0, 0, 0]), (3, [2, 0, 0, 0])]))) = [1 \<mapsto> [7, 0, 0, 0], 3 \<mapsto> [2, 0, 0, 0]]"
    by (simp_all add: attr_key_def NLA_TYPE_MASK_def)
  have d: "data_small [(3, [101, 116, 104, 48, 0])]" "data_small [(1, [7, 0, 0, 0]), (3, [2, 0, 0, 0])]" by (simp_all add: data_small_def)
  obtain r req' where r: "do { (e, req1) \<leftarrow> add_attrs demo_req [(3, [101, 116, 104, 48, 0])];
      if e < 0 then Some (e, req1) else add_nested req1 43 [(1, [7, 0, 0, 0]), (3, [2, 0, 0, 0])] } = Some (r, req')"
      "r = (if 32 + 32 \<le> REQ_SIZE then 0 else - EMSGSIZE)"
    and p: "r = 0 \<Longrightarrow> \<exists>tb q itb. libbpf_nla_parse req' 57 32 (int 32) None = Some (0, tb) \<and>
          (\<forall>k \<le> 57. k \<noteq> 43 \<longrightarrow> entry_is req' (tb ! k) ([3 \<mapsto> [101, 116, 104, 48, 0]] k)) \<and>
          tb ! 43 = Some q \<and> libbpf_nla_parse_nested req' 8 q None = Some (0, itb) \<and>
          (\<forall>k \<le> 8. entry_is req' (itb ! k) ([1 \<mapsto> [7, 0, 0, 0], 3 \<mapsto> [2, 0, 0, 0]] k))"
    using nlattr_roundtrip [OF h d n _ sz, of 57 8, unfolded keys] by fastforce
  have r0: "r = 0" using r(2) by (simp add: REQ_SIZE_def)
  from p [OF this] obtain tb q itb where t: "libbpf_nla_parse req' 57 32 32 None = Some (0, tb)" "tb ! 43 = Some q"
      "libbpf_nla_parse_nested req' 8 q None = Some (0, itb)"
      and e: "\<And>k. k \<le> 57 \<Longrightarrow> k \<noteq> 43 \<Longrightarrow> entry_is req' (tb ! k) ([3 \<mapsto> [101, 116, 104, 48, 0]] k)"
        "\<And>k. k \<le> 8 \<Longrightarrow> entry_is req' (itb ! k) ([1 \<mapsto> [7, 0, 0, 0], 3 \<mapsto> [2, 0, 0, 0]] k)"
    unfolding of_nat_numeral by blast
  have "entry_is req' (tb ! 3) (Some [101, 116, 104, 48, 0])" "entry_is req' (tb ! 4) None"
      "entry_is req' (itb ! 1) (Some [7, 0, 0, 0])" "entry_is req' (itb ! 3) (Some [2, 0, 0, 0])"
    using e(1) [of 3] e(1) [of 4] e(2) [of 1] e(2) [of 3] by simp_all
  then show ?thesis using r(1) r0 t by blast
qed

end
