(* ===== verification/Libbpf_Netlink.thy ===== *)
theory Libbpf_Netlink
  imports Libbpf_Nlattr
begin

unbundle bit_operations_syntax

section \<open>Talking to the kernel about interfaces\<close>

text \<open>
  \<open>lib/libbpf/src/netlink.c\<close>: sending a request over a netlink socket and reading the answers, and attaching XDP programs to
  interfaces and querying them this way. What the kernel does is a parameter: the results of the system calls and the
  datagrams that answer a request. Shown are that every call closes its socket and frees its buffer, that the request to attach a
  program says what the caller asked for, and that a query returns what the kernel's answer says about the interface.
\<close>

abbreviation (input) EINTR :: int where "EINTR \<equiv> 4"
abbreviation (input) LIBBPF_ERRNO__INTERNAL :: int where "LIBBPF_ERRNO__INTERNAL \<equiv> 4004"
abbreviation (input) LIBBPF_ERRNO__WRNGPID :: int where "LIBBPF_ERRNO__WRNGPID \<equiv> 4010"
abbreviation (input) LIBBPF_ERRNO__INVSEQ :: int where "LIBBPF_ERRNO__INVSEQ \<equiv> 4011"
abbreviation (input) LIBBPF_ERRNO__NLPARSE :: int where "LIBBPF_ERRNO__NLPARSE \<equiv> 4012"
abbreviation (input) NLM_F_REQUEST :: u16 where "NLM_F_REQUEST \<equiv> 1"
abbreviation (input) NLM_F_MULTI :: u16 where "NLM_F_MULTI \<equiv> 2"
abbreviation (input) NLM_F_ACK :: u16 where "NLM_F_ACK \<equiv> 4"
abbreviation (input) NLM_F_DUMP :: u16 where "NLM_F_DUMP \<equiv> 0x300"
abbreviation (input) NLMSG_ERROR :: u16 where "NLMSG_ERROR \<equiv> 2"
abbreviation (input) NLMSG_DONE :: u16 where "NLMSG_DONE \<equiv> 3"
abbreviation (input) NETLINK_ROUTE :: int where "NETLINK_ROUTE \<equiv> 0"
abbreviation (input) NETLINK_GENERIC :: int where "NETLINK_GENERIC \<equiv> 16"
abbreviation (input) RTM_GETLINK :: u16 where "RTM_GETLINK \<equiv> 18"
abbreviation (input) RTM_SETLINK :: u16 where "RTM_SETLINK \<equiv> 19"
abbreviation (input) AF_PACKET :: u8 where "AF_PACKET \<equiv> 17"
abbreviation (input) IFLA_XDP :: nat where "IFLA_XDP \<equiv> 43"
abbreviation (input) IFLA_MAX :: nat where "IFLA_MAX \<equiv> 60"
abbreviation (input) IFLA_XDP_FD :: nat where "IFLA_XDP_FD \<equiv> 1"
abbreviation (input) IFLA_XDP_ATTACHED :: nat where "IFLA_XDP_ATTACHED \<equiv> 2"
abbreviation (input) IFLA_XDP_FLAGS :: nat where "IFLA_XDP_FLAGS \<equiv> 3"
abbreviation (input) IFLA_XDP_PROG_ID :: nat where "IFLA_XDP_PROG_ID \<equiv> 4"
abbreviation (input) IFLA_XDP_DRV_PROG_ID :: nat where "IFLA_XDP_DRV_PROG_ID \<equiv> 5"
abbreviation (input) IFLA_XDP_SKB_PROG_ID :: nat where "IFLA_XDP_SKB_PROG_ID \<equiv> 6"
abbreviation (input) IFLA_XDP_HW_PROG_ID :: nat where "IFLA_XDP_HW_PROG_ID \<equiv> 7"
abbreviation (input) IFLA_XDP_EXPECTED_FD :: nat where "IFLA_XDP_EXPECTED_FD \<equiv> 8"
abbreviation (input) IFLA_XDP_MAX :: nat where "IFLA_XDP_MAX \<equiv> 8"
abbreviation (input) XDP_ATTACHED_NONE :: u8 where "XDP_ATTACHED_NONE \<equiv> 0"
abbreviation (input) XDP_ATTACHED_MULTI :: u8 where "XDP_ATTACHED_MULTI \<equiv> 4"
abbreviation (input) F_SKB_MODE :: u32 where "F_SKB_MODE \<equiv> 2"
abbreviation (input) F_DRV_MODE :: u32 where "F_DRV_MODE \<equiv> 4"
abbreviation (input) F_HW_MODE :: u32 where "F_HW_MODE \<equiv> 8"
abbreviation (input) F_REPLACE :: u32 where "F_REPLACE \<equiv> 16"
abbreviation (input) F_MODES :: u32 where "F_MODES \<equiv> 14"
abbreviation (input) F_MASK :: u32 where "F_MASK \<equiv> 31"

text \<open>What a call comes to: a fault, waiting for the kernel for ever, or a result.\<close>

datatype 'a outcome = Fault | Waits | Ret 'a

subsection \<open>Sockets\<close>

text \<open>
  A datagram with the errors the two calls of \<open>recvmsg\<close> give before it (the first one looks at its length, the second one
  takes it), and whether a larger buffer can be had for it. Bytes of the buffer behind the datagram are not initialised, so reading
  them counts as a fault.
\<close>

record dgram =
  dg_bytes :: "u8 list"
  dg_peek_errs :: "int list"
  dg_recv_errs :: "int list"
  dg_realloc :: bool

text \<open>
  The results of the calls for one socket: error numbers, or none. \<open>ns_answer\<close> is what the kernel sends in answer to a
  message for a protocol. The process counts its open sockets and allocated buffers and keeps what it has sent.
\<close>

record nl_sys =
  ns_socket :: "int option"
  ns_bind :: "int option"
  ns_getsockname :: "int option"
  ns_addrlen :: nat
  ns_pid :: u32
  ns_time :: int
  ns_send :: "int option"
  ns_malloc :: bool
  ns_answer :: "int \<Rightarrow> u8 list \<Rightarrow> dgram list"

record nl_world =
  nw_fds :: int
  nw_heap :: int
  nw_sent :: "(int \<times> u8 list) list"

definition libbpf_netlink_close :: "nl_world \<Rightarrow> nl_world" where
  "libbpf_netlink_close w = w\<lparr>nw_fds := nw_fds w - 1\<rparr>"

definition libbpf_netlink_open :: "nl_sys \<Rightarrow> nl_world \<Rightarrow> (int + u32) \<times> nl_world" where
  "libbpf_netlink_open sys w =
     (case ns_socket sys of
        Some e \<Rightarrow> (Inl (- e), w)
      | None \<Rightarrow>
          let w = w\<lparr>nw_fds := nw_fds w + 1\<rparr> in
          (case ns_bind sys of
             Some e \<Rightarrow> (Inl (- e), libbpf_netlink_close w)
           | None \<Rightarrow>
               (case ns_getsockname sys of
                  Some e \<Rightarrow> (Inl (- e), libbpf_netlink_close w)
                | None \<Rightarrow>
                    if ns_addrlen sys \<noteq> 12 then (Inl (- LIBBPF_ERRNO__INTERNAL), libbpf_netlink_close w)
                    else (Inr (ns_pid sys), w))))"

fun netlink_recvmsg :: "int list \<Rightarrow> int \<Rightarrow> int" where
  "netlink_recvmsg [] len = len"
| "netlink_recvmsg (e # es) len = (if e = EINTR \<or> e = EAGAIN then netlink_recvmsg es len else - e)"

text \<open>The messages of one datagram: the loop ends the call, starts over with the next datagram, or runs through.\<close>

datatype 'c msgs_out = Stop int 'c | Start 'c | Through bool 'c

definition NLMSG_OK :: "u8 list \<Rightarrow> nat \<Rightarrow> int \<Rightarrow> bool option" where
  "NLMSG_OK b nh len =
     (if len \<ge> 16 then do {
        l \<leftarrow> (rd 4 b nh :: u32 option);
        Some (unat l \<ge> 16 \<and> int (unat l) \<le> len)
      } else Some False)"

definition NLMSG_NEXT :: "u8 list \<Rightarrow> nat \<Rightarrow> int \<Rightarrow> (nat \<times> int) option" where
  "NLMSG_NEXT b nh len = do {
     l \<leftarrow> (rd 4 b nh :: u32 option);
     let n = align4 (unat l);
     Some (nh + n, len - int n)
   }"

text \<open>
  The body of the loop at a message: how the loop goes on, where \<open>Through\<close> is going on with the next message. The parser of the
  message is an argument; 0, 1 and 2 are \<open>NL_CONT\<close>, \<open>NL_NEXT\<close> and \<open>NL_DONE\<close>.
\<close>

definition recv_msg ::
  "u32 \<Rightarrow> u32 \<Rightarrow> (u8 list \<Rightarrow> nat \<Rightarrow> 'c \<Rightarrow> (int \<times> 'c) option) option \<Rightarrow> u8 list \<Rightarrow> nat \<Rightarrow> bool \<Rightarrow> 'c \<Rightarrow> 'c msgs_out option" where
  "recv_msg nl_pid sq parse b nh multipart c = do {
     pid \<leftarrow> rd 4 b (nh + 12);
     if pid \<noteq> nl_pid then Some (Stop (- LIBBPF_ERRNO__WRNGPID) c)
     else do {
       s \<leftarrow> rd 4 b (nh + 8);
       if s \<noteq> sq then Some (Stop (- LIBBPF_ERRNO__INVSEQ) c)
       else do {
         fl \<leftarrow> (rd 2 b (nh + 6) :: u16 option);
         let multipart = (multipart \<or> fl AND NLM_F_MULTI \<noteq> 0);
         type \<leftarrow> (rd 2 b (nh + 4) :: u16 option);
         if type = NLMSG_ERROR then do {
           err \<leftarrow> (rd 4 b (nh + 16) :: u32 option);
           if err = 0 then Some (Through multipart c)
           else do {
             _ \<leftarrow> libbpf_nla_dump_errormsg b nh;
             Some (Stop (sint err) c)
           }
         }
         else if type = NLMSG_DONE then Some (Stop 0 c)
         else
           (case parse of
              None \<Rightarrow> Some (Through multipart c)
            | Some f \<Rightarrow> do {
                (ret, c) \<leftarrow> f b nh c;
                Some (if ret = 0 then Through multipart c else if ret = 1 then Start c else if ret = 2 then Stop 0 c else Stop ret c)
              })
       }
     }
   }"

lemma NLMSG_NEXT_less:
  assumes "NLMSG_OK b nh len = Some True" "NLMSG_NEXT b nh len = Some (nh', len')"
  shows "0 < len" "len' < len"
proof -
  obtain l :: u32 where l: "rd 4 b nh = Some l" "16 \<le> unat l" "16 \<le> len"
    using assms(1) by (auto simp: NLMSG_OK_def bind_eq_Some_conv split: if_split_asm)
  show "0 < len" using l(3) by simp
  have "len' = len - int (align4 (unat l))" using assms(2) l(1) by (simp add: NLMSG_NEXT_def Let_def)
  moreover have "unat l \<le> align4 (unat l)" by (rule align4_bounds)
  ultimately show "len' < len" using l(2) by linarith
qed

function recv_msgs ::
  "u32 \<Rightarrow> u32 \<Rightarrow> (u8 list \<Rightarrow> nat \<Rightarrow> 'c \<Rightarrow> (int \<times> 'c) option) option \<Rightarrow> u8 list \<Rightarrow> nat \<Rightarrow> int \<Rightarrow> bool \<Rightarrow> 'c \<Rightarrow> 'c msgs_out option" where
  "recv_msgs nl_pid sq parse b nh len multipart c =
     (case NLMSG_OK b nh len of
        None \<Rightarrow> None
      | Some False \<Rightarrow> Some (Through multipart c)
      | Some True \<Rightarrow>
          (case recv_msg nl_pid sq parse b nh multipart c of
             None \<Rightarrow> None
           | Some (Through multipart c) \<Rightarrow>
               (case NLMSG_NEXT b nh len of
                  None \<Rightarrow> None
                | Some (nh, len) \<Rightarrow> recv_msgs nl_pid sq parse b nh len multipart c)
           | Some r \<Rightarrow> Some r))"
  by pat_completeness auto
termination
  by (relation "measure (\<lambda>(nl_pid, sq, parse, b, nh, len, multipart, c). nat len)")
    (auto dest: NLMSG_NEXT_less(1) [OF _ sym] NLMSG_NEXT_less(2) [OF _ sym] simp: prod_eq_iff)

declare recv_msgs.simps [simp del]

text \<open>
  The loop over datagrams with a buffer of \<open>iov_len\<close> bytes, and \<open>libbpf_netlink_recv\<close>, which frees the buffer on every path. The
  call for a datagram longer than the buffer needs a larger one.
\<close>

fun recv_loop ::
  "u32 \<Rightarrow> u32 \<Rightarrow> (u8 list \<Rightarrow> nat \<Rightarrow> 'c \<Rightarrow> (int \<times> 'c) option) option \<Rightarrow> nat \<Rightarrow> dgram list \<Rightarrow> 'c \<Rightarrow> (int \<times> 'c) outcome" where
  "recv_loop nl_pid sq parse iov_len [] c = Waits"
| "recv_loop nl_pid sq parse iov_len (d # ds) c =
     (let len = netlink_recvmsg (dg_peek_errs d) (int (length (dg_bytes d))) in
      if len < 0 then Ret (len, c)
      else if len > int iov_len \<and> \<not> dg_realloc d then Ret (- ENOMEM, c)
      else
        let iov_len = (if len > int iov_len then nat len else iov_len);
            len = netlink_recvmsg (dg_recv_errs d) (int (length (dg_bytes d))) in
        if len < 0 then Ret (len, c)
        else if len = 0 then Ret (0, c)
        else
          (case recv_msgs nl_pid sq parse (dg_bytes d) 0 len False c of
             None \<Rightarrow> Fault
           | Some (Stop r c) \<Rightarrow> Ret (r, c)
           | Some (Start c) \<Rightarrow> recv_loop nl_pid sq parse iov_len ds c
           | Some (Through multipart c) \<Rightarrow> if multipart then recv_loop nl_pid sq parse iov_len ds c else Ret (0, c)))"

definition alloc_iov :: "bool \<Rightarrow> nl_world \<Rightarrow> int \<times> nl_world" where
  "alloc_iov ok w = (if ok then (0, w\<lparr>nw_heap := nw_heap w + 1\<rparr>) else (- ENOMEM, w))"

definition libbpf_netlink_recv ::
  "nl_sys \<Rightarrow> u32 \<Rightarrow> u32 \<Rightarrow> (u8 list \<Rightarrow> nat \<Rightarrow> 'c \<Rightarrow> (int \<times> 'c) option) option \<Rightarrow> dgram list \<Rightarrow> 'c \<Rightarrow> nl_world \<Rightarrow> (int \<times> 'c \<times> nl_world) outcome" where
  "libbpf_netlink_recv sys nl_pid sq parse ds c w =
     (case alloc_iov (ns_malloc sys) w of
        (ret, w) \<Rightarrow>
          if ret \<noteq> 0 then Ret (ret, c, w)
          else
            (case recv_loop nl_pid sq parse 4096 ds c of
               Fault \<Rightarrow> Fault
             | Waits \<Rightarrow> Waits
             | Ret (r, c) \<Rightarrow> Ret (r, c, w\<lparr>nw_heap := nw_heap w - 1\<rparr>)))"

text \<open>The sequence number and the port are set in the request, and as many bytes of it are sent as its length says.\<close>

definition libbpf_netlink_send_recv ::
  "nl_sys \<Rightarrow> u8 list \<Rightarrow> int \<Rightarrow> (u8 list \<Rightarrow> nat \<Rightarrow> 'c \<Rightarrow> (int \<times> 'c) option) option \<Rightarrow> 'c \<Rightarrow> nl_world \<Rightarrow> (int \<times> 'c \<times> nl_world) outcome" where
  "libbpf_netlink_send_recv sys req proto parse c w =
     (case libbpf_netlink_open sys w of
        (Inl e, w) \<Rightarrow> Ret (e, c, w)
      | (Inr nl_pid, w) \<Rightarrow>
          let sq = of_int (ns_time sys) :: u32;
              req = patch 8 (le_enc 4 sq) (patch 12 (le_enc 4 (0 :: u32)) req) in
          (case (rd 4 req 0 :: u32 option) of
             None \<Rightarrow> Fault
           | Some l \<Rightarrow>
               if unat l > length req then Fault
               else
                 let msg = take (unat l) req in
                 (case ns_send sys of
                    Some e \<Rightarrow> Ret (- e, c, libbpf_netlink_close w)
                  | None \<Rightarrow>
                      (case libbpf_netlink_recv sys nl_pid sq parse (ns_answer sys proto msg) c (w\<lparr>nw_sent := nw_sent w @ [(proto, msg)]\<rparr>) of
                         Fault \<Rightarrow> Fault
                       | Waits \<Rightarrow> Waits
                       | Ret (r, c, w) \<Rightarrow> Ret (r, c, libbpf_netlink_close w)))))"

subsection \<open>Attaching XDP programs\<close>

text \<open>
  An empty request: the length of header and family header, the type and the flags, and zeros. Structures for options begin with their
  size; the model has that size and whether the bytes behind the fields the library knows are zero.
\<close>

definition new_req :: "u32 \<Rightarrow> u16 \<Rightarrow> u16 \<Rightarrow> u8 list" where
  "new_req len type fl = patch 6 (le_enc 2 fl) (patch 4 (le_enc 2 type) (patch 0 (le_enc 4 len) (replicate REQ_SIZE 0)))"

record opts_hdr =
  o_sz :: nat
  o_tail_zero :: bool

definition OPTS_VALID :: "('a opts_hdr_scheme) option \<Rightarrow> nat \<Rightarrow> bool" where
  "OPTS_VALID opts known = (case opts of None \<Rightarrow> True | Some p \<Rightarrow> o_sz p \<ge> 8 \<and> (o_sz p > known \<longrightarrow> o_tail_zero p))"

definition OPTS_GET :: "('a opts_hdr_scheme) option \<Rightarrow> nat \<Rightarrow> ('a opts_hdr_scheme \<Rightarrow> 'b) \<Rightarrow> 'b \<Rightarrow> 'b" where
  "OPTS_GET opts fend field fallback = (case opts of None \<Rightarrow> fallback | Some p \<Rightarrow> if o_sz p \<ge> fend then field p else fallback)"

record bpf_xdp_attach_opts = opts_hdr +
  old_prog_fd :: int

definition xdp_fd_request :: "int \<Rightarrow> int \<Rightarrow> int \<Rightarrow> u32 \<Rightarrow> (int \<times> u8 list) option" where
  "xdp_fd_request ifindex fd old_fd flags = do {
     let req = patch 20 (le_enc 4 (of_int ifindex :: u32)) (new_req 32 RTM_SETLINK (NLM_F_REQUEST OR NLM_F_ACK));
     (nla, req) \<leftarrow> nlattr_begin_nested req (int IFLA_XDP);
     case nla of
       None \<Rightarrow> Some (- EMSGSIZE, req)
     | Some tail \<Rightarrow> do {
         (ret, req) \<leftarrow> nlattr_add req (int IFLA_XDP_FD) (Some (le_enc 4 (of_int fd :: u32))) 4;
         if ret < 0 then Some (ret, req)
         else do {
           (ret, req) \<leftarrow> (if flags \<noteq> 0 then nlattr_add req (int IFLA_XDP_FLAGS) (Some (le_enc 4 flags)) 4 else Some (ret, req));
           if ret < 0 then Some (ret, req)
           else do {
             (ret, req) \<leftarrow> (if flags AND F_REPLACE \<noteq> 0
                            then nlattr_add req (int IFLA_XDP_EXPECTED_FD) (Some (le_enc 4 (of_int old_fd :: u32))) 4 else Some (ret, req));
             if ret < 0 then Some (ret, req)
             else do { req \<leftarrow> nlattr_end_nested req tail; Some (0, req) }
           }
         }
       }
   }"

definition set_link_xdp_fd_replace :: "nl_sys \<Rightarrow> int \<Rightarrow> int \<Rightarrow> int \<Rightarrow> u32 \<Rightarrow> nl_world \<Rightarrow> (int \<times> nl_world) outcome" where
  "set_link_xdp_fd_replace sys ifindex fd old_fd flags w =
     (case xdp_fd_request ifindex fd old_fd flags of
        None \<Rightarrow> Fault
      | Some (ret, req) \<Rightarrow>
          if ret < 0 then Ret (ret, w)
          else
            (case libbpf_netlink_send_recv sys req NETLINK_ROUTE None () w of
               Fault \<Rightarrow> Fault
             | Waits \<Rightarrow> Waits
             | Ret (r, c, w) \<Rightarrow> Ret (r, w)))"

definition bpf_xdp_attach :: "nl_sys \<Rightarrow> int \<Rightarrow> int \<Rightarrow> u32 \<Rightarrow> bpf_xdp_attach_opts option \<Rightarrow> nl_world \<Rightarrow> (int \<times> nl_world) outcome" where
  "bpf_xdp_attach sys ifindex prog_fd flags opts w =
     (if \<not> OPTS_VALID opts 12 then Ret (- EINVAL, w)
      else
        let old = OPTS_GET opts 12 old_prog_fd 0;
            flags = (if old \<noteq> 0 then flags OR F_REPLACE else flags);
            old = (if old \<noteq> 0 then old else - 1) in
        set_link_xdp_fd_replace sys ifindex prog_fd old flags w)"

definition bpf_xdp_detach :: "nl_sys \<Rightarrow> int \<Rightarrow> u32 \<Rightarrow> bpf_xdp_attach_opts option \<Rightarrow> nl_world \<Rightarrow> (int \<times> nl_world) outcome" where
  "bpf_xdp_detach sys ifindex flags opts w = bpf_xdp_attach sys ifindex (- 1) flags opts w"

subsection \<open>Querying XDP programs\<close>

record xdp_link_info =
  xi_prog_id :: u32
  xi_drv_prog_id :: u32
  xi_hw_prog_id :: u32
  xi_skb_prog_id :: u32
  xi_attach_mode :: u8

record xdp_id_md =
  md_ifindex :: int
  md_flags :: u32
  md_info :: xdp_link_info
  md_feature_flags :: u64

record xdp_features_md =
  mf_ifindex :: int
  mf_flags :: u64

text \<open>The attributes of a link, at \<open>ifi\<close>, are handed to \<open>get_xdp_info\<close> as an index; \<open>ifi_index\<close> is at 4.\<close>

definition set_id :: "u8 list \<Rightarrow> nat option \<Rightarrow> (u32 \<Rightarrow> xdp_link_info \<Rightarrow> xdp_link_info) \<Rightarrow> xdp_link_info \<Rightarrow> xdp_link_info option" where
  "set_id b e upd i = (case e of None \<Rightarrow> Some i | Some a \<Rightarrow> do { x \<leftarrow> libbpf_nla_getattr_u32 b a; Some (upd x i) })"

definition get_xdp_info :: "u8 list \<Rightarrow> nat \<Rightarrow> nat option list \<Rightarrow> xdp_id_md \<Rightarrow> (int \<times> xdp_id_md) option" where
  "get_xdp_info b ifi tb md = do {
     idx \<leftarrow> (rd 4 b (ifi + 4) :: u32 option);
     if md_ifindex md \<noteq> 0 \<and> md_ifindex md \<noteq> sint idx then Some (0, md)
     else
       (case tb ! IFLA_XDP of
          None \<Rightarrow> Some (0, md)
        | Some x \<Rightarrow> do {
            (ret, xtb) \<leftarrow> libbpf_nla_parse_nested b IFLA_XDP_MAX x None;
            if ret \<noteq> 0 then Some (ret, md)
            else
              (case xtb ! IFLA_XDP_ATTACHED of
                 None \<Rightarrow> Some (0, md)
               | Some a \<Rightarrow> do {
                   mode \<leftarrow> libbpf_nla_getattr_u8 b a;
                   let i = md_info md\<lparr>xi_attach_mode := mode\<rparr>;
                   if mode = XDP_ATTACHED_NONE then Some (0, md\<lparr>md_info := i\<rparr>)
                   else do {
                     i \<leftarrow> set_id b (xtb ! IFLA_XDP_PROG_ID) (\<lambda>x i. i\<lparr>xi_prog_id := x\<rparr>) i;
                     i \<leftarrow> set_id b (xtb ! IFLA_XDP_SKB_PROG_ID) (\<lambda>x i. i\<lparr>xi_skb_prog_id := x\<rparr>) i;
                     i \<leftarrow> set_id b (xtb ! IFLA_XDP_DRV_PROG_ID) (\<lambda>x i. i\<lparr>xi_drv_prog_id := x\<rparr>) i;
                     i \<leftarrow> set_id b (xtb ! IFLA_XDP_HW_PROG_ID) (\<lambda>x i. i\<lparr>xi_hw_prog_id := x\<rparr>) i;
                     Some (0, md\<lparr>md_info := i\<rparr>)
                   }
                 })
          })
   }"

definition dump_link_nlmsg :: "u8 list \<Rightarrow> nat \<Rightarrow> xdp_id_md \<Rightarrow> (int \<times> xdp_id_md) option" where
  "dump_link_nlmsg b nlh md = do {
     l \<leftarrow> (rd 4 b nlh :: u32 option);
     let len = sint (l - 32);
     (ret, tb) \<leftarrow> libbpf_nla_parse b IFLA_MAX (nlh + 16 + 16) len None;
     if ret \<noteq> 0 then Some (- LIBBPF_ERRNO__NLPARSE, md) else get_xdp_info b (nlh + 16) tb md
   }"

text \<open>
  Generic netlink: the number of a family is looked up by its name first. The family header has four bytes; \<open>id\<close> and the
  feature flags are only written when the answer has them.
\<close>

definition parse_genl_family_id :: "u8 list \<Rightarrow> nat \<Rightarrow> u16 \<Rightarrow> (int \<times> u16) option" where
  "parse_genl_family_id b nh i = do {
     l \<leftarrow> (rd 4 b nh :: u32 option);
     (_, tb) \<leftarrow> libbpf_nla_parse b 1 (nh + 16 + 4) (sint (l - 20)) None;
     case tb ! 1 of
       None \<Rightarrow> Some (0, i)
     | Some a \<Rightarrow> do { x \<leftarrow> libbpf_nla_getattr_u16 b a; Some (2, x) }
   }"

definition resolve_genl_family_id :: "nl_sys \<Rightarrow> u8 list \<Rightarrow> u16 \<Rightarrow> u16 \<Rightarrow> nl_world \<Rightarrow> (int \<times> u16 \<times> nl_world) outcome" where
  "resolve_genl_family_id sys name len i w =
     (let req = patch 16 [3, 2] (new_req 20 0x10 NLM_F_REQUEST) in
      case nlattr_add req 2 (Some name) (uint len) of
        None \<Rightarrow> Fault
      | Some (err, req) \<Rightarrow>
          if err < 0 then Ret (err, i, w)
          else libbpf_netlink_send_recv sys req NETLINK_GENERIC (Some parse_genl_family_id) i w)"

definition parse_xdp_features :: "u8 list \<Rightarrow> nat \<Rightarrow> xdp_features_md \<Rightarrow> (int \<times> xdp_features_md) option" where
  "parse_xdp_features b nh md = do {
     l \<leftarrow> (rd 4 b nh :: u32 option);
     (_, tb) \<leftarrow> libbpf_nla_parse b 4 (nh + 16 + 4) (sint (l - 20)) None;
     case (tb ! 1, tb ! 3) of
       (Some ia, Some fa) \<Rightarrow> do {
         ifindex \<leftarrow> libbpf_nla_getattr_u32 b ia;
         if ifindex \<noteq> of_int (mf_ifindex md) then Some (0, md)
         else do { x \<leftarrow> libbpf_nla_getattr_u64 b fa; Some (2, md\<lparr>mf_flags := x\<rparr>) }
       }
     | _ \<Rightarrow> Some (0, md)
   }"

record bpf_xdp_query_opts = opts_hdr +
  q_prog_id :: u32
  q_drv_prog_id :: u32
  q_hw_prog_id :: u32
  q_skb_prog_id :: u32
  q_attach_mode :: u8
  q_feature_flags :: u64

definition OPTS_SET :: "nat \<Rightarrow> ('a opts_hdr_scheme \<Rightarrow> 'a opts_hdr_scheme) \<Rightarrow> ('a opts_hdr_scheme) option \<Rightarrow> ('a opts_hdr_scheme) option" where
  "OPTS_SET fend upd = map_option (\<lambda>p. if o_sz p \<ge> fend then upd p else p)"

definition set_xdp_info :: "xdp_link_info \<Rightarrow> bpf_xdp_query_opts option \<Rightarrow> bpf_xdp_query_opts option" where
  "set_xdp_info i opts =
     OPTS_SET 25 (q_attach_mode_update (\<lambda>_. xi_attach_mode i))
       (OPTS_SET 24 (q_skb_prog_id_update (\<lambda>_. xi_skb_prog_id i))
         (OPTS_SET 20 (q_hw_prog_id_update (\<lambda>_. xi_hw_prog_id i))
           (OPTS_SET 16 (q_drv_prog_id_update (\<lambda>_. xi_drv_prog_id i))
             (OPTS_SET 12 (q_prog_id_update (\<lambda>_. xi_prog_id i)) opts))))"

definition zero_info :: xdp_link_info where
  "zero_info = \<lparr>xi_prog_id = 0, xi_drv_prog_id = 0, xi_hw_prog_id = 0, xi_skb_prog_id = 0, xi_attach_mode = 0\<rparr>"

text \<open>The name of the family that knows the features, with its terminating zero.\<close>

definition netdev_name :: "u8 list" where
  "netdev_name = [110, 101, 116, 100, 101, 118, 0]"

text \<open>The second half of \<open>bpf_xdp_query\<close>, where \<open>i0\<close> is what the variable for the number of the family holds at the start.\<close>

definition query_features ::
  "nl_sys \<Rightarrow> nl_sys \<Rightarrow> u16 \<Rightarrow> int \<Rightarrow> bpf_xdp_query_opts option \<Rightarrow> nl_world \<Rightarrow> (int \<times> bpf_xdp_query_opts option \<times> nl_world) outcome" where
  "query_features sys1 sys2 i0 ifindex opts w =
     (case resolve_genl_family_id sys1 netdev_name 7 i0 w of
        Fault \<Rightarrow> Fault
      | Waits \<Rightarrow> Waits
      | Ret (err, i, w) \<Rightarrow>
          if err < 0 then
            (if err = - ENOENT then Ret (0, map_option (q_feature_flags_update (\<lambda>_. 0)) opts, w) else Ret (err, opts, w))
          else
            let req = patch 16 [1, 2] (new_req 20 i NLM_F_REQUEST) in
            (case nlattr_add req 1 (Some (le_enc 4 (of_int ifindex :: u32))) 4 of
               None \<Rightarrow> Fault
             | Some (err, req) \<Rightarrow>
                 if err < 0 then Ret (err, opts, w)
                 else
                   (case libbpf_netlink_send_recv sys2 req NETLINK_GENERIC (Some parse_xdp_features) \<lparr>mf_ifindex = ifindex, mf_flags = 0\<rparr> w of
                      Fault \<Rightarrow> Fault
                    | Waits \<Rightarrow> Waits
                    | Ret (err, md, w) \<Rightarrow>
                        if err \<noteq> 0 then Ret (err, opts, w)
                        else Ret (0, map_option (q_feature_flags_update (\<lambda>_. mf_flags md)) opts, w))))"

definition bpf_xdp_query ::
  "nl_sys \<Rightarrow> nl_sys \<Rightarrow> nl_sys \<Rightarrow> u16 \<Rightarrow> int \<Rightarrow> u32 \<Rightarrow> bpf_xdp_query_opts option \<Rightarrow> nl_world \<Rightarrow>
   (int \<times> bpf_xdp_query_opts option \<times> nl_world) outcome" where
  "bpf_xdp_query sys0 sys1 sys2 i0 ifindex xdp_flags opts w =
     (if \<not> OPTS_VALID opts 40 then Ret (- EINVAL, opts, w)
      else if xdp_flags AND NOT F_MASK \<noteq> 0 then Ret (- EINVAL, opts, w)
      else
        let xdp_flags = xdp_flags AND F_MODES in
        if xdp_flags AND (xdp_flags - 1) \<noteq> 0 then Ret (- EINVAL, opts, w)
        else
          let req = patch 16 [AF_PACKET] (new_req 32 RTM_GETLINK (NLM_F_DUMP OR NLM_F_REQUEST));
              md = \<lparr>md_ifindex = ifindex, md_flags = xdp_flags, md_info = zero_info, md_feature_flags = 0\<rparr> in
          (case libbpf_netlink_send_recv sys0 req NETLINK_ROUTE (Some dump_link_nlmsg) md w of
             Fault \<Rightarrow> Fault
           | Waits \<Rightarrow> Waits
           | Ret (err, md, w) \<Rightarrow>
               if err \<noteq> 0 then Ret (err, opts, w)
               else
                 let opts = set_xdp_info (md_info md) opts in
                 (case opts of
                    None \<Rightarrow> Ret (0, opts, w)
                  | Some p \<Rightarrow> if o_sz p < 40 then Ret (0, opts, w) else query_features sys1 sys2 i0 ifindex opts w)))"

text \<open>The number of the program is only written if the query succeeds.\<close>

definition zero_query_opts :: bpf_xdp_query_opts where
  "zero_query_opts = \<lparr>o_sz = 40, o_tail_zero = True, q_prog_id = 0, q_drv_prog_id = 0, q_hw_prog_id = 0, q_skb_prog_id = 0,
     q_attach_mode = 0, q_feature_flags = 0\<rparr>"

definition bpf_xdp_query_id ::
  "nl_sys \<Rightarrow> nl_sys \<Rightarrow> nl_sys \<Rightarrow> u16 \<Rightarrow> int \<Rightarrow> u32 \<Rightarrow> nl_world \<Rightarrow> (int \<times> u32 option \<times> nl_world) outcome" where
  "bpf_xdp_query_id sys0 sys1 sys2 i0 ifindex flags w =
     (case bpf_xdp_query sys0 sys1 sys2 i0 ifindex flags (Some zero_query_opts) w of
        Fault \<Rightarrow> Fault
      | Waits \<Rightarrow> Waits
      | Ret (ret, None, w) \<Rightarrow> Fault
      | Ret (ret, Some p, w) \<Rightarrow>
          if ret \<noteq> 0 then Ret (ret, None, w)
          else
            let flags = flags AND F_MODES in
            Ret (0, Some (if q_attach_mode p \<noteq> XDP_ATTACHED_MULTI \<and> flags = 0 then q_prog_id p
                          else if flags AND F_DRV_MODE \<noteq> 0 then q_drv_prog_id p
                          else if flags AND F_HW_MODE \<noteq> 0 then q_hw_prog_id p
                          else if flags AND F_SKB_MODE \<noteq> 0 then q_skb_prog_id p else 0), w))"

subsection \<open>Nothing is left open\<close>

text \<open>What a call keeps: the open sockets and allocated buffers.\<close>

abbreviation same_res :: "nl_world \<Rightarrow> nl_world \<Rightarrow> bool" where
  "same_res w w' \<equiv> nw_fds w' = nw_fds w \<and> nw_heap w' = nw_heap w"

lemma send_recv_balanced:
  "libbpf_netlink_send_recv sys req proto parse c w = Ret (r, c', w') \<Longrightarrow> same_res w w'"
  by (auto simp: libbpf_netlink_send_recv_def libbpf_netlink_open_def libbpf_netlink_recv_def alloc_iov_def libbpf_netlink_close_def Let_def
    split: option.splits if_split_asm outcome.splits prod.splits)

lemma set_link_balanced: "set_link_xdp_fd_replace sys ifindex fd old flags w = Ret (r, w') \<Longrightarrow> same_res w w'"
  by (auto simp: set_link_xdp_fd_replace_def split: option.splits prod.splits if_split_asm outcome.splits dest: send_recv_balanced)

lemma resolve_balanced: "resolve_genl_family_id sys name len i w = Ret (r, i', w') \<Longrightarrow> same_res w w'"
  by (auto simp: resolve_genl_family_id_def Let_def split: option.splits prod.splits if_split_asm dest: send_recv_balanced)

lemma features_balanced: "query_features sys1 sys2 i0 ifindex opts w = Ret (r, p, w') \<Longrightarrow> same_res w w'"
  by (auto simp: query_features_def Let_def split: option.splits prod.splits if_split_asm outcome.splits
    dest!: send_recv_balanced resolve_balanced)

lemma query_balanced: "bpf_xdp_query sys0 sys1 sys2 i0 ifindex flags opts w = Ret (r, p, w') \<Longrightarrow> same_res w w'"
  by (auto simp: bpf_xdp_query_def Let_def split: option.splits prod.splits if_split_asm outcome.splits
    dest!: send_recv_balanced features_balanced)

subsection \<open>The request to attach a program\<close>

text \<open>The attributes of the request, and what a message that asks for the change of a program has to say.\<close>

definition xdp_attrs :: "int \<Rightarrow> int \<Rightarrow> u32 \<Rightarrow> (int \<times> u8 list) list" where
  "xdp_attrs fd old_fd flags =
     [(1, le_enc 4 (of_int fd :: u32))] @ (if flags \<noteq> 0 then [(3, le_enc 4 flags)] else []) @
     (if flags AND F_REPLACE \<noteq> 0 then [(8, le_enc 4 (of_int old_fd :: u32))] else [])"

definition xdp_values :: "int \<Rightarrow> int \<Rightarrow> u32 \<Rightarrow> nat \<Rightarrow> u8 list option" where
  "xdp_values fd old_fd flags k =
     (if k = IFLA_XDP_FD then Some (le_enc 4 (of_int fd :: u32))
      else if k = IFLA_XDP_FLAGS \<and> flags \<noteq> 0 then Some (le_enc 4 flags)
      else if k = IFLA_XDP_EXPECTED_FD \<and> flags AND F_REPLACE \<noteq> 0 then Some (le_enc 4 (of_int old_fd :: u32))
      else None)"

definition xdp_request_says :: "u8 list \<Rightarrow> u32 \<Rightarrow> int \<Rightarrow> (nat \<Rightarrow> u8 list option) \<Rightarrow> bool" where
  "xdp_request_says msg sq ifindex vals \<longleftrightarrow>
     rd 4 msg 0 = Some (of_nat (length msg) :: u32) \<and> rd 2 msg 4 = Some RTM_SETLINK \<and> rd 2 msg 6 = Some (NLM_F_REQUEST OR NLM_F_ACK) \<and>
     rd 4 msg 8 = Some sq \<and> rd 4 msg 20 = Some (of_int ifindex :: u32) \<and>
     (\<exists>tb q itb. libbpf_nla_parse msg IFLA_MAX 32 (int (length msg) - 32) None = Some (0, tb) \<and>
        (\<forall>k \<le> IFLA_MAX. k \<noteq> IFLA_XDP \<longrightarrow> tb ! k = None) \<and> tb ! IFLA_XDP = Some q \<and>
        libbpf_nla_parse_nested msg IFLA_XDP_MAX q None = Some (0, itb) \<and> (\<forall>k \<le> IFLA_XDP_MAX. entry_is msg (itb ! k) (vals k)))"

lemma le_enc_4_ne: "le_enc 4 x \<noteq> []"
  by (metis length_le_enc list.size(3) zero_neq_numeral)

lemma xdp_fd_request_nested:
  "xdp_fd_request ifindex fd old_fd flags =
     add_nested (patch 20 (le_enc 4 (of_int ifindex :: u32)) (new_req 32 RTM_SETLINK (NLM_F_REQUEST OR NLM_F_ACK))) 43 (xdp_attrs fd old_fd flags)"
  unfolding xdp_fd_request_def add_nested_def xdp_attrs_def Let_def
  by (cases "flags = 0"; cases "flags AND F_REPLACE = 0") (auto simp: le_enc_4_ne split: bind_split option.split)

lemma new_req_holds: "4 dvd base \<Longrightarrow> 8 \<le> base \<Longrightarrow> base \<le> REQ_SIZE \<Longrightarrow> req_holds (new_req (of_nat base) type fl) base []"
  by (simp add: req_holds_def new_req_def patch_def seg_def REQ_SIZE_def)

lemma new_req_fields:
  "seg 4 2 (new_req len type fl) = le_enc 2 type" "seg 6 2 (new_req len type fl) = le_enc 2 fl" "length (new_req len type fl) = REQ_SIZE"
  by (simp_all add: new_req_def patch_def seg_def REQ_SIZE_def)

lemma wire_xdp_attrs: "map_of (rev (map attr_key (wire (xdp_attrs fd old_fd flags)))) = xdp_values fd old_fd flags"
  by (rule ext) (simp add: xdp_attrs_def xdp_values_def attr_key_def NLA_TYPE_MASK_def)

lemma xdp_request_built:
  defines "A \<equiv> \<lambda>fd old_fd flags. [(of_int (43 OR uint NLA_F_NESTED) :: u16, body (wire (xdp_attrs fd old_fd flags)))]"
  shows "\<exists>req. xdp_fd_request ifindex fd old_fd flags = Some (0, req) \<and> req_holds req 32 (A fd old_fd flags) \<and>
    seg 4 2 req = le_enc 2 RTM_SETLINK \<and> seg 6 2 req = le_enc 2 (NLM_F_REQUEST OR NLM_F_ACK) \<and> seg 20 4 req = le_enc 4 (of_int ifindex :: u32)"
proof -
  let ?req0 = "patch 20 (le_enc 4 (of_int ifindex :: u32)) (new_req 32 RTM_SETLINK (NLM_F_REQUEST OR NLM_F_ACK))"
  have h: "req_holds ?req0 32 []" using new_req_holds [of 32] by (intro req_holds_patch) (simp_all add: REQ_SIZE_def)
  have small: "data_small (xdp_attrs fd old_fd flags)" by (auto simp: data_small_def xdp_attrs_def)
  have "length (body (wire (xdp_attrs fd old_fd flags))) \<le> 24" by (simp add: xdp_attrs_def align4_def)
  then obtain req where r: "xdp_fd_request ifindex fd old_fd flags = Some (0, req)" "req_holds req 32 (A fd old_fd flags)"
      "seg 4 28 req = seg 4 28 ?req0"
    using add_nested_run [OF h small, of 43] unfolding xdp_fd_request_nested A_def by (auto simp: REQ_SIZE_def)
  have len: "length req = REQ_SIZE" using r(2) by (simp add: req_holds_def)
  have f: "seg (4 + q) m req = seg (4 + q) m ?req0" if "q + m \<le> 28" for q m
    using seg_seg [OF that, of 4 req] seg_seg [OF that, of 4 ?req0] r(3) len by (simp add: new_req_fields REQ_SIZE_def)
  have "seg 4 2 ?req0 = le_enc 2 RTM_SETLINK" "seg 6 2 ?req0 = le_enc 2 (NLM_F_REQUEST OR NLM_F_ACK)"
      "seg 20 4 ?req0 = le_enc 4 (of_int ifindex :: u32)"
    using new_req_fields [of 32 RTM_SETLINK "NLM_F_REQUEST OR NLM_F_ACK"] by (simp_all add: segs REQ_SIZE_def)
  then show ?thesis using f [of 0 2] f [of 2 2] f [of 16 4] r(1,2) by simp
qed

lemma sent_request:
  assumes "req_holds req 32 A" "A = [(of_int (43 OR uint NLA_F_NESTED) :: u16, body (wire (xdp_attrs fd old_fd flags)))]"
    "seg 4 2 req = le_enc 2 RTM_SETLINK" "seg 6 2 req = le_enc 2 (NLM_F_REQUEST OR NLM_F_ACK)" "seg 20 4 req = le_enc 4 (of_int ifindex :: u32)"
    "R = patch 8 (le_enc 4 sq) (patch 12 (le_enc 4 (0 :: u32)) req)" "n = 32 + length (body A)"
  shows "rd 4 R 0 = Some (of_nat n :: u32)" "n \<le> length R" "n \<le> REQ_SIZE" "xdp_request_says (take n R) sq ifindex (xdp_values fd old_fd flags)"
proof -
  have h: "req_holds R 32 A" unfolding assms(6) using assms(1) by (intro req_holds_patch) simp_all
  have len: "length R = REQ_SIZE" "length req = REQ_SIZE" "n \<le> REQ_SIZE" using h assms(1,7) by (simp_all add: req_holds_def)
  show l: "rd 4 R 0 = Some (of_nat n :: u32)" using req_length [OF h] by (simp add: assms(7))
  show n: "n \<le> length R" "n \<le> REQ_SIZE" using len by simp_all
  have nest: "43 = unat ((of_int (43 OR uint NLA_F_NESTED) :: u16) AND NLA_TYPE_MASK)" by code_simp
  have b: "seg 32 (length (body A)) (take n R) = body A" "32 + length (body A) \<le> length (take n R)" "length (body A) < 2 ^ 16"
    using req_bytes [OF h] n by (simp_all add: assms(7))
  have A: "A = [] @ [(of_int (43 OR uint NLA_F_NESTED) :: u16, body (wire (xdp_attrs fd old_fd flags)))]" using assms(2) by simp
  have sz: "int (length (take n R)) - 32 = int (length (body A))" using n by (simp add: assms(7))
  have "\<exists>tb q itb. libbpf_nla_parse (take n R) IFLA_MAX 32 (int (length (take n R)) - 32) None = Some (0, tb) \<and>
        (\<forall>k \<le> IFLA_MAX. k \<noteq> IFLA_XDP \<longrightarrow> tb ! k = None) \<and> tb ! IFLA_XDP = Some q \<and>
        libbpf_nla_parse_nested (take n R) IFLA_XDP_MAX q None = Some (0, itb) \<and>
        (\<forall>k \<le> IFLA_XDP_MAX. entry_is (take n R) (itb ! k) (xdp_values fd old_fd flags k))"
    using nested_bytes_read [OF A b nest, of IFLA_MAX IFLA_XDP_MAX] unfolding sz wire_xdp_attrs by (simp add: entry_is_def)
  moreover have "seg p m (take n R) = seg p m R" if "p + m \<le> 32" for p m using that by (simp add: assms(7))
  moreover have "seg 4 2 R = le_enc 2 RTM_SETLINK" "seg 6 2 R = le_enc 2 (NLM_F_REQUEST OR NLM_F_ACK)"
      "seg 20 4 R = le_enc 4 (of_int ifindex :: u32)" "seg 8 4 R = le_enc 4 sq" "seg 0 4 R = le_enc 4 (of_nat n :: u32)"
    using h assms(3-5,7) len by (simp_all add: assms(6) segs REQ_SIZE_def req_holds_def)
  ultimately show "xdp_request_says (take n R) sq ifindex (xdp_values fd old_fd flags)"
    using n by (simp add: xdp_request_says_def assms(7) endian)
qed

subsection \<open>Reading answers\<close>

text \<open>A socket that can be opened, used and given a buffer, and a datagram that arrives after interruptions only.\<close>

definition nl_works :: "nl_sys \<Rightarrow> bool" where
  "nl_works sys \<longleftrightarrow> ns_socket sys = None \<and> ns_bind sys = None \<and> ns_getsockname sys = None \<and> ns_addrlen sys = 12 \<and> ns_send sys = None \<and>
     ns_malloc sys"

definition dg_ok :: "dgram \<Rightarrow> bool" where
  "dg_ok d \<longleftrightarrow> set (dg_peek_errs d) \<union> set (dg_recv_errs d) \<subseteq> {EINTR, EAGAIN} \<and> dg_realloc d"

lemma recvmsg_ok: "set es \<subseteq> {EINTR, EAGAIN} \<Longrightarrow> netlink_recvmsg es len = len"
  by (induction es) auto

lemma recv_loop_ok:
  assumes "dg_ok d" "dg_bytes d \<noteq> []"
  shows "\<exists>n'. recv_loop pid sq parse n (d # ds) c =
    (case recv_msgs pid sq parse (dg_bytes d) 0 (int (length (dg_bytes d))) False c of
       None \<Rightarrow> Fault
     | Some (Stop r c) \<Rightarrow> Ret (r, c)
     | Some (Start c) \<Rightarrow> recv_loop pid sq parse n' ds c
     | Some (Through multipart c) \<Rightarrow> if multipart then recv_loop pid sq parse n' ds c else Ret (0, c))"
proof -
  have "netlink_recvmsg (dg_peek_errs d) len = len" "netlink_recvmsg (dg_recv_errs d) len = len" "dg_realloc d" for len
    using assms(1) by (simp_all add: dg_ok_def recvmsg_ok)
  then show ?thesis using assms(2)
    by (intro exI [of _ "if length (dg_bytes d) > n then length (dg_bytes d) else n"]) (simp add: Let_def split: option.split msgs_out.split)
qed

lemma send_recv_works:
  assumes "nl_works sys" "R = patch 8 (le_enc 4 (of_int (ns_time sys) :: u32)) (patch 12 (le_enc 4 (0 :: u32)) req)"
    "rd 4 R 0 = Some (of_nat n :: u32)" "n \<le> length R" "n < 2 ^ 32"
  shows "libbpf_netlink_send_recv sys req proto parse c w =
    (case recv_loop (ns_pid sys) (of_int (ns_time sys)) parse 4096 (ns_answer sys proto (take n R)) c of
       Fault \<Rightarrow> Fault
     | Waits \<Rightarrow> Waits
     | Ret (r, c) \<Rightarrow> Ret (r, c, w\<lparr>nw_sent := nw_sent w @ [(proto, take n R)]\<rparr>))"
proof -
  have "unat (of_nat n :: u32) = n" using assms(5) by (rule unat_of_nat_u32)
  then show ?thesis
    using assms(1,3,4) unfolding libbpf_netlink_send_recv_def Let_def assms(2) [symmetric]
    by (simp add: nl_works_def libbpf_netlink_open_def libbpf_netlink_recv_def libbpf_netlink_close_def alloc_iov_def split: outcome.split)
qed

definition nl_header :: "nat \<Rightarrow> u16 \<Rightarrow> u16 \<Rightarrow> u32 \<Rightarrow> u32 \<Rightarrow> u8 list" where
  "nl_header len type fl sq pid = le_enc 4 (of_nat len :: u32) @ le_enc 2 type @ le_enc 2 fl @ le_enc 4 sq @ le_enc 4 pid"

lemma length_nl_header [simp]: "length (nl_header len type fl sq pid) = 16"
  by (simp add: nl_header_def)

lemma nl_header_fields:
  assumes "seg nh 16 b = nl_header len type fl sq pid" "nh + 16 \<le> length b"
  shows "rd 4 b nh = Some (of_nat len :: u32)" "rd 2 b (nh + 4) = Some type" "rd 2 b (nh + 6) = Some fl"
    "rd 4 b (nh + 8) = Some sq" "rd 4 b (nh + 12) = Some pid"
proof -
  have part: "seg (nh + i) n b = seg i n (nl_header len type fl sq pid)" if "i + n \<le> 16" for i n
    using seg_seg [OF that assms(2)] assms(1) by simp
  show "rd 4 b nh = Some (of_nat len :: u32)" "rd 2 b (nh + 4) = Some type" "rd 2 b (nh + 6) = Some fl"
    "rd 4 b (nh + 8) = Some sq" "rd 4 b (nh + 12) = Some pid"
    using assms(2) part [of 0 4] part [of 4 2] part [of 6 2] part [of 8 4] part [of 12 4]
    by (simp_all add: nl_header_def seg_def endian)
qed

text \<open>The kernel's acknowledgement: the error number, the header of the request, and then what flags say.\<close>

definition ack_msg :: "u32 \<Rightarrow> u32 \<Rightarrow> u16 \<Rightarrow> u32 \<Rightarrow> u8 list \<Rightarrow> u8 list \<Rightarrow> u8 list" where
  "ack_msg pid sq fl err msg rest = nl_header (36 + length rest) NLMSG_ERROR fl sq pid @ le_enc 4 err @ take 16 msg @ rest"

lemma recv_ack:
  assumes "b = ack_msg pid sq fl err msg rest" "length rest < 2 ^ 31 - 36" "rd 4 msg 0 = Some (of_nat (length msg) :: u32)"
    "16 \<le> length msg" "length msg \<le> REQ_SIZE"
  shows "recv_msgs pid sq parse b 0 (int (length b)) False c =
    Some (if err = 0 then Through (fl AND NLM_F_MULTI \<noteq> 0) c else Stop (sint err) c)"
proof -
  define n where "n = 36 + length rest"
  have len: "length b = n" using assms(1,4) by (simp add: ack_msg_def n_def)
  have hd: "seg 0 16 b = nl_header n NLMSG_ERROR fl sq pid" "16 \<le> length b" by (simp_all add: assms(1) ack_msg_def seg_def n_def len)
  note f = nl_header_fields [of 0, simplified, OF hd]
  have n: "unat (of_nat n :: u32) = n" using assms(2) by (intro unat_of_nat_u32) (simp add: n_def)
  have nb: "36 \<le> n" "n < 2 ^ 31" using assms(2) by (simp_all add: n_def)
  have err: "rd 4 b 16 = Some err" using len assms(4) by (simp add: n_def assms(1) ack_msg_def seg_def endian)
  have "seg 20 4 b = seg 0 4 msg" using assms(4) by (simp add: assms(1) ack_msg_def seg_def min_def)
  then have il: "rd 4 b 20 = Some (of_nat (length msg) :: u32)" using len assms(3,4) by (simp add: n_def)
  have ilen: "unat (of_nat (length msg) :: u32) = length msg" using assms(5) by (intro unat_of_nat_u32) (simp add: REQ_SIZE_def)
  obtain e where e: "libbpf_nla_dump_errormsg b 0 = Some (0, e)"
    using dump_errormsg_safe [of b 0 "of_nat n" "of_nat (length msg)"] f(1) il nb assms(4,5) len
    unfolding n ilen REQ_SIZE_def by auto
  have ok: "NLMSG_OK b 0 (int n) = Some True" using f(1) nb by (simp add: NLMSG_OK_def n del: of_nat_unat rd_Some)
  have nx: "NLMSG_NEXT b 0 (int n) = Some (align4 n, int n - int (align4 n))" using f(1) by (simp add: NLMSG_NEXT_def n Let_def del: rd_Some)
  have "NLMSG_OK b (align4 n) (int n - int (align4 n)) = Some False" using align4_bounds(1) [of n] by (simp add: NLMSG_OK_def)
  then have stop: "recv_msgs pid sq parse b (align4 n) (int n - int (align4 n)) mp c = Some (Through mp c)" for mp
    by (simp add: recv_msgs.simps)
  have "recv_msg pid sq parse b 0 False c = Some (if err = 0 then Through (fl AND NLM_F_MULTI \<noteq> 0) c else Stop (sint err) c)"
    using f err e by (simp add: recv_msg_def)
  then show ?thesis unfolding len using ok nx stop by (subst recv_msgs.simps) simp
qed

text \<open>
  C16. Attaching an XDP program asks the kernel for what the caller asked for. The one message that is sent names the interface, and
  the nested attribute has the program, the flags unless there are none, and the program to be replaced exactly if the flags say
  so, and no others. Whatever the kernel answers in its acknowledgement, possibly after interruptions and with an explanation of
  any content, is the result, and the socket is closed and the buffer freed.
\<close>

theorem xdp_attach_acknowledged:
  assumes "OPTS_VALID opts 12" "nl_works sys" "given = OPTS_GET opts 12 old_prog_fd 0" "sq = of_int (ns_time sys)"
  shows "\<exists>msg. xdp_request_says msg sq ifindex
      (if given = 0 then xdp_values prog_fd (- 1) flags else xdp_values prog_fd given (flags OR F_REPLACE)) \<and>
    (\<forall>d fl err rest. ns_answer sys NETLINK_ROUTE msg = [d] \<longrightarrow> dg_ok d \<longrightarrow> dg_bytes d = ack_msg (ns_pid sys) sq fl err msg rest \<longrightarrow>
       fl AND NLM_F_MULTI = 0 \<longrightarrow> length rest < 2 ^ 31 - 36 \<longrightarrow>
       bpf_xdp_attach sys ifindex prog_fd flags opts w = Ret (sint err, w\<lparr>nw_sent := nw_sent w @ [(NETLINK_ROUTE, msg)]\<rparr>))"
proof -
  define old where "old = (if given = 0 then - 1 else given)"
  define flags' where "flags' = (if given = 0 then flags else flags OR F_REPLACE)"
  obtain req where r: "xdp_fd_request ifindex prog_fd old flags' = Some (0, req)"
      "req_holds req 32 [(of_int (43 OR uint NLA_F_NESTED) :: u16, body (wire (xdp_attrs prog_fd old flags')))]"
      "seg 4 2 req = le_enc 2 RTM_SETLINK" "seg 6 2 req = le_enc 2 (NLM_F_REQUEST OR NLM_F_ACK)" "seg 20 4 req = le_enc 4 (of_int ifindex :: u32)"
    using xdp_request_built [of ifindex prog_fd old flags'] by blast
  define R where "R = patch 8 (le_enc 4 sq) (patch 12 (le_enc 4 (0 :: u32)) req)"
  define n where "n = 32 + length (body [(of_int (43 OR uint NLA_F_NESTED) :: u16, body (wire (xdp_attrs prog_fd old flags')))])"
  note m = sent_request [OF r(2) refl r(3-5) R_def n_def]
  have n: "n < 2 ^ 32" "16 \<le> n" using m(3) by (simp_all add: REQ_SIZE_def n_def)
  have vals: "(if given = 0 then xdp_values prog_fd (- 1) flags else xdp_values prog_fd given (flags OR F_REPLACE)) = xdp_values prog_fd old flags'"
    by (simp add: old_def flags'_def)
  have "bpf_xdp_attach sys ifindex prog_fd flags opts w = set_link_xdp_fd_replace sys ifindex prog_fd old flags' w"
    using assms(1) by (simp add: bpf_xdp_attach_def assms(3) [symmetric] old_def flags'_def Let_def)
  then have run: "bpf_xdp_attach sys ifindex prog_fd flags opts w =
      (case recv_loop (ns_pid sys) sq None 4096 (ns_answer sys NETLINK_ROUTE (take n R)) () of
         Fault \<Rightarrow> Fault
       | Waits \<Rightarrow> Waits
       | Ret (x, c) \<Rightarrow> Ret (x, w\<lparr>nw_sent := nw_sent w @ [(NETLINK_ROUTE, take n R)]\<rparr>))"
    using r(1) send_recv_works [OF assms(2) R_def [unfolded assms(4)] m(1,2) n(1), of NETLINK_ROUTE None "()" w]
    by (simp add: set_link_xdp_fd_replace_def assms(4) split: outcome.split)
  have "bpf_xdp_attach sys ifindex prog_fd flags opts w = Ret (sint err, w\<lparr>nw_sent := nw_sent w @ [(NETLINK_ROUTE, take n R)]\<rparr>)"
    if a: "ns_answer sys NETLINK_ROUTE (take n R) = [d]" "dg_ok d" "dg_bytes d = ack_msg (ns_pid sys) sq fl err (take n R) rest"
      "fl AND NLM_F_MULTI = 0" "length rest < 2 ^ 31 - 36" for d fl err rest
  proof -
    have "rd 4 (take n R) 0 = Some (of_nat (length (take n R)) :: u32)" using m(4) by (simp add: xdp_request_says_def)
    then have "recv_msgs (ns_pid sys) sq None (dg_bytes d) 0 (int (length (dg_bytes d))) False () =
        Some (if err = 0 then Through False () else Stop (sint err) ())"
      using recv_ack [OF a(3,5), of None "()"] m(2,3) n(2) a(4) by simp
    moreover have "dg_bytes d \<noteq> []" unfolding a(3) ack_msg_def nl_header_def by (metis append_is_Nil_conv le_enc_4_ne)
    ultimately have "recv_loop (ns_pid sys) sq None 4096 [d] () = Ret (sint err, ())"
      using recv_loop_ok [OF a(2), of "ns_pid sys" sq None 4096 "[]" "()"] by auto
    then show ?thesis using run a(1) by simp
  qed
  then show ?thesis unfolding vals using m(4) by blast
qed

definition demo_nl :: nl_sys where
  "demo_nl = \<lparr>ns_socket = None, ns_bind = None, ns_getsockname = None, ns_addrlen = 12, ns_pid = 7, ns_time = 100, ns_send = None, ns_malloc = True,
     ns_answer = (\<lambda>proto msg. [\<lparr>dg_bytes = ack_msg 7 100 0 0 msg [], dg_peek_errs = [EINTR], dg_recv_errs = [EAGAIN], dg_realloc = True\<rparr>])\<rparr>"

theorem xdp_attach_acknowledged_witness:
  "\<exists>msg. xdp_request_says msg 100 3 (xdp_values 5 9 18) \<and>
    bpf_xdp_attach demo_nl 3 5 2 (Some \<lparr>o_sz = 16, o_tail_zero = True, old_prog_fd = 9\<rparr>) \<lparr>nw_fds = 4, nw_heap = 2, nw_sent = []\<rparr> =
      Ret (0, \<lparr>nw_fds = 4, nw_heap = 2, nw_sent = [(0, msg)]\<rparr>)"
proof -
  have f: "(2 :: u32) OR 16 = 18" by simp
  have a: "OPTS_VALID (Some \<lparr>o_sz = 16, o_tail_zero = True, old_prog_fd = 9\<rparr>) 12" "nl_works demo_nl"
      "9 = OPTS_GET (Some \<lparr>o_sz = 16, o_tail_zero = True, old_prog_fd = 9\<rparr>) 12 old_prog_fd 0" "100 = of_int (ns_time demo_nl)"
    by (simp_all add: OPTS_VALID_def OPTS_GET_def nl_works_def demo_nl_def)
  show ?thesis
    using xdp_attach_acknowledged [OF a, of 3 5 2 "\<lparr>nw_fds = 4, nw_heap = 2, nw_sent = []\<rparr>"]
    by (auto simp: f demo_nl_def dg_ok_def)
qed

subsection \<open>What a query finds\<close>

text \<open>
  A link as the kernel describes it: the fields of its header, and its attributes, of which the one for XDP may hold further ones.
\<close>

record link =
  lk_ifindex :: int
  lk_head :: "u8 list"
  lk_rest :: "u8 list"
  lk_attrs :: "(u16 \<times> u8 list) list"
  lk_xdp :: "(u16 \<times> u8 list) list option"

abbreviation latest :: "(u16 \<times> u8 list) list \<Rightarrow> nat \<Rightarrow> u8 list option" where
  "latest attrs \<equiv> map_of (rev (map attr_key attrs))"

definition xdp_ok :: "(u16 \<times> u8 list) list \<Rightarrow> bool" where
  "xdp_ok X \<longleftrightarrow> (\<forall>a \<in> set X. 4 + length (snd a) < 2 ^ 16) \<and> (\<forall>d. latest X IFLA_XDP_ATTACHED = Some d \<longrightarrow> length d = 1) \<and>
     (\<forall>k d. k \<in> {IFLA_XDP_PROG_ID, IFLA_XDP_DRV_PROG_ID, IFLA_XDP_SKB_PROG_ID, IFLA_XDP_HW_PROG_ID} \<longrightarrow> latest X k = Some d \<longrightarrow> length d = 4)"

definition link_ok :: "link \<Rightarrow> bool" where
  "link_ok l \<longleftrightarrow> - (2 ^ 31) \<le> lk_ifindex l \<and> lk_ifindex l < 2 ^ 31 \<and> length (lk_head l) = 4 \<and> length (lk_rest l) = 8 \<and>
     (\<forall>a \<in> set (lk_attrs l). 4 + length (snd a) < 2 ^ 16) \<and> length (body (lk_attrs l)) < 2 ^ 30 \<and>
     latest (lk_attrs l) IFLA_XDP = map_option body (lk_xdp l) \<and> (\<forall>X. lk_xdp l = Some X \<longrightarrow> xdp_ok X)"

definition link_msg :: "u32 \<Rightarrow> u32 \<Rightarrow> link \<Rightarrow> u8 list" where
  "link_msg pid sq l = nl_header (32 + length (body (lk_attrs l))) 16 NLM_F_MULTI sq pid @
     lk_head l @ le_enc 4 (of_int (lk_ifindex l) :: u32) @ lk_rest l @ body (lk_attrs l)"

text \<open>What the attributes for XDP say, on top of what is known already.\<close>

definition id_of :: "(u16 \<times> u8 list) list \<Rightarrow> nat \<Rightarrow> u32 \<Rightarrow> u32" where
  "id_of X k x = (case latest X k of None \<Rightarrow> x | Some d \<Rightarrow> le_dec d)"

definition xdp_says :: "(u16 \<times> u8 list) list option \<Rightarrow> xdp_link_info \<Rightarrow> xdp_link_info" where
  "xdp_says x i =
     (case x of
        None \<Rightarrow> i
      | Some X \<Rightarrow>
          (case latest X IFLA_XDP_ATTACHED of
             None \<Rightarrow> i
           | Some d \<Rightarrow>
               if d ! 0 = XDP_ATTACHED_NONE then i\<lparr>xi_attach_mode := d ! 0\<rparr>
               else \<lparr>xi_prog_id = id_of X IFLA_XDP_PROG_ID (xi_prog_id i), xi_drv_prog_id = id_of X IFLA_XDP_DRV_PROG_ID (xi_drv_prog_id i),
                      xi_hw_prog_id = id_of X IFLA_XDP_HW_PROG_ID (xi_hw_prog_id i),
                      xi_skb_prog_id = id_of X IFLA_XDP_SKB_PROG_ID (xi_skb_prog_id i), xi_attach_mode = d ! 0\<rparr>))"

definition link_step :: "link \<Rightarrow> xdp_id_md \<Rightarrow> xdp_id_md" where
  "link_step l md = (if md_ifindex md \<noteq> 0 \<and> md_ifindex md \<noteq> lk_ifindex l then md else md\<lparr>md_info := xdp_says (lk_xdp l) (md_info md)\<rparr>)"

lemma set_id_entry:
  assumes "entry_is b e x" "\<And>d. x = Some d \<Longrightarrow> length d = 4"
  shows "set_id b e upd i = Some (case x of None \<Rightarrow> i | Some d \<Rightarrow> upd (le_dec d) i)"
  using assms by (auto simp: entry_is_def set_id_def libbpf_nla_getattr_u32_def libbpf_nla_data_def split: option.split_asm)

lemma length_link_msg: "link_ok l \<Longrightarrow> length (link_msg pid sq l) = 32 + length (body (lk_attrs l))"
  by (simp add: link_msg_def link_ok_def)

lemma get_xdp_info_says:
  assumes "link_ok l" "rd 4 b (ifi + 4) = Some (of_int (lk_ifindex l) :: u32)" "entry_is b (tb ! IFLA_XDP) (latest (lk_attrs l) IFLA_XDP)"
  shows "get_xdp_info b ifi tb md = Some (0, link_step l md)"
proof -
  have i: "sint (of_int (lk_ifindex l) :: u32) = lk_ifindex l" using assms(1) by (intro sint_of_int_small) (simp_all add: link_ok_def)
  have x: "latest (lk_attrs l) IFLA_XDP = map_option body (lk_xdp l)" using assms(1) by (simp add: link_ok_def)
  show ?thesis
  proof (cases "lk_xdp l")
    case None
    then have "tb ! IFLA_XDP = None" using assms(3) x by (simp add: entry_is_def)
    then show ?thesis using assms(2) i None by (simp add: get_xdp_info_def link_step_def xdp_says_def)
  next
    case (Some X)
    then obtain q where q: "tb ! IFLA_XDP = Some q" "entry_is b (Some q) (Some (body X))" using assms(3) x by (auto simp: entry_is_def)
    have ok: "xdp_ok X" using assms(1) Some by (simp add: link_ok_def)
    then obtain xtb where n: "libbpf_nla_parse_nested b IFLA_XDP_MAX q None = Some (0, xtb)"
        and e: "\<And>k. k \<le> IFLA_XDP_MAX \<Longrightarrow> entry_is b (xtb ! k) (latest X k)"
      using nested_back [OF q(2), of IFLA_XDP_MAX] by (auto simp: xdp_ok_def)
    have ids: "set_id b (xtb ! k) upd i = Some (case latest X k of None \<Rightarrow> i | Some d \<Rightarrow> upd (le_dec d) i)"
      if "k \<in> {IFLA_XDP_PROG_ID, IFLA_XDP_DRV_PROG_ID, IFLA_XDP_SKB_PROG_ID, IFLA_XDP_HW_PROG_ID}" for k upd i
      using that e [of k] ok by (intro set_id_entry) (auto simp: xdp_ok_def)
    show ?thesis
    proof (cases "latest X IFLA_XDP_ATTACHED")
      case None
      then have "xtb ! IFLA_XDP_ATTACHED = None" using e [of IFLA_XDP_ATTACHED] by (simp add: entry_is_def)
      then show ?thesis using assms(2) i q(1) n None Some by (simp add: get_xdp_info_def link_step_def xdp_says_def)
    next
      case (Some d)
      then have d: "length d = 1" using ok by (simp add: xdp_ok_def)
      obtain a where a: "xtb ! IFLA_XDP_ATTACHED = Some a" "a + 4 + length d \<le> length b" "seg (a + 4) (length d) b = d"
        using e [of IFLA_XDP_ATTACHED] Some by (auto simp: entry_is_def)
      have mode: "libbpf_nla_getattr_u8 b a = Some (d ! 0)"
        using a(2,3) d by (cases d) (simp_all add: libbpf_nla_getattr_u8_def libbpf_nla_data_def)
      show ?thesis
        using assms(2) i q(1) n a(1) mode \<open>lk_xdp l = Some X\<close> Some
        by (simp add: get_xdp_info_def link_step_def xdp_says_def Let_def ids id_of_def split: option.split)
    qed
  qed
qed

lemma seg_within:
  assumes "seg p (length xs) b = xs" "p + length xs \<le> length b" "i + n \<le> length xs"
  shows "seg (p + i) n b = seg i n xs"
  using seg_seg [OF assms(3,2)] assms(1) by simp

lemma sint_minus:
  assumes "n < 2 ^ 31" "k \<le> n"
  shows "sint ((of_nat n :: u32) - of_nat k) = int (n - k)"
proof -
  have "(of_nat n :: u32) - of_nat k = of_int (int (n - k))" using assms(2) by (simp add: of_nat_diff)
  moreover have "sint (of_int (int (n - k)) :: u32) = int (n - k)" using assms(1) by (intro sint_of_int_small) simp_all
  ultimately show ?thesis by simp
qed

text \<open>A message with a header of 16 + \<open>h\<close> bytes and attributes, at an offset of a datagram.\<close>

lemma attrs_msg_parse:
  assumes "m = nl_header (16 + h + length (body A)) type fl sq pid @ head @ body A" "length head = h" "h \<le> 20"
    "seg p (length m) b = m" "p + length m \<le> length b" "length (body A) < 2 ^ 30" "\<forall>a \<in> set A. 4 + length (snd a) < 2 ^ 16"
  shows "seg p 16 b = nl_header (16 + h + length (body A)) type fl sq pid"
    "\<exists>tb. libbpf_nla_parse b maxtype (p + 16 + h) (sint ((of_nat (16 + h + length (body A)) :: u32) - of_nat (16 + h))) None = Some (0, tb) \<and>
       (\<forall>k \<le> maxtype. entry_is b (tb ! k) (latest A k))"
proof -
  have len: "length m = 16 + h + length (body A)" using assms(1,2) by simp
  have "seg (p + 0) 16 b = seg 0 16 m" by (rule seg_within [OF assms(4,5)]) (simp add: len)
  then show "seg p 16 b = nl_header (16 + h + length (body A)) type fl sq pid" by (simp add: assms(1) seg_def)
  have "seg (p + (16 + h)) (length (body A)) b = seg (16 + h) (length (body A)) m" by (rule seg_within [OF assms(4,5)]) (simp add: len)
  then have B: "seg (p + 16 + h) (length (body A)) b = body A" using assms(2) by (simp add: assms(1) seg_def add.assoc)
  have fit: "p + 16 + h + length (body A) \<le> length b" using assms(5) len by simp
  have n: "16 + h + length (body A) < 2 ^ 31" "16 + h \<le> 16 + h + length (body A)" using assms(3,6) by auto
  have "sint ((of_nat (16 + h + length (body A)) :: u32) - of_nat (16 + h)) = int (length (body A))"
    unfolding sint_minus [OF n] add_diff_cancel_left' ..
  then show "\<exists>tb. libbpf_nla_parse b maxtype (p + 16 + h) (sint ((of_nat (16 + h + length (body A)) :: u32) - of_nat (16 + h))) None = Some (0, tb) \<and>
       (\<forall>k \<le> maxtype. entry_is b (tb ! k) (latest A k))"
    using nla_parse_back [OF B fit assms(7), of maxtype] by auto
qed

lemma dump_link_says:
  assumes "link_ok l" "seg p (length (link_msg pid sq l)) b = link_msg pid sq l" "p + length (link_msg pid sq l) \<le> length b"
  shows "seg p 16 b = nl_header (32 + length (body (lk_attrs l))) 16 NLM_F_MULTI sq pid" "dump_link_nlmsg b p md = Some (0, link_step l md)"
proof -
  let ?A = "lk_attrs l" and ?head = "lk_head l @ le_enc 4 (of_int (lk_ifindex l) :: u32) @ lk_rest l"
  have l: "length (lk_head l) = 4" "length (lk_rest l) = 8" "\<forall>a \<in> set ?A. 4 + length (snd a) < 2 ^ 16" "length (body ?A) < 2 ^ 30"
    using assms(1) by (simp_all add: link_ok_def)
  have m: "link_msg pid sq l = nl_header (16 + 16 + length (body ?A)) 16 NLM_F_MULTI sq pid @ ?head @ body ?A" by (simp add: link_msg_def)
  note parse = attrs_msg_parse [OF m _ _ assms(2,3) l(4,3)]
  show hd: "seg p 16 b = nl_header (32 + length (body ?A)) 16 NLM_F_MULTI sq pid" using parse(1) l by simp
  obtain tb where tb: "libbpf_nla_parse b IFLA_MAX (p + 16 + 16) (sint ((of_nat (32 + length (body ?A)) :: u32) - 32)) None = Some (0, tb)"
      and e: "\<forall>k \<le> IFLA_MAX. entry_is b (tb ! k) (latest ?A k)"
    using parse(2) [of IFLA_MAX] l by (auto simp: add.assoc)
  have len: "length (link_msg pid sq l) = 32 + length (body ?A)" by (rule length_link_msg [OF assms(1)])
  have "seg (p + 20) 4 b = seg 20 4 (link_msg pid sq l)" by (rule seg_within [OF assms(2,3)]) (simp add: len)
  then have idx: "rd 4 b (p + 16 + 4) = Some (of_int (lk_ifindex l) :: u32)"
    using l assms(3) len by (simp add: m seg_def endian add.assoc)
  have "entry_is b (tb ! IFLA_XDP) (latest ?A IFLA_XDP)" using e by simp
  then have "get_xdp_info b (p + 16) tb md = Some (0, link_step l md)" by (rule get_xdp_info_says [OF assms(1) idx])
  moreover have "rd 4 b p = Some (of_nat (32 + length (body ?A)) :: u32)"
    using nl_header_fields(1) [OF hd] assms(3) len by simp
  ultimately show "dump_link_nlmsg b p md = Some (0, link_step l md)"
    unfolding dump_link_nlmsg_def using tb by simp
qed

text \<open>One step of the loop at a message that goes on with the next message.\<close>

lemma recv_msgs_step:
  assumes "seg p 16 b = nl_header n type fl sq pid" "p + n \<le> length b" "16 \<le> n" "int n \<le> len" "n < 2 ^ 31"
    "type \<noteq> NLMSG_ERROR" "type \<noteq> NLMSG_DONE" "parse = Some f" "f b p c = Some (r, c')"
  shows "recv_msgs pid sq parse b p len mp c =
    (if r = 0 then recv_msgs pid sq parse b (p + align4 n) (len - int (align4 n)) (mp \<or> fl AND NLM_F_MULTI \<noteq> 0) c'
     else Some (if r = 1 then Start c' else if r = 2 then Stop 0 c' else Stop r c'))"
proof -
  have f: "rd 4 b p = Some (of_nat n :: u32)" "rd 2 b (p + 4) = Some type" "rd 2 b (p + 6) = Some fl"
      "rd 4 b (p + 8) = Some sq" "rd 4 b (p + 12) = Some pid"
    using nl_header_fields [OF assms(1)] assms(2,3) by simp_all
  have n: "unat (of_nat n :: u32) = n" using assms(5) by (intro unat_of_nat_u32) simp
  have ok: "NLMSG_OK b p len = Some True" using f(1) assms(3,4) by (simp add: NLMSG_OK_def n del: of_nat_unat rd_Some)
  have nx: "NLMSG_NEXT b p len = Some (p + align4 n, len - int (align4 n))" using f(1) by (simp add: NLMSG_NEXT_def n Let_def del: rd_Some)
  have "recv_msg pid sq parse b p mp c =
      Some (if r = 0 then Through (mp \<or> fl AND NLM_F_MULTI \<noteq> 0) c' else if r = 1 then Start c' else if r = 2 then Stop 0 c' else Stop r c')"
    using f assms(6-9) by (simp add: recv_msg_def Let_def del: rd_Some)
  then show ?thesis using ok nx by (subst recv_msgs.simps) simp
qed

lemma recv_links:
  assumes "\<forall>l \<in> set ls. link_ok l" "M = concat (map (link_msg pid sq) ls)" "seg p (length M) b = M" "p + length M + k \<le> length b"
  shows "recv_msgs pid sq (Some dump_link_nlmsg) b p (int (length M + k)) mp md =
    recv_msgs pid sq (Some dump_link_nlmsg) b (p + length M) (int k) (mp \<or> ls \<noteq> []) (fold link_step ls md)"
  using assms
proof (induction ls arbitrary: p M mp md)
  case Nil
  then show ?case by simp
next
  case (Cons l ls)
  let ?m = "link_msg pid sq l" and ?M = "concat (map (link_msg pid sq) ls)" and ?n = "32 + length (body (lk_attrs l))"
  have l: "link_ok l" "length ?m = ?n" using Cons.prems(1) length_link_msg by simp_all
  have M: "M = ?m @ ?M" using Cons.prems(2) by simp
  have "p + length M \<le> length b" using Cons.prems(4) by simp
  note part = seg_within [OF Cons.prems(3) this]
  have m: "seg p (length ?m) b = ?m" using part [of 0 "length ?m"] by (simp add: M seg_def)
  have rest: "seg (p + length ?m) (length ?M) b = ?M" using part [of "length ?m" "length ?M"] by (simp add: M seg_def)
  have fit: "p + length ?m \<le> length b" "p + length ?m + length ?M + k \<le> length b" using Cons.prems(4) by (simp_all add: M)
  have al: "align4 ?n = ?n" by (rule align4_dvd) (simp add: body_dvd)
  have n: "?n < 2 ^ 31" using l(1) by (simp add: link_ok_def)
  have len: "int (length M + k) - int ?n = int (length ?M + k)" "int ?n \<le> int (length M + k)" using l(2) by (simp_all add: M)
  note says = dump_link_says [OF l(1) m fit(1)]
  have "recv_msgs pid sq (Some dump_link_nlmsg) b p (int (length M + k)) mp md =
      recv_msgs pid sq (Some dump_link_nlmsg) b (p + ?n) (int (length ?M + k)) True (link_step l md)"
    using recv_msgs_step [where f = dump_link_nlmsg and c = md, OF says(1) _ _ len(2) n _ _ refl says(2), of mp] fit(1) l(2) unfolding al len(1) by simp
  also have "\<dots> = recv_msgs pid sq (Some dump_link_nlmsg) b (p + length ?m + length ?M) (int k) True (fold link_step ls (link_step l md))"
    using Cons.IH [OF _ refl rest fit(2), of True "link_step l md"] Cons.prems(1) l(2) by simp
  finally show ?case by (simp add: M add.assoc)
qed

text \<open>The end of a list of links, and a list of links over several datagrams, the last of which ends it.\<close>

definition done_msg :: "u32 \<Rightarrow> u32 \<Rightarrow> u8 list" where
  "done_msg pid sq = nl_header 20 NLMSG_DONE NLM_F_MULTI sq pid @ replicate 4 0"

definition links_dgram :: "u32 \<Rightarrow> u32 \<Rightarrow> dgram \<Rightarrow> link list \<Rightarrow> u8 list \<Rightarrow> bool" where
  "links_dgram pid sq d ls trailer \<longleftrightarrow> dg_ok d \<and> (\<forall>l \<in> set ls. link_ok l) \<and> dg_bytes d = concat (map (link_msg pid sq) ls) @ trailer"

lemma recv_done:
  assumes "seg p 20 b = done_msg pid sq" "p + 20 \<le> length b"
  shows "recv_msgs pid sq parse b p (int 20) mp c = Some (Stop 0 c)"
proof -
  have "seg p 16 b = nl_header 20 NLMSG_DONE NLM_F_MULTI sq pid"
    using seg_within [of p "done_msg pid sq" b 0 16] assms by (simp add: done_msg_def seg_def)
  note f = nl_header_fields [OF this]
  have "NLMSG_OK b p (int 20) = Some True" using f(1) assms(2) by (simp add: NLMSG_OK_def)
  moreover have "recv_msg pid sq parse b p mp c = Some (Stop 0 c)" using f assms(2) by (simp add: recv_msg_def Let_def)
  ultimately show ?thesis by (subst recv_msgs.simps) simp
qed

lemma link_msg_ne: "link_msg pid sq l \<noteq> []"
  by (simp add: link_msg_def nl_header_def le_enc_4_ne)

lemma recv_more_links:
  assumes "links_dgram pid sq d ls []" "ls \<noteq> []"
  shows "\<exists>n'. recv_loop pid sq (Some dump_link_nlmsg) n (d # ds) md = recv_loop pid sq (Some dump_link_nlmsg) n' ds (fold link_step ls md)"
proof -
  let ?M = "concat (map (link_msg pid sq) ls)"
  have d: "dg_ok d" "\<forall>l \<in> set ls. link_ok l" "dg_bytes d = ?M" using assms(1) by (simp_all add: links_dgram_def)
  have "recv_msgs pid sq (Some dump_link_nlmsg) (dg_bytes d) 0 (int (length ?M + 0)) False md =
      recv_msgs pid sq (Some dump_link_nlmsg) (dg_bytes d) (0 + length ?M) (int 0) (False \<or> ls \<noteq> []) (fold link_step ls md)"
    using d(2,3) by (intro recv_links [OF _ refl]) (simp_all add: seg_def)
  also have "\<dots> = Some (Through True (fold link_step ls md))" using assms(2) by (simp add: recv_msgs.simps NLMSG_OK_def)
  finally have "recv_msgs pid sq (Some dump_link_nlmsg) (dg_bytes d) 0 (int (length (dg_bytes d))) False md = Some (Through True (fold link_step ls md))"
    by (simp add: d(3))
  moreover have "dg_bytes d \<noteq> []" using assms(2) link_msg_ne by (cases ls) (simp_all add: d(3))
  ultimately show ?thesis using recv_loop_ok [OF d(1), of pid sq "Some dump_link_nlmsg" n ds md] by auto
qed

lemma recv_last_links:
  assumes "links_dgram pid sq d ls (done_msg pid sq)"
  shows "recv_loop pid sq (Some dump_link_nlmsg) n (d # ds) md = Ret (0, fold link_step ls md)"
proof -
  let ?M = "concat (map (link_msg pid sq) ls)"
  have d: "dg_ok d" "\<forall>l \<in> set ls. link_ok l" "dg_bytes d = ?M @ done_msg pid sq" using assms by (simp_all add: links_dgram_def)
  have len: "length (done_msg pid sq) = 20" by (simp add: done_msg_def)
  have "recv_msgs pid sq (Some dump_link_nlmsg) (dg_bytes d) 0 (int (length ?M + 20)) False md =
      recv_msgs pid sq (Some dump_link_nlmsg) (dg_bytes d) (0 + length ?M) (int 20) (False \<or> ls \<noteq> []) (fold link_step ls md)"
    using d(2,3) len by (intro recv_links [OF _ refl]) (simp_all add: seg_def)
  also have "\<dots> = Some (Stop 0 (fold link_step ls md))"
    using len by (intro recv_done) (simp_all add: d(3) seg_def)
  finally have "recv_msgs pid sq (Some dump_link_nlmsg) (dg_bytes d) 0 (int (length (dg_bytes d))) False md = Some (Stop 0 (fold link_step ls md))"
    by (simp add: d(3) len)
  moreover have "dg_bytes d \<noteq> []" using len by (auto simp: d(3))
  ultimately show ?thesis using recv_loop_ok [OF d(1), of pid sq "Some dump_link_nlmsg" n ds md] by auto
qed

lemma recv_dump:
  assumes "list_all2 (\<lambda>d ls. links_dgram pid sq d ls [] \<and> ls \<noteq> []) ds lss" "links_dgram pid sq d ls (done_msg pid sq)"
  shows "recv_loop pid sq (Some dump_link_nlmsg) n (ds @ d # ds') md = Ret (0, fold link_step (concat lss @ ls) md)"
  using assms(1)
proof (induction ds lss arbitrary: n md rule: list_all2_induct)
  case Nil
  then show ?case using recv_last_links [OF assms(2)] by simp
next
  case (Cons x xs y ys)
  then obtain n' where "recv_loop pid sq (Some dump_link_nlmsg) n (x # (xs @ d # ds')) md =
      recv_loop pid sq (Some dump_link_nlmsg) n' (xs @ d # ds') (fold link_step y md)"
    using recv_more_links by blast
  then show ?case using Cons.IH by simp
qed

text \<open>Of links with different numbers only the one that was asked for has an effect.\<close>

lemma fold_links:
  assumes "md_ifindex md \<noteq> 0" "distinct (map lk_ifindex ls)"
  shows "fold link_step ls md = md\<lparr>md_info := fold (\<lambda>l. xdp_says (lk_xdp l)) (filter (\<lambda>l. lk_ifindex l = md_ifindex md) ls) (md_info md)\<rparr>"
  using assms
proof (induction ls arbitrary: md)
  case (Cons l ls)
  have "md_ifindex (link_step l md) = md_ifindex md" by (simp add: link_step_def)
  then show ?case using Cons.IH [of "link_step l md"] Cons.prems by (simp add: link_step_def)
qed simp

lemma filter_distinct:
  assumes "distinct (map f xs)" "x \<in> set xs"
  shows "filter (\<lambda>y. f y = f x) xs = [x]"
  using assms by (induction xs) (auto simp: filter_empty_conv image_iff)

text \<open>The messages a query sends: for all links, for the number of the family, and for the features of an interface.\<close>

definition links_request :: "u32 \<Rightarrow> u8 list" where
  "links_request sq = nl_header 32 RTM_GETLINK (NLM_F_DUMP OR NLM_F_REQUEST) sq 0 @ AF_PACKET # replicate 15 0"

definition genl_request :: "u32 \<Rightarrow> u16 \<Rightarrow> u8 \<Rightarrow> u16 \<times> u8 list \<Rightarrow> u8 list" where
  "genl_request sq type cmd a = nl_header (20 + length (attr_bytes a)) type NLM_F_REQUEST sq 0 @ [cmd, 2, 0, 0] @ attr_bytes a"

abbreviation "family_request sq \<equiv> genl_request sq 0x10 3 (2, netdev_name)"
abbreviation "features_request sq fam ifindex \<equiv> genl_request sq fam 1 (1, le_enc 4 (of_int ifindex :: u32))"

lemma links_request_sent:
  assumes "R = patch 8 (le_enc 4 sq) (patch 12 (le_enc 4 (0 :: u32)) (patch 16 [AF_PACKET] (new_req 32 RTM_GETLINK (NLM_F_DUMP OR NLM_F_REQUEST))))"
  shows "rd 4 R 0 = Some (of_nat 32 :: u32)" "32 \<le> length R" "take 32 R = links_request sq"
proof -
  have R: "R = links_request sq @ replicate 132 0"
    by (simp add: assms new_req_def patch_def links_request_def nl_header_def REQ_SIZE_def numeral_eq_Suc)
  then show "rd 4 R 0 = Some (of_nat 32 :: u32)" "32 \<le> length R" "take 32 R = links_request sq"
    by (simp_all add: links_request_def nl_header_def seg_def endian)
qed

lemma genl_request_sent:
  assumes "d \<noteq> []" "24 + align4 (length d) \<le> REQ_SIZE"
  shows "\<exists>req. nlattr_add (patch 16 [cmd, 2] (new_req 20 type NLM_F_REQUEST)) t (Some d) (int (length d)) = Some (0, req) \<and>
    (\<forall>sq R n. R = patch 8 (le_enc 4 sq) (patch 12 (le_enc 4 (0 :: u32)) req) \<longrightarrow> n = length (genl_request sq type cmd (of_int t, d)) \<longrightarrow>
       rd 4 R 0 = Some (of_nat n :: u32) \<and> n \<le> length R \<and> n < 2 ^ 32 \<and> take n R = genl_request sq type cmd (of_int t, d))"
proof -
  let ?req0 = "patch 16 [cmd, 2] (new_req 20 type NLM_F_REQUEST)"
  have h: "req_holds ?req0 20 []" using new_req_holds [of 20] by (intro req_holds_patch) (simp_all add: REQ_SIZE_def)
  obtain req where r: "nlattr_add ?req0 t (Some d) (int (length d)) = Some (0, req)" "req_holds req 20 [(of_int t, d)]"
      "seg 4 16 req = seg 4 16 ?req0"
    using nlattr_add_ok [OF h, of d t] assms by (auto simp: REQ_SIZE_def)
  have h0: "seg 4 16 ?req0 = le_enc 2 type @ le_enc 2 NLM_F_REQUEST @ replicate 8 0 @ [cmd, 2, 0, 0]"
    by (simp add: new_req_def patch_def seg_def REQ_SIZE_def numeral_eq_Suc)
  obtain hdr where q: "req = le_enc 4 (of_nat (20 + length (body [(of_int t, d)])) :: u32) @ hdr @ body [(of_int t :: u16, d)] @
      replicate (REQ_SIZE - 20 - length (body [(of_int t :: u16, d)])) 0" "length hdr = 16"
    using r(2) by (elim req_holdsE) simp
  have hdr: "hdr = le_enc 2 type @ le_enc 2 NLM_F_REQUEST @ replicate 8 0 @ [cmd, 2, 0, 0]"
    using r(3) h0 q by (simp add: seg_def)
  have "rd 4 R 0 = Some (of_nat n :: u32) \<and> n \<le> length R \<and> n < 2 ^ 32 \<and> take n R = genl_request sq type cmd (of_int t, d)"
    if R: "R = patch 8 (le_enc 4 sq) (patch 12 (le_enc 4 (0 :: u32)) req)" and n: "n = length (genl_request sq type cmd (of_int t, d))" for sq R n
  proof -
    have "R = genl_request sq type cmd (of_int t, d) @ replicate (REQ_SIZE - 24 - align4 (length d)) 0"
      unfolding R q(1) hdr by (simp add: genl_request_def nl_header_def patch_def numeral_eq_Suc)
    moreover have "n < 2 ^ 32" "n = 24 + align4 (length d)" using assms(2) by (simp_all add: n genl_request_def REQ_SIZE_def)
    moreover have "seg 0 4 (genl_request sq type cmd (of_int t, d) @ xs) = le_enc 4 (of_nat n :: u32)" for xs
      by (simp add: n genl_request_def nl_header_def seg_def)
    ultimately show ?thesis using n by (simp add: endian)
  qed
  then show ?thesis using r(1) by blast
qed

text \<open>An answer of generic netlink: one message with a family header of four bytes and attributes.\<close>

definition genl_answer :: "u32 \<Rightarrow> u32 \<Rightarrow> dgram \<Rightarrow> (u16 \<times> u8 list) list \<Rightarrow> bool" where
  "genl_answer pid sq d A \<longleftrightarrow> dg_ok d \<and> length (body A) < 2 ^ 30 \<and> (\<forall>a \<in> set A. 4 + length (snd a) < 2 ^ 16) \<and>
     (\<exists>type fl head. type \<noteq> NLMSG_ERROR \<and> type \<noteq> NLMSG_DONE \<and> length head = 4 \<and>
        dg_bytes d = nl_header (20 + length (body A)) type fl sq pid @ head @ body A)"

lemma recv_genl:
  assumes "genl_answer pid sq d A"
    "\<And>tb. rd 4 (dg_bytes d) 0 = Some (of_nat (20 + length (body A)) :: u32) \<Longrightarrow>
       libbpf_nla_parse (dg_bytes d) maxtype 20 (sint ((of_nat (20 + length (body A)) :: u32) - 20)) None = Some (0, tb) \<Longrightarrow>
       (\<forall>k \<le> maxtype. entry_is (dg_bytes d) (tb ! k) (latest A k)) \<Longrightarrow> f (dg_bytes d) 0 c = Some (2, c')"
  shows "recv_loop pid sq (Some f) n (d # ds) c = Ret (0, c')"
proof -
  obtain type fl head where a: "dg_ok d" "length (body A) < 2 ^ 30" "\<forall>a \<in> set A. 4 + length (snd a) < 2 ^ 16" "type \<noteq> NLMSG_ERROR"
      "type \<noteq> NLMSG_DONE" "length head = 4" "dg_bytes d = nl_header (16 + 4 + length (body A)) type fl sq pid @ head @ body A"
    using assms(1) by (auto simp: genl_answer_def)
  let ?b = "dg_bytes d"
  have len: "length ?b = 20 + length (body A)" using a(6,7) by simp
  have w: "seg 0 (length ?b) ?b = ?b" "0 + length ?b \<le> length ?b" by (simp_all add: seg_def)
  note parse = attrs_msg_parse [OF a(7,6) _ w a(2,3)]
  have hd: "seg 0 16 ?b = nl_header (20 + length (body A)) type fl sq pid" using parse(1) by simp
  obtain tb where tb: "libbpf_nla_parse ?b maxtype 20 (sint ((of_nat (20 + length (body A)) :: u32) - 20)) None = Some (0, tb)"
      "\<forall>k \<le> maxtype. entry_is ?b (tb ! k) (latest A k)"
    using parse(2) [of maxtype] by auto
  have "rd 4 ?b 0 = Some (of_nat (20 + length (body A)) :: u32)" using nl_header_fields(1) [OF hd] len by simp
  then have f: "f ?b 0 c = Some (2, c')" using assms(2) tb by blast
  have "recv_msgs pid sq (Some f) ?b 0 (int (length ?b)) False c = Some (Stop 0 c')"
    using recv_msgs_step [where f = f and c = c, OF hd _ _ _ _ a(4,5) refl f, of "int (length ?b)" False] a(2) len by simp
  moreover have "?b \<noteq> []" using len by auto
  ultimately show ?thesis using recv_loop_ok [OF a(1), of pid sq "Some f" n ds c] by auto
qed

lemma family_answer:
  assumes "genl_answer pid sq d A" "latest A 1 = Some (le_enc 2 fam)"
  shows "recv_loop pid sq (Some parse_genl_family_id) n (d # ds) i = Ret (0, fam)"
proof (rule recv_genl [OF assms(1), where maxtype = 1])
  fix tb
  assume p: "rd 4 (dg_bytes d) 0 = Some (of_nat (20 + length (body A)) :: u32)"
    "libbpf_nla_parse (dg_bytes d) 1 20 (sint ((of_nat (20 + length (body A)) :: u32) - 20)) None = Some (0, tb)"
    "\<forall>k \<le> 1. entry_is (dg_bytes d) (tb ! k) (latest A k)"
  then have "entry_is (dg_bytes d) (tb ! 1) (Some (le_enc 2 fam))" using assms(2) by (metis order_refl)
  then show "parse_genl_family_id (dg_bytes d) 0 i = Some (2, fam)"
    using p(1,2) by (auto simp: parse_genl_family_id_def entry_is_def libbpf_nla_getattr_u16_def libbpf_nla_data_def endian)
qed

lemma features_answer:
  assumes "genl_answer pid sq d A" "latest A 1 = Some (le_enc 4 (of_int (mf_ifindex md) :: u32))" "latest A 3 = Some (le_enc 8 x)"
  shows "recv_loop pid sq (Some parse_xdp_features) n (d # ds) md = Ret (0, md\<lparr>mf_flags := x\<rparr>)"
proof (rule recv_genl [OF assms(1), where maxtype = 4])
  fix tb
  assume p: "rd 4 (dg_bytes d) 0 = Some (of_nat (20 + length (body A)) :: u32)"
    "libbpf_nla_parse (dg_bytes d) 4 20 (sint ((of_nat (20 + length (body A)) :: u32) - 20)) None = Some (0, tb)"
    "\<forall>k \<le> 4. entry_is (dg_bytes d) (tb ! k) (latest A k)"
  have "(1 :: nat) \<le> 4" "(3 :: nat) \<le> 4" by simp_all
  then have "entry_is (dg_bytes d) (tb ! 1) (Some (le_enc 4 (of_int (mf_ifindex md) :: u32)))" "entry_is (dg_bytes d) (tb ! 3) (Some (le_enc 8 x))"
    using p(3) assms(2,3) by metis+
  then show "parse_xdp_features (dg_bytes d) 0 md = Some (2, md\<lparr>mf_flags := x\<rparr>)"
    using p(1,2) by (auto simp: parse_xdp_features_def entry_is_def libbpf_nla_getattr_u32_def libbpf_nla_getattr_u64_def libbpf_nla_data_def endian)
qed

text \<open>
  The kernel knows the features of interfaces, or does not know the family. In the latter case they count as none.
\<close>

definition features_known :: "nl_sys \<Rightarrow> nl_sys \<Rightarrow> int \<Rightarrow> u64 \<Rightarrow> bool" where
  "features_known sys1 sys2 ifindex x \<longleftrightarrow> nl_works sys1 \<and> nl_works sys2 \<and>
     (\<exists>d A fam d2 A2. ns_answer sys1 NETLINK_GENERIC (family_request (of_int (ns_time sys1))) = [d] \<and>
        genl_answer (ns_pid sys1) (of_int (ns_time sys1)) d A \<and> latest A 1 = Some (le_enc 2 fam) \<and>
        ns_answer sys2 NETLINK_GENERIC (features_request (of_int (ns_time sys2)) fam ifindex) = [d2] \<and>
        genl_answer (ns_pid sys2) (of_int (ns_time sys2)) d2 A2 \<and>
        latest A2 1 = Some (le_enc 4 (of_int ifindex :: u32)) \<and> latest A2 3 = Some (le_enc 8 x))"

definition features_unknown :: "nl_sys \<Rightarrow> bool" where
  "features_unknown sys1 \<longleftrightarrow> nl_works sys1 \<and>
     (\<exists>d fl rest. ns_answer sys1 NETLINK_GENERIC (family_request (of_int (ns_time sys1))) = [d] \<and> dg_ok d \<and> length rest < 2 ^ 31 - 36 \<and>
        dg_bytes d = ack_msg (ns_pid sys1) (of_int (ns_time sys1)) fl (- 2) (family_request (of_int (ns_time sys1))) rest)"

lemma resolve_run:
  assumes "nl_works sys"
  shows "\<exists>w'. resolve_genl_family_id sys netdev_name 7 i w =
    (case recv_loop (ns_pid sys) (of_int (ns_time sys)) (Some parse_genl_family_id) 4096
        (ns_answer sys NETLINK_GENERIC (family_request (of_int (ns_time sys)))) i of
       Fault \<Rightarrow> Fault | Waits \<Rightarrow> Waits | Ret (r, i) \<Rightarrow> Ret (r, i, w'))"
proof -
  have d: "netdev_name \<noteq> []" "24 + align4 (length netdev_name) \<le> REQ_SIZE" by (simp_all add: netdev_name_def align4_def REQ_SIZE_def)
  obtain req where r: "nlattr_add (patch 16 [3, 2] (new_req 20 0x10 NLM_F_REQUEST)) 2 (Some netdev_name) (int (length netdev_name)) = Some (0, req)"
      and s: "\<And>sq R n. R = patch 8 (le_enc 4 sq) (patch 12 (le_enc 4 (0 :: u32)) req) \<Longrightarrow> n = length (genl_request sq 0x10 3 (of_int 2, netdev_name)) \<Longrightarrow>
        rd 4 R 0 = Some (of_nat n :: u32) \<and> n \<le> length R \<and> n < 2 ^ 32 \<and> take n R = genl_request sq 0x10 3 (of_int 2, netdev_name)"
    using genl_request_sent [OF d, where cmd = 3 and type = "0x10" and t = 2] by blast
  have u: "uint (7 :: u16) = int (length netdev_name)" by (simp add: netdev_name_def)
  note R = s [OF refl refl, of "of_int (ns_time sys)"]
  show ?thesis
    unfolding resolve_genl_family_id_def u Let_def r
    using send_recv_works [OF assms refl, of req _ NETLINK_GENERIC "Some parse_genl_family_id" i w] R
    by (auto split: outcome.split)
qed

lemma features_unknown_none:
  assumes "features_unknown sys1"
  shows "\<exists>w'. query_features sys1 sys2 i0 ifindex opts w = Ret (0, map_option (q_feature_flags_update (\<lambda>_. 0)) opts, w')"
proof -
  let ?sq = "of_int (ns_time sys1) :: u32"
  obtain d fl rest where a: "nl_works sys1" "ns_answer sys1 NETLINK_GENERIC (family_request ?sq) = [d]" "dg_ok d" "length rest < 2 ^ 31 - 36"
      "dg_bytes d = ack_msg (ns_pid sys1) ?sq fl (- 2) (family_request ?sq) rest"
    using assms by (auto simp: features_unknown_def)
  have m: "rd 4 (family_request ?sq) 0 = Some (of_nat (length (family_request ?sq)) :: u32)" "16 \<le> length (family_request ?sq)"
      "length (family_request ?sq) \<le> REQ_SIZE"
    by (simp_all add: genl_request_def nl_header_def seg_def endian netdev_name_def align4_def REQ_SIZE_def)
  have e: "sint (- 2 :: u32) = - 2" using sint_of_int_small [of "- 2"] by simp
  have "recv_msgs (ns_pid sys1) ?sq (Some parse_genl_family_id) (dg_bytes d) 0 (int (length (dg_bytes d))) False i0 = Some (Stop (- 2) i0)"
    using recv_ack [OF a(5,4) m, of "Some parse_genl_family_id" i0] by (simp add: e)
  moreover have "dg_bytes d \<noteq> []" unfolding a(5) ack_msg_def nl_header_def by (metis append_is_Nil_conv le_enc_4_ne)
  ultimately have "recv_loop (ns_pid sys1) ?sq (Some parse_genl_family_id) 4096 [d] i0 = Ret (- 2, i0)"
    using recv_loop_ok [OF a(3), of "ns_pid sys1" ?sq "Some parse_genl_family_id" 4096 "[]" i0] by auto
  then show ?thesis using resolve_run [OF a(1), of i0 w] a(2) by (auto simp: query_features_def)
qed

lemma features_known_set:
  assumes "features_known sys1 sys2 ifindex x"
  shows "\<exists>w'. query_features sys1 sys2 i0 ifindex opts w = Ret (0, map_option (q_feature_flags_update (\<lambda>_. x)) opts, w')"
proof -
  let ?sq1 = "of_int (ns_time sys1) :: u32" and ?sq2 = "of_int (ns_time sys2) :: u32"
  obtain d A fam d2 A2 where a: "nl_works sys1" "nl_works sys2" "ns_answer sys1 NETLINK_GENERIC (family_request ?sq1) = [d]"
      "genl_answer (ns_pid sys1) ?sq1 d A" "latest A 1 = Some (le_enc 2 fam)"
      "ns_answer sys2 NETLINK_GENERIC (features_request ?sq2 fam ifindex) = [d2]" "genl_answer (ns_pid sys2) ?sq2 d2 A2"
      "latest A2 1 = Some (le_enc 4 (of_int ifindex :: u32))" "latest A2 3 = Some (le_enc 8 x)"
    using assms by (auto simp: features_known_def)
  obtain w1 where w1: "resolve_genl_family_id sys1 netdev_name 7 i0 w = Ret (0, fam, w1)"
    using resolve_run [OF a(1), of i0 w] family_answer [OF a(4,5)] a(3) by auto
  let ?d = "le_enc 4 (of_int ifindex :: u32)"
  have d: "?d \<noteq> []" "24 + align4 (length ?d) \<le> REQ_SIZE" by (simp_all add: le_enc_4_ne align4_def REQ_SIZE_def)
  obtain req where r: "nlattr_add (patch 16 [1, 2] (new_req 20 fam NLM_F_REQUEST)) 1 (Some ?d) (int (length ?d)) = Some (0, req)"
      and s: "\<And>sq R n. R = patch 8 (le_enc 4 sq) (patch 12 (le_enc 4 (0 :: u32)) req) \<Longrightarrow> n = length (genl_request sq fam 1 (of_int 1, ?d)) \<Longrightarrow>
        rd 4 R 0 = Some (of_nat n :: u32) \<and> n \<le> length R \<and> n < 2 ^ 32 \<and> take n R = genl_request sq fam 1 (of_int 1, ?d)"
    using genl_request_sent [OF d, where cmd = 1 and type = fam and t = 1] by blast
  note R = s [OF refl refl, of ?sq2]
  let ?md = "\<lparr>mf_ifindex = ifindex, mf_flags = 0\<rparr>"
  have "recv_loop (ns_pid sys2) ?sq2 (Some parse_xdp_features) 4096 [d2] ?md = Ret (0, ?md\<lparr>mf_flags := x\<rparr>)"
    using features_answer [OF a(7), of ?md x 4096 "[]"] a(8,9) by simp
  then show ?thesis
    using send_recv_works [OF a(2) refl, of req _ NETLINK_GENERIC "Some parse_xdp_features" ?md w1] R r a(6)
    by (auto simp: query_features_def w1)
qed

text \<open>The kernel answers the request for all links with these datagrams; one link has the number that was asked for.\<close>

definition links_answered :: "nl_sys \<Rightarrow> link list \<Rightarrow> bool" where
  "links_answered sys links \<longleftrightarrow> nl_works sys \<and> distinct (map lk_ifindex links) \<and>
     (\<exists>ds lss d ls ds'. ns_answer sys NETLINK_ROUTE (links_request (of_int (ns_time sys))) = ds @ d # ds' \<and> links = concat lss @ ls \<and>
        list_all2 (\<lambda>d ls. links_dgram (ns_pid sys) (of_int (ns_time sys)) d ls [] \<and> ls \<noteq> []) ds lss \<and>
        links_dgram (ns_pid sys) (of_int (ns_time sys)) d ls (done_msg (ns_pid sys) (of_int (ns_time sys))))"

definition query_result :: "xdp_link_info \<Rightarrow> u64 \<Rightarrow> bpf_xdp_query_opts \<Rightarrow> bpf_xdp_query_opts" where
  "query_result i x p = p\<lparr>q_prog_id := xi_prog_id i, q_drv_prog_id := xi_drv_prog_id i, q_hw_prog_id := xi_hw_prog_id i,
     q_skb_prog_id := xi_skb_prog_id i, q_attach_mode := xi_attach_mode i, q_feature_flags := x\<rparr>"

definition mode_id :: "xdp_link_info \<Rightarrow> u32 \<Rightarrow> u32" where
  "mode_id i m =
     (if m = F_DRV_MODE then xi_drv_prog_id i else if m = F_HW_MODE then xi_hw_prog_id i else if m = F_SKB_MODE then xi_skb_prog_id i
      else if xi_attach_mode i = XDP_ATTACHED_MULTI then 0 else xi_prog_id i)"

lemma links_answered_run:
  assumes "links_answered sys links" "l \<in> set links" "lk_ifindex l \<noteq> 0"
    "md = \<lparr>md_ifindex = lk_ifindex l, md_flags = fl, md_info = zero_info, md_feature_flags = 0\<rparr>"
  shows "\<exists>w'. libbpf_netlink_send_recv sys (patch 16 [AF_PACKET] (new_req 32 RTM_GETLINK (NLM_F_DUMP OR NLM_F_REQUEST))) NETLINK_ROUTE
      (Some dump_link_nlmsg) md w = Ret (0, md\<lparr>md_info := xdp_says (lk_xdp l) zero_info\<rparr>, w')"
proof -
  let ?sq = "of_int (ns_time sys) :: u32"
  obtain ds lss d ls ds' where a: "nl_works sys" "distinct (map lk_ifindex links)" "ns_answer sys NETLINK_ROUTE (links_request ?sq) = ds @ d # ds'"
      "links = concat lss @ ls" "list_all2 (\<lambda>d ls. links_dgram (ns_pid sys) ?sq d ls [] \<and> ls \<noteq> []) ds lss"
      "links_dgram (ns_pid sys) ?sq d ls (done_msg (ns_pid sys) ?sq)"
    using assms(1) by (auto simp: links_answered_def)
  have "fold link_step links md = md\<lparr>md_info := xdp_says (lk_xdp l) zero_info\<rparr>"
    using fold_links [of md links] filter_distinct [OF a(2) assms(2)] a(2) assms(3) by (simp add: assms(4))
  then have "recv_loop (ns_pid sys) ?sq (Some dump_link_nlmsg) 4096 (ns_answer sys NETLINK_ROUTE (links_request ?sq)) md =
      Ret (0, md\<lparr>md_info := xdp_says (lk_xdp l) zero_info\<rparr>)"
    using recv_dump [OF a(5,6)] by (simp add: a(3,4))
  then show ?thesis
    using send_recv_works [OF a(1) refl links_request_sent(1,2) [OF refl], of NETLINK_ROUTE "Some dump_link_nlmsg" md w]
    unfolding links_request_sent(3) [OF refl] by simp
qed

lemma query_run:
  assumes "links_answered sys0 links" "l \<in> set links" "lk_ifindex l \<noteq> 0" "features_known sys1 sys2 (lk_ifindex l) x \<or> features_unknown sys1 \<and> x = 0"
    "flags AND NOT F_MASK = 0" "flags AND F_MODES \<in> {0, F_SKB_MODE, F_DRV_MODE, F_HW_MODE}" "40 \<le> o_sz p" "40 < o_sz p \<Longrightarrow> o_tail_zero p"
  shows "\<exists>w'. bpf_xdp_query sys0 sys1 sys2 i0 (lk_ifindex l) flags (Some p) w =
    Ret (0, Some (query_result (xdp_says (lk_xdp l) zero_info) x p), w')"
proof -
  let ?md = "\<lparr>md_ifindex = lk_ifindex l, md_flags = flags AND F_MODES, md_info = zero_info, md_feature_flags = 0\<rparr>"
  let ?i = "xdp_says (lk_xdp l) zero_info"
  obtain w1 where w1: "libbpf_netlink_send_recv sys0 (patch 16 [AF_PACKET] (new_req 32 RTM_GETLINK (NLM_F_DUMP OR NLM_F_REQUEST))) NETLINK_ROUTE
      (Some dump_link_nlmsg) ?md w = Ret (0, ?md\<lparr>md_info := ?i\<rparr>, w1)"
    using links_answered_run [OF assms(1-3) refl] by blast
  define p1 where "p1 = p\<lparr>q_prog_id := xi_prog_id ?i, q_drv_prog_id := xi_drv_prog_id ?i, q_hw_prog_id := xi_hw_prog_id ?i,
     q_skb_prog_id := xi_skb_prog_id ?i, q_attach_mode := xi_attach_mode ?i\<rparr>"
  have set: "set_xdp_info ?i (Some p) = Some p1" using assms(7) by (simp add: set_xdp_info_def OPTS_SET_def p1_def)
  obtain w2 where "query_features sys1 sys2 i0 (lk_ifindex l) (Some p1) w1 = Ret (0, Some (p1\<lparr>q_feature_flags := x\<rparr>), w2)"
    using assms(4) features_known_set [of sys1 sys2 "lk_ifindex l" x i0 "Some p1" w1] features_unknown_none [of sys1 sys2 i0 "lk_ifindex l" "Some p1" w1]
    by auto
  moreover have "p1\<lparr>q_feature_flags := x\<rparr> = query_result ?i x p" by (simp add: p1_def query_result_def)
  moreover have "o_sz p1 = o_sz p" by (simp add: p1_def)
  moreover have "(flags AND F_MODES) AND ((flags AND F_MODES) - 1) = 0" using assms(6) by auto
  ultimately show ?thesis
    using w1 set assms(5,7,8) by (simp add: bpf_xdp_query_def OPTS_VALID_def Let_def)
qed

text \<open>
  C18. Querying finds what the kernel says about an interface. When the kernel lists its links, over any number of datagrams and with any
  attributes, and one of them has the number that was asked for, then \<open>bpf_xdp_query\<close> returns the mode and the program numbers
  of that link, and the features if the kernel knows them and none otherwise; \<open>bpf_xdp_query_id\<close> returns the program of the mode that was
  asked for, or, without a mode, the only one. Sockets and buffers are released.
\<close>

theorem xdp_query_reads:
  assumes "links_answered sys0 links" "l \<in> set links" "lk_ifindex l \<noteq> 0" "features_known sys1 sys2 (lk_ifindex l) x \<or> features_unknown sys1 \<and> x = 0"
    "flags AND NOT F_MASK = 0" "flags AND F_MODES \<in> {0, F_SKB_MODE, F_DRV_MODE, F_HW_MODE}" "40 \<le> o_sz p" "40 < o_sz p \<Longrightarrow> o_tail_zero p"
    "i = xdp_says (lk_xdp l) zero_info"
  shows "(\<exists>w'. bpf_xdp_query sys0 sys1 sys2 i0 (lk_ifindex l) flags (Some p) w = Ret (0, Some (query_result i x p), w') \<and> same_res w w') \<and>
    (\<exists>w'. bpf_xdp_query_id sys0 sys1 sys2 i0 (lk_ifindex l) flags w = Ret (0, Some (mode_id i (flags AND F_MODES)), w') \<and> same_res w w')"
proof -
  obtain w1 where w1: "bpf_xdp_query sys0 sys1 sys2 i0 (lk_ifindex l) flags (Some p) w = Ret (0, Some (query_result i x p), w1)"
    using query_run [OF assms(1-8)] assms(9) by blast
  have z: "40 \<le> o_sz zero_query_opts" "40 < o_sz zero_query_opts \<Longrightarrow> o_tail_zero zero_query_opts" by (simp_all add: zero_query_opts_def)
  obtain w2 where w2: "bpf_xdp_query sys0 sys1 sys2 i0 (lk_ifindex l) flags (Some zero_query_opts) w =
      Ret (0, Some (query_result i x zero_query_opts), w2)"
    using query_run [OF assms(1-6) z] assms(9) by blast
  have "bpf_xdp_query_id sys0 sys1 sys2 i0 (lk_ifindex l) flags w = Ret (0, Some (mode_id i (flags AND F_MODES)), w2)"
    using assms(6) by (auto simp: bpf_xdp_query_id_def w2 Let_def mode_id_def query_result_def)
  then show ?thesis using w1 query_balanced [OF w1] query_balanced [OF w2] by blast
qed

definition demo_link :: link where
  "demo_link = \<lparr>lk_ifindex = 3, lk_head = [0, 0, 1, 0], lk_rest = replicate 8 0,
     lk_attrs = [(3, [101, 116, 104, 48, 0]), (43, body [(2, [2]), (4, le_enc 4 (77 :: u32)), (6, le_enc 4 (77 :: u32))])],
     lk_xdp = Some [(2, [2]), (4, le_enc 4 (77 :: u32)), (6, le_enc 4 (77 :: u32))]\<rparr>"

definition demo_links :: nl_sys where
  "demo_links = demo_nl\<lparr>ns_answer := (\<lambda>proto msg. [\<lparr>dg_bytes = link_msg 7 100 demo_link, dg_peek_errs = [], dg_recv_errs = [], dg_realloc = True\<rparr>,
     \<lparr>dg_bytes = done_msg 7 100, dg_peek_errs = [EINTR], dg_recv_errs = [], dg_realloc = True\<rparr>])\<rparr>"

definition demo_old :: nl_sys where
  "demo_old = demo_nl\<lparr>ns_answer := (\<lambda>proto msg. [\<lparr>dg_bytes = ack_msg 7 100 0 (- 2) msg [], dg_peek_errs = [], dg_recv_errs = [], dg_realloc = True\<rparr>])\<rparr>"

lemma demo_link_ok: "link_ok demo_link"
  by (simp add: link_ok_def demo_link_def xdp_ok_def attr_key_def NLA_TYPE_MASK_def align4_def) auto

theorem xdp_query_reads_witness:
  "(\<exists>w'. bpf_xdp_query demo_links demo_old demo_old 0 3 0 (Some zero_query_opts) \<lparr>nw_fds = 4, nw_heap = 2, nw_sent = []\<rparr> =
      Ret (0, Some \<lparr>o_sz = 40, o_tail_zero = True, q_prog_id = 77, q_drv_prog_id = 0, q_hw_prog_id = 0, q_skb_prog_id = 77,
        q_attach_mode = 2, q_feature_flags = 0\<rparr>, w') \<and> nw_fds w' = 4 \<and> nw_heap w' = 2) \<and>
   (\<exists>w'. bpf_xdp_query_id demo_links demo_old demo_old 0 3 0 \<lparr>nw_fds = 4, nw_heap = 2, nw_sent = []\<rparr> = Ret (0, Some 77, w'))"
proof -
  have l: "links_answered demo_links [demo_link]"
    unfolding links_answered_def
    by (intro conjI exI [of _ "[\<lparr>dg_bytes = link_msg 7 100 demo_link, dg_peek_errs = [], dg_recv_errs = [], dg_realloc = True\<rparr>]"]
        exI [of _ "[[demo_link]]"] exI [of _ "\<lparr>dg_bytes = done_msg 7 100, dg_peek_errs = [EINTR], dg_recv_errs = [], dg_realloc = True\<rparr>"]
        exI [of _ "[]"])
      (simp_all add: demo_links_def demo_nl_def nl_works_def links_dgram_def dg_ok_def demo_link_ok)
  have f: "features_unknown demo_old"
    by (auto simp: features_unknown_def demo_old_def demo_nl_def nl_works_def dg_ok_def intro!: exI [of _ 0] exI [of _ "[]"])
  have i: "lk_ifindex demo_link = 3" by (simp add: demo_link_def)
  have says: "xdp_says (lk_xdp demo_link) zero_info =
      \<lparr>xi_prog_id = 77, xi_drv_prog_id = 0, xi_hw_prog_id = 0, xi_skb_prog_id = 77, xi_attach_mode = 2\<rparr>"
    by (simp add: xdp_says_def demo_link_def id_of_def attr_key_def NLA_TYPE_MASK_def zero_info_def endian)
  show ?thesis
    using xdp_query_reads [OF l, of demo_link demo_old demo_old 0 0 zero_query_opts _ 0 "\<lparr>nw_fds = 4, nw_heap = 2, nw_sent = []\<rparr>"] f
    unfolding i says by (auto simp: zero_query_opts_def query_result_def mode_id_def)
qed

end
