(* ===== verification/Libbpf_Tc.thy ===== *)
theory Libbpf_Tc
  imports Libbpf_Netlink
begin

unbundle bit_operations_syntax

section \<open>Traffic control\<close>

text \<open>
  The rest of \<open>lib/libbpf/src/netlink.c\<close>: creating the queueing discipline programs are attached to, and attaching, detaching and
  querying programs there. The information about a program that goes into its name (\<open>bpf_prog_get_info_by_fd\<close>) and the number of
  attributes the kernel's headers know (\<open>TCA_MAX\<close>) are parameters. Shown are what the request to attach a program says, and that what
  the kernel sends back is handed to the caller.
\<close>

abbreviation (input) BPF_TC_INGRESS :: int where "BPF_TC_INGRESS \<equiv> 1"
abbreviation (input) BPF_TC_EGRESS :: int where "BPF_TC_EGRESS \<equiv> 2"
abbreviation (input) BPF_TC_CUSTOM :: int where "BPF_TC_CUSTOM \<equiv> 4"
abbreviation (input) BPF_TC_F_REPLACE :: u32 where "BPF_TC_F_REPLACE \<equiv> 1"
abbreviation (input) TC_H_CLSACT :: u32 where "TC_H_CLSACT \<equiv> 0xFFFFFFF1"
abbreviation (input) TC_H_MIN_INGRESS :: u32 where "TC_H_MIN_INGRESS \<equiv> 0xFFF2"
abbreviation (input) TC_H_MIN_EGRESS :: u32 where "TC_H_MIN_EGRESS \<equiv> 0xFFF3"
abbreviation (input) RTM_NEWQDISC :: u16 where "RTM_NEWQDISC \<equiv> 36"
abbreviation (input) RTM_DELQDISC :: u16 where "RTM_DELQDISC \<equiv> 37"
abbreviation (input) RTM_NEWTFILTER :: u16 where "RTM_NEWTFILTER \<equiv> 44"
abbreviation (input) RTM_DELTFILTER :: u16 where "RTM_DELTFILTER \<equiv> 45"
abbreviation (input) RTM_GETTFILTER :: u16 where "RTM_GETTFILTER \<equiv> 46"
abbreviation (input) NLM_F_ECHO :: u16 where "NLM_F_ECHO \<equiv> 8"
abbreviation (input) NLM_F_REPLACE :: u16 where "NLM_F_REPLACE \<equiv> 0x100"
abbreviation (input) NLM_F_EXCL :: u16 where "NLM_F_EXCL \<equiv> 0x200"
abbreviation (input) NLM_F_CREATE :: u16 where "NLM_F_CREATE \<equiv> 0x400"
abbreviation (input) TCA_KIND :: nat where "TCA_KIND \<equiv> 1"
abbreviation (input) TCA_OPTIONS :: nat where "TCA_OPTIONS \<equiv> 2"
abbreviation (input) TCA_BPF_FD :: nat where "TCA_BPF_FD \<equiv> 6"
abbreviation (input) TCA_BPF_NAME :: nat where "TCA_BPF_NAME \<equiv> 7"
abbreviation (input) TCA_BPF_FLAGS :: nat where "TCA_BPF_FLAGS \<equiv> 8"
abbreviation (input) TCA_BPF_ID :: nat where "TCA_BPF_ID \<equiv> 11"
abbreviation (input) TCA_BPF_MAX :: nat where "TCA_BPF_MAX \<equiv> 11"

definition TC_H_MAJ :: "u32 \<Rightarrow> u32" where "TC_H_MAJ h = h AND 0xFFFF0000"

definition TC_H_MAKE :: "u32 \<Rightarrow> u32 \<Rightarrow> u32" where
  "TC_H_MAKE maj mn = (maj AND 0xFFFF0000) OR (mn AND 0xFFFF)"

text \<open>The protocol of all filters, in network byte order.\<close>

definition all_protocols :: u32 where "all_protocols = 0x0300"

record bpf_tc_hook = opts_hdr +
  hk_ifindex :: int
  hk_attach_point :: int
  hk_parent :: u32

record bpf_tc_opts = opts_hdr +
  to_prog_fd :: int
  to_flags :: u32
  to_prog_id :: u32
  to_handle :: u32
  to_priority :: u32

text \<open>The strings with their terminating zeros.\<close>

definition str_bpf :: "u8 list" where "str_bpf = [98, 112, 102, 0]"
definition str_clsact :: "u8 list" where "str_clsact = [99, 108, 115, 97, 99, 116, 0]"

subsection \<open>The queueing discipline\<close>

definition clsact_config :: "u8 list \<Rightarrow> (int \<times> u8 list) option" where
  "clsact_config req =
     nlattr_add (patch 24 (le_enc 4 (TC_H_MAKE TC_H_CLSACT 0)) (patch 28 (le_enc 4 TC_H_CLSACT) req)) (int TCA_KIND) (Some str_clsact) 7"

definition attach_point_to_config :: "bpf_tc_hook \<Rightarrow> int" where
  "attach_point_to_config hook =
     (let ap = OPTS_GET (Some hook) 16 hk_attach_point 0 in
      if ap \<in> {BPF_TC_INGRESS, BPF_TC_EGRESS, 3} then (if OPTS_GET (Some hook) 20 hk_parent 0 \<noteq> 0 then - EINVAL else 0)
      else if ap = BPF_TC_CUSTOM then - EOPNOTSUPP else - EINVAL)"

definition tc_get_tcm_parent :: "int \<Rightarrow> u32 \<Rightarrow> int \<times> u32" where
  "tc_get_tcm_parent attach_point parent =
     (if attach_point \<in> {BPF_TC_INGRESS, BPF_TC_EGRESS} then
        (if parent \<noteq> 0 then (- EINVAL, parent)
         else (0, TC_H_MAKE TC_H_CLSACT (if attach_point = BPF_TC_INGRESS then TC_H_MIN_INGRESS else TC_H_MIN_EGRESS)))
      else if attach_point = BPF_TC_CUSTOM then (if parent = 0 then (- EINVAL, parent) else (0, parent))
      else (- EINVAL, parent))"

text \<open>A request with a \<open>tcmsg\<close>: the interface is at 20, the handle at 24, the parent at 28 and the information at 32.\<close>

definition tc_req :: "u16 \<Rightarrow> u16 \<Rightarrow> int \<Rightarrow> u8 list" where
  "tc_req type fl ifindex = patch 20 (le_enc 4 (of_int ifindex :: u32)) (new_req 36 type fl)"

definition tc_send :: "nl_sys \<Rightarrow> u8 list \<Rightarrow> nl_world \<Rightarrow> (int \<times> nl_world) outcome" where
  "tc_send sys req w =
     (case libbpf_netlink_send_recv sys req NETLINK_ROUTE None () w of
        Fault \<Rightarrow> Fault
      | Waits \<Rightarrow> Waits
      | Ret (r, c, w) \<Rightarrow> Ret (r, w))"

definition tc_qdisc_modify :: "nl_sys \<Rightarrow> bpf_tc_hook \<Rightarrow> u16 \<Rightarrow> u16 \<Rightarrow> nl_world \<Rightarrow> (int \<times> nl_world) outcome" where
  "tc_qdisc_modify sys hook cmd fl w =
     (let ret = attach_point_to_config hook in
      if ret < 0 then Ret (ret, w)
      else
        (case clsact_config (tc_req cmd (NLM_F_REQUEST OR NLM_F_ACK OR fl) (OPTS_GET (Some hook) 12 hk_ifindex 0)) of
           None \<Rightarrow> Fault
         | Some (ret, req) \<Rightarrow> if ret < 0 then Ret (ret, w) else tc_send sys req w))"

definition tc_qdisc_create_excl :: "nl_sys \<Rightarrow> bpf_tc_hook \<Rightarrow> nl_world \<Rightarrow> (int \<times> nl_world) outcome" where
  "tc_qdisc_create_excl sys hook w = tc_qdisc_modify sys hook RTM_NEWQDISC (NLM_F_CREATE OR NLM_F_EXCL) w"

definition tc_qdisc_delete :: "nl_sys \<Rightarrow> bpf_tc_hook \<Rightarrow> nl_world \<Rightarrow> (int \<times> nl_world) outcome" where
  "tc_qdisc_delete sys hook w = tc_qdisc_modify sys hook RTM_DELQDISC 0 w"

definition bpf_tc_hook_create :: "nl_sys \<Rightarrow> bpf_tc_hook option \<Rightarrow> nl_world \<Rightarrow> (int \<times> nl_world) outcome" where
  "bpf_tc_hook_create sys hook w =
     (case hook of
        None \<Rightarrow> Ret (- EINVAL, w)
      | Some h \<Rightarrow>
          if \<not> OPTS_VALID hook 20 \<or> OPTS_GET hook 12 hk_ifindex 0 \<le> 0 then Ret (- EINVAL, w) else tc_qdisc_create_excl sys h w)"

subsection \<open>Detaching\<close>

definition tc_detach :: "nl_sys \<Rightarrow> bpf_tc_hook option \<Rightarrow> bpf_tc_opts option \<Rightarrow> bool \<Rightarrow> nl_world \<Rightarrow> (int \<times> nl_world) outcome" where
  "tc_detach sys hook opts flush w =
     (if hook = None \<or> \<not> OPTS_VALID hook 20 \<or> \<not> OPTS_VALID opts 28 then Ret (- EINVAL, w)
      else
        let ifindex = OPTS_GET hook 12 hk_ifindex 0;
            parent = OPTS_GET hook 20 hk_parent 0;
            attach_point = OPTS_GET hook 16 hk_attach_point 0;
            hnd = OPTS_GET opts 24 to_handle 0;
            priority = OPTS_GET opts 28 to_priority 0 in
        if ifindex \<le> 0 \<or> OPTS_GET opts 16 to_flags 0 \<noteq> 0 \<or> OPTS_GET opts 12 to_prog_fd 0 \<noteq> 0 \<or> OPTS_GET opts 20 to_prog_id 0 \<noteq> 0
        then Ret (- EINVAL, w)
        else if priority > 0xFFFF then Ret (- EINVAL, w)
        else if \<not> flush \<and> (hnd = 0 \<or> priority = 0) then Ret (- EINVAL, w)
        else if flush \<and> (hnd \<noteq> 0 \<or> priority \<noteq> 0) then Ret (- EINVAL, w)
        else
          let req = tc_req RTM_DELTFILTER (NLM_F_REQUEST OR NLM_F_ACK) ifindex;
              req = (if \<not> flush then patch 32 (le_enc 4 (TC_H_MAKE (push_bit 16 priority) all_protocols)) (patch 24 (le_enc 4 hnd) req) else req) in
          (case tc_get_tcm_parent attach_point parent of
             (ret, parent) \<Rightarrow>
               if ret < 0 then Ret (ret, w)
               else
                 let req = patch 28 (le_enc 4 parent) req in
                 (case (if \<not> flush then nlattr_add req (int TCA_KIND) (Some str_bpf) 4 else Some (0, req)) of
                    None \<Rightarrow> Fault
                  | Some (ret, req) \<Rightarrow> if ret < 0 then Ret (ret, w) else tc_send sys req w)))"

definition bpf_tc_detach :: "nl_sys \<Rightarrow> bpf_tc_hook option \<Rightarrow> bpf_tc_opts option \<Rightarrow> nl_world \<Rightarrow> (int \<times> nl_world) outcome" where
  "bpf_tc_detach sys hook opts w = (if opts = None then Ret (- EINVAL, w) else tc_detach sys hook opts False w)"

definition bpf_tc_hook_destroy :: "nl_sys \<Rightarrow> bpf_tc_hook option \<Rightarrow> nl_world \<Rightarrow> (int \<times> nl_world) outcome" where
  "bpf_tc_hook_destroy sys hook w =
     (case hook of
        None \<Rightarrow> Ret (- EINVAL, w)
      | Some h \<Rightarrow>
          if \<not> OPTS_VALID hook 20 \<or> OPTS_GET hook 12 hk_ifindex 0 \<le> 0 then Ret (- EINVAL, w)
          else
            let ap = OPTS_GET hook 16 hk_attach_point 0 in
            if ap \<in> {BPF_TC_INGRESS, BPF_TC_EGRESS} then tc_detach sys hook None True w
            else if ap = 3 then tc_qdisc_delete sys h w
            else if ap = BPF_TC_CUSTOM then Ret (- EOPNOTSUPP, w)
            else Ret (- EINVAL, w))"

subsection \<open>Attaching and querying\<close>

record bpf_cb_ctx =
  cb_opts :: "bpf_tc_opts option"
  cb_processed :: bool

text \<open>The message at \<open>tc\<close> is a \<open>tcmsg\<close>: its handle is at 8 and its information at 16.\<close>

definition tc_info_of :: "u8 list \<Rightarrow> bpf_cb_ctx \<Rightarrow> nat \<Rightarrow> nat option list \<Rightarrow> bool \<Rightarrow> (int \<times> bpf_cb_ctx) option" where
  "tc_info_of b info tc tb unicast =
     (if cb_opts info = None then Some (- EINVAL, info)
      else if unicast \<and> cb_processed info then Some (- EINVAL, info)
      else
        (case tb ! TCA_OPTIONS of
           None \<Rightarrow> Some (0, info)
         | Some a \<Rightarrow> do {
             (_, tbb) \<leftarrow> libbpf_nla_parse_nested b TCA_BPF_MAX a None;
             case tbb ! TCA_BPF_ID of
               None \<Rightarrow> Some (- EINVAL, info)
             | Some ia \<Rightarrow> do {
                 i \<leftarrow> libbpf_nla_getattr_u32 b ia;
                 hnd \<leftarrow> rd 4 b (tc + 8);
                 tinfo \<leftarrow> (rd 4 b (tc + 16) :: u32 option);
                 let opts = OPTS_SET 28 (to_priority_update (\<lambda>_. drop_bit 16 (TC_H_MAJ tinfo)))
                              (OPTS_SET 24 (to_handle_update (\<lambda>_. hnd)) (OPTS_SET 20 (to_prog_id_update (\<lambda>_. i)) (cb_opts info)));
                 Some (if unicast then 1 else 2, \<lparr>cb_opts = opts, cb_processed = True\<rparr>)
               }
           }))"

definition get_tc_info :: "nat \<Rightarrow> u8 list \<Rightarrow> nat \<Rightarrow> bpf_cb_ctx \<Rightarrow> (int \<times> bpf_cb_ctx) option" where
  "get_tc_info tca_max b nh info = do {
     l \<leftarrow> (rd 4 b nh :: u32 option);
     (_, tb) \<leftarrow> libbpf_nla_parse b tca_max (nh + 16 + 20) (sint (l - 36)) None;
     case tb ! TCA_KIND of
       None \<Rightarrow> Some (0, info)
     | Some _ \<Rightarrow> do {
         fl \<leftarrow> (rd 2 b (nh + 6) :: u16 option);
         tc_info_of b info (nh + 16) tb (fl AND NLM_F_ECHO \<noteq> 0)
       }
   }"

text \<open>Decimal digits, and the name of an attached program: its name and its number.\<close>

fun decimal :: "nat \<Rightarrow> u8 list" where
  "decimal n = (if n < 10 then [of_nat (48 + n)] else decimal (n div 10) @ [of_nat (48 + n mod 10)])"

declare decimal.simps [simp del]

definition tc_name :: "u8 list \<Rightarrow> u32 \<Rightarrow> u8 list" where
  "tc_name name i = name @ [58, 91] @ decimal (unat i) @ [93]"

definition tc_add_fd_and_name :: "(int \<Rightarrow> int + u8 list \<times> u32) \<Rightarrow> u8 list \<Rightarrow> int \<Rightarrow> (int \<times> u8 list) option" where
  "tc_add_fd_and_name prog_info req fd =
     (case prog_info fd of
        Inl ret \<Rightarrow> Some (ret, req)
      | Inr (name, i) \<Rightarrow> do {
          (ret, req) \<leftarrow> nlattr_add req (int TCA_BPF_FD) (Some (le_enc 4 (of_int fd :: u32))) 4;
          if ret < 0 then Some (ret, req)
          else
            let len = length (tc_name name i) in
            if len \<ge> 256 then Some (- ENAMETOOLONG, req)
            else nlattr_add req (int TCA_BPF_NAME) (Some (tc_name name i @ [0])) (int len + 1)
        })"

text \<open>The request of \<open>bpf_tc_attach\<close> from the kind on.\<close>

definition tc_attach_attrs :: "(int \<Rightarrow> int + u8 list \<times> u32) \<Rightarrow> u8 list \<Rightarrow> int \<Rightarrow> (int \<times> u8 list) option" where
  "tc_attach_attrs prog_info req prog_fd = do {
     (ret, req) \<leftarrow> nlattr_add req (int TCA_KIND) (Some str_bpf) 4;
     if ret < 0 then Some (ret, req)
     else do {
       (nla, req) \<leftarrow> nlattr_begin_nested req (int TCA_OPTIONS);
       case nla of
         None \<Rightarrow> Some (- EMSGSIZE, req)
       | Some tail \<Rightarrow> do {
           (ret, req) \<leftarrow> tc_add_fd_and_name prog_info req prog_fd;
           if ret < 0 then Some (ret, req)
           else do {
             (ret, req) \<leftarrow> nlattr_add req (int TCA_BPF_FLAGS) (Some (le_enc 4 (1 :: u32))) 4;
             if ret < 0 then Some (ret, req)
             else do { req \<leftarrow> nlattr_end_nested req tail; Some (0, req) }
           }
         }
     }
   }"

text \<open>The end of \<open>bpf_tc_attach\<close> and \<open>bpf_tc_query\<close>: asking the kernel and looking whether it said anything about a filter.\<close>

definition tc_ask :: "nl_sys \<Rightarrow> nat \<Rightarrow> u8 list \<Rightarrow> bpf_tc_opts option \<Rightarrow> nl_world \<Rightarrow> (int \<times> bpf_tc_opts option \<times> nl_world) outcome" where
  "tc_ask sys tca_max req opts w =
     (case libbpf_netlink_send_recv sys req NETLINK_ROUTE (Some (get_tc_info tca_max)) \<lparr>cb_opts = opts, cb_processed = False\<rparr> w of
        Fault \<Rightarrow> Fault
      | Waits \<Rightarrow> Waits
      | Ret (ret, info, w) \<Rightarrow>
          let opts = cb_opts info in
          if ret < 0 then Ret (ret, opts, w) else if \<not> cb_processed info then Ret (- ENOENT, opts, w) else Ret (ret, opts, w))"

definition bpf_tc_attach ::
  "nl_sys \<Rightarrow> nat \<Rightarrow> (int \<Rightarrow> int + u8 list \<times> u32) \<Rightarrow> bpf_tc_hook option \<Rightarrow> bpf_tc_opts option \<Rightarrow> nl_world \<Rightarrow> (int \<times> bpf_tc_opts option \<times> nl_world) outcome" where
  "bpf_tc_attach sys tca_max prog_info hook opts w =
     (if hook = None \<or> opts = None \<or> \<not> OPTS_VALID hook 20 \<or> \<not> OPTS_VALID opts 28 then Ret (- EINVAL, opts, w)
      else
        let ifindex = OPTS_GET hook 12 hk_ifindex 0;
            parent = OPTS_GET hook 20 hk_parent 0;
            attach_point = OPTS_GET hook 16 hk_attach_point 0;
            hnd = OPTS_GET opts 24 to_handle 0;
            priority = OPTS_GET opts 28 to_priority 0;
            prog_fd = OPTS_GET opts 12 to_prog_fd 0;
            flags = OPTS_GET opts 16 to_flags 0 in
        if ifindex \<le> 0 \<or> prog_fd = 0 \<or> OPTS_GET opts 20 to_prog_id 0 \<noteq> 0 then Ret (- EINVAL, opts, w)
        else if priority > 0xFFFF then Ret (- EINVAL, opts, w)
        else if flags AND NOT BPF_TC_F_REPLACE \<noteq> 0 then Ret (- EINVAL, opts, w)
        else
          let fl = (if flags AND BPF_TC_F_REPLACE \<noteq> 0 then NLM_F_REPLACE else NLM_F_EXCL);
              req = tc_req RTM_NEWTFILTER (NLM_F_REQUEST OR NLM_F_ACK OR NLM_F_CREATE OR NLM_F_ECHO OR fl) ifindex;
              req = patch 32 (le_enc 4 (TC_H_MAKE (push_bit 16 priority) all_protocols)) (patch 24 (le_enc 4 hnd) req) in
          (case tc_get_tcm_parent attach_point parent of
             (ret, parent) \<Rightarrow>
               if ret < 0 then Ret (ret, opts, w)
               else
                 (case tc_attach_attrs prog_info (patch 28 (le_enc 4 parent) req) prog_fd of
                    None \<Rightarrow> Fault
                  | Some (ret, req) \<Rightarrow> if ret < 0 then Ret (ret, opts, w) else tc_ask sys tca_max req opts w)))"

definition bpf_tc_query ::
  "nl_sys \<Rightarrow> nat \<Rightarrow> bpf_tc_hook option \<Rightarrow> bpf_tc_opts option \<Rightarrow> nl_world \<Rightarrow> (int \<times> bpf_tc_opts option \<times> nl_world) outcome" where
  "bpf_tc_query sys tca_max hook opts w =
     (if hook = None \<or> opts = None \<or> \<not> OPTS_VALID hook 20 \<or> \<not> OPTS_VALID opts 28 then Ret (- EINVAL, opts, w)
      else
        let ifindex = OPTS_GET hook 12 hk_ifindex 0;
            parent = OPTS_GET hook 20 hk_parent 0;
            attach_point = OPTS_GET hook 16 hk_attach_point 0;
            hnd = OPTS_GET opts 24 to_handle 0;
            priority = OPTS_GET opts 28 to_priority 0 in
        if ifindex \<le> 0 \<or> OPTS_GET opts 16 to_flags 0 \<noteq> 0 \<or> OPTS_GET opts 12 to_prog_fd 0 \<noteq> 0 \<or>
           OPTS_GET opts 20 to_prog_id 0 \<noteq> 0 \<or> hnd = 0 \<or> priority = 0
        then Ret (- EINVAL, opts, w)
        else if priority > 0xFFFF then Ret (- EINVAL, opts, w)
        else
          let req = patch 32 (le_enc 4 (TC_H_MAKE (push_bit 16 priority) all_protocols))
                      (patch 24 (le_enc 4 hnd) (tc_req RTM_GETTFILTER NLM_F_REQUEST ifindex)) in
          (case tc_get_tcm_parent attach_point parent of
             (ret, parent) \<Rightarrow>
               if ret < 0 then Ret (ret, opts, w)
               else
                 (case nlattr_add (patch 28 (le_enc 4 parent) req) (int TCA_KIND) (Some str_bpf) 4 of
                    None \<Rightarrow> Fault
                  | Some (ret, req) \<Rightarrow> if ret < 0 then Ret (ret, opts, w) else tc_ask sys tca_max req opts w)))"

subsection \<open>The request to attach a filter\<close>

text \<open>The attributes inside of the options, and what a message that asks for a new filter has to say.\<close>

definition filter_attrs :: "int \<Rightarrow> u8 list \<Rightarrow> (int \<times> u8 list) list" where
  "filter_attrs fd name = [(6, le_enc 4 (of_int fd :: u32)), (7, name @ [0]), (8, le_enc 4 (1 :: u32))]"

definition tc_request_says :: "u8 list \<Rightarrow> nat \<Rightarrow> u32 \<Rightarrow> u16 \<Rightarrow> int \<Rightarrow> u32 \<Rightarrow> u32 \<Rightarrow> u32 \<Rightarrow> int \<Rightarrow> u8 list \<Rightarrow> bool" where
  "tc_request_says msg tca_max sq fl ifindex hnd parent tinfo fd name \<longleftrightarrow>
     rd 4 msg 0 = Some (of_nat (length msg) :: u32) \<and> rd 2 msg 4 = Some RTM_NEWTFILTER \<and> rd 2 msg 6 = Some fl \<and>
     rd 4 msg 8 = Some sq \<and> rd 4 msg 20 = Some (of_int ifindex :: u32) \<and> rd 4 msg 24 = Some hnd \<and> rd 4 msg 28 = Some parent \<and>
     rd 4 msg 32 = Some tinfo \<and>
     (\<exists>tb q itb. libbpf_nla_parse msg tca_max 36 (int (length msg) - 36) None = Some (0, tb) \<and>
        entry_is msg (tb ! TCA_KIND) (Some str_bpf) \<and> tb ! TCA_OPTIONS = Some q \<and>
        libbpf_nla_parse_nested msg TCA_BPF_MAX q None = Some (0, itb) \<and>
        (\<forall>k \<le> TCA_BPF_MAX. entry_is msg (itb ! k) ([TCA_BPF_FD \<mapsto> le_enc 4 (of_int fd :: u32), TCA_BPF_NAME \<mapsto> name @ [0],
            TCA_BPF_FLAGS \<mapsto> le_enc 4 (1 :: u32)] k)))"

lemma length_decimal: "n < 10 ^ k \<Longrightarrow> 0 < k \<Longrightarrow> length (decimal n) \<le> k"
proof (induction n arbitrary: k rule: decimal.induct)
  case (1 n)
  show ?case
  proof (cases "n < 10")
    case True
    then show ?thesis using 1(3) by (simp add: decimal.simps)
  next
    case False
    then obtain j where j: "k = Suc j" "0 < j" using 1(2,3) by (cases k; cases "k - 1") auto
    have "n div 10 < 10 ^ j" using 1(2) j(1) by (simp add: less_mult_imp_div_less mult.commute)
    then have "length (decimal (n div 10)) \<le> j" using 1(1) False j(2) by simp
    then show ?thesis using False j(1) by (subst decimal.simps) simp
  qed
qed

lemma length_tc_name: "length name \<le> 15 \<Longrightarrow> length (tc_name name i) \<le> 28"
  using length_decimal [of "unat i" 10] unsigned_less [of i, where ?'a = nat] by (simp add: tc_name_def)

lemma tc_attach_attrs_nested:
  assumes "prog_info fd = Inr (name, i)" "length (tc_name name i) < 256"
  shows "tc_attach_attrs prog_info req fd =
    do { (e, req1) \<leftarrow> add_attrs req [(1, str_bpf)]; if e < 0 then Some (e, req1) else add_nested req1 2 (filter_attrs fd (tc_name name i)) }"
proof -
  define d where "d = tc_name name i @ [0]"
  have d: "d \<noteq> []" "int (length (tc_name name i)) + 1 = int (length d)" by (simp_all add: d_def)
  have add: "tc_add_fd_and_name prog_info r fd = do {
      (ret, r) \<leftarrow> nlattr_add r 6 (Some (le_enc 4 (of_int fd :: u32))) 4;
      if ret < 0 then Some (ret, r) else nlattr_add r 7 (Some d) (int (length d)) }" for r
    using assms d(2) by (auto simp: tc_add_fd_and_name_def Let_def d_def [symmetric] split: bind_split)
  show ?thesis
    using d(1) unfolding tc_attach_attrs_def add_nested_def filter_attrs_def add d_def [symmetric]
    by (auto simp: le_enc_4_ne str_bpf_def split: bind_split option.split)
qed

lemma tc_request_built:
  assumes "prog_info fd = Inr (name, i)" "length name \<le> 15"
    "req0 = patch 28 (le_enc 4 parent) (patch 32 (le_enc 4 tinfo) (patch 24 (le_enc 4 hnd) (tc_req RTM_NEWTFILTER fl ifindex)))"
    "A = [(1 :: u16, str_bpf)] @ [(of_int (2 OR uint NLA_F_NESTED) :: u16, body (wire (filter_attrs fd (tc_name name i))))]"
  shows "\<exists>req. tc_attach_attrs prog_info req0 fd = Some (0, req) \<and> req_holds req 36 A \<and> seg 4 32 req = seg 4 32 req0"
proof -
  let ?f = "filter_attrs fd (tc_name name i)"
  have nm: "length (tc_name name i) \<le> 28" using length_tc_name [OF assms(2)] .
  have h: "req_holds req0 36 []" unfolding assms(3) tc_req_def using new_req_holds [of 36]
    by (intro req_holds_patch) (simp_all add: REQ_SIZE_def)
  have small: "data_small [(1, str_bpf)]" "data_small ?f" using nm by (simp_all add: data_small_def filter_attrs_def str_bpf_def)
  have len: "length (body (wire [(1, str_bpf)])) = 8" by (simp add: str_bpf_def align4_def)
  have "align4 (length (tc_name name i) + 1) \<le> 32" using nm unfolding align4_def by simp
  then have lf: "length (body (wire ?f)) \<le> 52" by (simp add: filter_attrs_def align4_def)
  obtain req1 where r1: "add_attrs req0 [(1, str_bpf)] = Some (0, req1)" "req_holds req1 36 (wire [(1, str_bpf)])" "seg 4 32 req1 = seg 4 32 req0"
    using add_attrs_run [OF h small(1), unfolded append_Nil len] by (auto simp: REQ_SIZE_def)
  obtain req where "add_nested req1 2 ?f = Some (0, req)" "req_holds req 36 A" "seg 4 32 req = seg 4 32 req1"
    using add_nested_run [OF r1(2) small(2), of 2] lf unfolding len assms(4) by (auto simp: REQ_SIZE_def)
  then show ?thesis using r1 nm by (auto simp: tc_attach_attrs_nested [where fd = fd and prog_info = prog_info and name = name and i = i, OF assms(1)])
qed

lemma tc_sent_request:
  assumes "req_holds req 36 A" "seg 4 32 req = seg 4 32 req0" "2 \<le> tca_max"
    "req0 = patch 28 (le_enc 4 parent) (patch 32 (le_enc 4 tinfo) (patch 24 (le_enc 4 hnd) (tc_req RTM_NEWTFILTER fl ifindex)))"
    "A = [(1 :: u16, str_bpf)] @ [(of_int (2 OR uint NLA_F_NESTED) :: u16, body (wire (filter_attrs fd name)))]"
    "R = patch 8 (le_enc 4 sq) (patch 12 (le_enc 4 (0 :: u32)) req)" "n = 36 + length (body A)"
  shows "rd 4 R 0 = Some (of_nat n :: u32)" "n \<le> length R" "n \<le> REQ_SIZE" "tc_request_says (take n R) tca_max sq fl ifindex hnd parent tinfo fd name"
proof -
  have h: "req_holds R 36 A" unfolding assms(6) using assms(1) by (intro req_holds_patch) simp_all
  have len: "length R = REQ_SIZE" "length req = REQ_SIZE" "n \<le> REQ_SIZE" using h assms(1,7) by (simp_all add: req_holds_def)
  show l: "rd 4 R 0 = Some (of_nat n :: u32)" using req_length [OF h] by (simp add: assms(7))
  show n: "n \<le> length R" "n \<le> REQ_SIZE" using len by simp_all
  have nest: "2 = unat ((of_int (2 OR uint NLA_F_NESTED) :: u16) AND NLA_TYPE_MASK)" by code_simp
  have b: "seg 36 (length (body A)) (take n R) = body A" "36 + length (body A) \<le> length (take n R)" "length (body A) < 2 ^ 16"
    using req_bytes [OF h] n by (simp_all add: assms(7))
  have sz: "int (length (take n R)) - 36 = int (length (body A))" using n by (simp add: assms(7))
  have keys: "map_of (rev (map attr_key [(1 :: u16, str_bpf)])) 1 = Some str_bpf"
      "map_of (rev (map attr_key (wire (filter_attrs fd name)))) = [TCA_BPF_FD \<mapsto> le_enc 4 (of_int fd :: u32), TCA_BPF_NAME \<mapsto> name @ [0],
            TCA_BPF_FLAGS \<mapsto> le_enc 4 (1 :: u32)]"
    by (simp_all add: attr_key_def NLA_TYPE_MASK_def filter_attrs_def)
  obtain tb q itb where p: "libbpf_nla_parse (take n R) tca_max 36 (int (length (take n R)) - 36) None = Some (0, tb)"
      "\<forall>k \<le> tca_max. k \<noteq> 2 \<longrightarrow> entry_is (take n R) (tb ! k) (map_of (rev (map attr_key [(1 :: u16, str_bpf)])) k)"
      "tb ! 2 = Some q" "libbpf_nla_parse_nested (take n R) TCA_BPF_MAX q None = Some (0, itb)"
      "\<forall>k \<le> TCA_BPF_MAX. entry_is (take n R) (itb ! k) (map_of (rev (map attr_key (wire (filter_attrs fd name)))) k)"
    using nested_bytes_read [OF assms(5) b nest assms(3), of TCA_BPF_MAX] unfolding sz by blast
  have "(1 :: nat) \<le> tca_max" "(1 :: nat) \<noteq> 2" using assms(3) by simp_all
  then have "entry_is (take n R) (tb ! 1) (Some str_bpf)" using p(2) keys(1) by metis
  moreover have f: "seg (4 + q) m req = seg (4 + q) m req0" if "q + m \<le> 32" for q m
    using seg_seg [OF that, of 4 req] seg_seg [OF that, of 4 req0] assms(2) len
    by (simp add: assms(4) tc_req_def new_req_fields REQ_SIZE_def)
  moreover have "seg 4 2 req0 = le_enc 2 RTM_NEWTFILTER" "seg 6 2 req0 = le_enc 2 fl" "seg 20 4 req0 = le_enc 4 (of_int ifindex :: u32)"
      "seg 24 4 req0 = le_enc 4 hnd" "seg 28 4 req0 = le_enc 4 parent" "seg 32 4 req0 = le_enc 4 tinfo"
    using new_req_fields [of 36 RTM_NEWTFILTER fl] by (simp_all add: assms(4) tc_req_def segs REQ_SIZE_def)
  then have "seg 4 2 R = le_enc 2 RTM_NEWTFILTER" "seg 6 2 R = le_enc 2 fl" "seg 20 4 R = le_enc 4 (of_int ifindex :: u32)"
      "seg 24 4 R = le_enc 4 hnd" "seg 28 4 R = le_enc 4 parent" "seg 32 4 R = le_enc 4 tinfo" "seg 8 4 R = le_enc 4 sq"
      "seg 0 4 R = le_enc 4 (of_nat n :: u32)"
    using f [of 0 2] f [of 2 2] f [of 16 4] f [of 20 4] f [of 24 4] f [of 28 4] h len assms(7)
    by (simp_all add: assms(6) segs REQ_SIZE_def req_holds_def)
  moreover have "seg p m (take n R) = seg p m R" if "p + m \<le> 36" for p m using that by (simp add: assms(7))
  ultimately show "tc_request_says (take n R) tca_max sq fl ifindex hnd parent tinfo fd name"
    using n p(1,3-5) unfolding tc_request_says_def keys(2) by (simp add: assms(7) endian)
qed

subsection \<open>The answer of the kernel\<close>

text \<open>The kernel sends the new filter back, with its handle, priority and program, and then acknowledges the request.\<close>

definition filter_answer :: "u32 \<Rightarrow> u32 \<Rightarrow> dgram \<Rightarrow> u32 \<Rightarrow> u32 \<Rightarrow> u32 \<Rightarrow> bool" where
  "filter_answer pid sq d i hnd tinfo \<longleftrightarrow> dg_ok d \<and>
     (\<exists>A F type fl h1 h2. length (body A) < 2 ^ 30 \<and> (\<forall>a \<in> set A. 4 + length (snd a) < 2 ^ 16) \<and> (\<forall>a \<in> set F. 4 + length (snd a) < 2 ^ 16) \<and>
        latest A TCA_KIND \<noteq> None \<and> latest A TCA_OPTIONS = Some (body F) \<and> latest F TCA_BPF_ID = Some (le_enc 4 i) \<and>
        type \<noteq> NLMSG_ERROR \<and> type \<noteq> NLMSG_DONE \<and> fl AND NLM_F_ECHO \<noteq> 0 \<and> length h1 = 8 \<and> length h2 = 4 \<and>
        dg_bytes d = nl_header (36 + length (body A)) type fl sq pid @ (h1 @ le_enc 4 hnd @ h2 @ le_enc 4 tinfo) @ body A)"

definition told :: "u32 \<Rightarrow> u32 \<Rightarrow> u32 \<Rightarrow> bpf_tc_opts \<Rightarrow> bpf_tc_opts" where
  "told i hnd tinfo p = p\<lparr>to_prog_id := i, to_handle := hnd, to_priority := drop_bit 16 (TC_H_MAJ tinfo)\<rparr>"

lemma recv_filter:
  assumes "filter_answer pid sq d i hnd tinfo" "2 \<le> tca_max" "28 \<le> o_sz p"
  shows "\<exists>n'. recv_loop pid sq (Some (get_tc_info tca_max)) n (d # ds) \<lparr>cb_opts = Some p, cb_processed = False\<rparr> =
    recv_loop pid sq (Some (get_tc_info tca_max)) n' ds \<lparr>cb_opts = Some (told i hnd tinfo p), cb_processed = True\<rparr>"
proof -
  obtain A F type fl h1 h2 where a: "dg_ok d" "length (body A) < 2 ^ 30" "\<forall>a \<in> set A. 4 + length (snd a) < 2 ^ 16" "\<forall>a \<in> set F. 4 + length (snd a) < 2 ^ 16"
      "latest A TCA_KIND \<noteq> None" "latest A TCA_OPTIONS = Some (body F)" "latest F TCA_BPF_ID = Some (le_enc 4 i)"
      "type \<noteq> NLMSG_ERROR" "type \<noteq> NLMSG_DONE" "fl AND NLM_F_ECHO \<noteq> 0" "length h1 = 8" "length h2 = 4"
      "dg_bytes d = nl_header (36 + length (body A)) type fl sq pid @ (h1 @ le_enc 4 hnd @ h2 @ le_enc 4 tinfo) @ body A"
    using assms(1) unfolding filter_answer_def by blast
  let ?b = "dg_bytes d" and ?head = "h1 @ le_enc 4 hnd @ h2 @ le_enc 4 tinfo"
  let ?c = "\<lparr>cb_opts = Some p, cb_processed = False\<rparr>" and ?c' = "\<lparr>cb_opts = Some (told i hnd tinfo p), cb_processed = True\<rparr>"
  have m: "?b = nl_header (16 + 20 + length (body A)) type fl sq pid @ ?head @ body A" "length ?head = 20" using a(11-13) by simp_all
  have len: "length ?b = 36 + length (body A)" unfolding m(1) using m(2) by simp
  have w: "seg 0 (length ?b) ?b = ?b" "0 + length ?b \<le> length ?b" by (simp_all add: seg_def)
  note parse = attrs_msg_parse [OF m order_refl w a(2,3)]
  have hd: "seg 0 16 ?b = nl_header (36 + length (body A)) type fl sq pid" using parse(1) by simp
  obtain tb where tb: "libbpf_nla_parse ?b tca_max 36 (sint ((of_nat (36 + length (body A)) :: u32) - 36)) None = Some (0, tb)"
      "\<forall>k \<le> tca_max. entry_is ?b (tb ! k) (latest A k)"
    using parse(2) [of tca_max] by auto
  have "1 \<le> tca_max" using assms(2) by simp
  then have "entry_is ?b (tb ! 1) (latest A 1)" "entry_is ?b (tb ! 2) (Some (body F))" using tb(2) assms(2) a(6) by metis+
  then obtain k q where kq: "tb ! 1 = Some k" "tb ! 2 = Some q" "entry_is ?b (Some q) (Some (body F))"
    using a(5) by (auto simp: entry_is_def split: option.split_asm)
  obtain tbb where nb: "libbpf_nla_parse_nested ?b TCA_BPF_MAX q None = Some (0, tbb)" "entry_is ?b (tbb ! 11) (Some (le_enc 4 i))"
    using nested_back [OF kq(3) a(4), of TCA_BPF_MAX] a(7) by (metis order_refl)
  obtain ia where ia: "tbb ! 11 = Some ia" "libbpf_nla_getattr_u32 ?b ia = Some i"
    using nb(2) by (auto simp: entry_is_def libbpf_nla_getattr_u32_def libbpf_nla_data_def endian)
  have "16 \<le> length ?b" using len by simp
  note f = nl_header_fields [of 0, simplified, OF hd this]
  have "seg 24 4 ?b = le_enc 4 hnd" "seg 32 4 ?b = le_enc 4 tinfo" using a(11,12) by (simp_all add: m(1) seg_def)
  then have r: "rd 4 ?b 24 = Some hnd" "rd 4 ?b 32 = Some tinfo" using len by (simp_all add: endian)
  have sets: "OPTS_SET 28 (to_priority_update (\<lambda>_. drop_bit 16 (TC_H_MAJ tinfo)))
      (OPTS_SET 24 (to_handle_update (\<lambda>_. hnd)) (OPTS_SET 20 (to_prog_id_update (\<lambda>_. i)) (Some p))) = Some (told i hnd tinfo p)"
    using assms(3) by (simp add: OPTS_SET_def told_def)
  have "get_tc_info tca_max ?b 0 ?c = Some (1, ?c')"
    using f(1,3) tb(1) kq(1,2) nb(1) ia r sets a(10) by (simp add: get_tc_info_def tc_info_of_def Let_def del: rd_Some)
  then have "recv_msgs pid sq (Some (get_tc_info tca_max)) ?b 0 (int (length ?b)) False ?c = Some (Start ?c')"
    using recv_msgs_step [where f = "get_tc_info tca_max" and c = ?c, OF hd _ _ _ _ a(8,9) refl, of "int (length ?b)" 1 ?c' False] a(2) len by simp
  moreover have "?b \<noteq> []" using len by auto
  ultimately show ?thesis using recv_loop_ok [OF a(1), of pid sq "Some (get_tc_info tca_max)" n ds ?c] by auto
qed

text \<open>Arguments of \<open>bpf_tc_attach\<close> that it accepts.\<close>

definition tc_args_ok :: "bpf_tc_hook \<Rightarrow> bpf_tc_opts \<Rightarrow> u32 \<Rightarrow> bool" where
  "tc_args_ok h p parent \<longleftrightarrow> 20 \<le> o_sz h \<and> (20 < o_sz h \<longrightarrow> o_tail_zero h) \<and> 28 \<le> o_sz p \<and> (28 < o_sz p \<longrightarrow> o_tail_zero p) \<and>
     0 < hk_ifindex h \<and> tc_get_tcm_parent (hk_attach_point h) (hk_parent h) = (0, parent) \<and> to_prog_fd p \<noteq> 0 \<and> to_prog_id p = 0 \<and>
     to_priority p \<le> 0xFFFF \<and> to_flags p \<in> {0, BPF_TC_F_REPLACE}"

definition tc_flags :: "u32 \<Rightarrow> u16" where
  "tc_flags flags = NLM_F_REQUEST OR NLM_F_ACK OR NLM_F_CREATE OR NLM_F_ECHO OR (if flags = BPF_TC_F_REPLACE then NLM_F_REPLACE else NLM_F_EXCL)"

lemma tc_attach_sends:
  assumes "tc_args_ok h p parent" "tc_attach_attrs prog_info (patch 28 (le_enc 4 parent) (patch 32 (le_enc 4 (TC_H_MAKE (push_bit 16 (to_priority p)) all_protocols))
      (patch 24 (le_enc 4 (to_handle p)) (tc_req RTM_NEWTFILTER (tc_flags (to_flags p)) (hk_ifindex h))))) (to_prog_fd p) = Some (0, req)"
  shows "bpf_tc_attach sys tca_max prog_info (Some h) (Some p) w = tc_ask sys tca_max req (Some p) w"
proof -
  have "(if to_flags p AND BPF_TC_F_REPLACE \<noteq> 0 then NLM_F_REPLACE else NLM_F_EXCL) = (if to_flags p = BPF_TC_F_REPLACE then NLM_F_REPLACE else NLM_F_EXCL)"
      "to_flags p AND NOT BPF_TC_F_REPLACE = 0" "\<not> to_priority p > 0xFFFF"
    using assms(1) by (auto simp: tc_args_ok_def)
  then show ?thesis
    using assms unfolding tc_args_ok_def tc_flags_def by (simp add: bpf_tc_attach_def OPTS_VALID_def OPTS_GET_def)
qed

text \<open>
  C20. Attaching a filter asks the kernel for what the caller asked for and returns what it says. For arguments that are accepted the
  message names the interface, the handle, the parent of the direction and the priority for all protocols; its attributes are
  the kind and the options with the program, its name and the flag for direct action. If the kernel sends the filter back and acknowledges the
  request without an error, the caller gets the number of the program, the handle and the priority; socket and buffer are released.
\<close>

theorem tc_attach_acknowledged:
  assumes "tc_args_ok h p parent" "prog_info (to_prog_fd p) = Inr (name, i)" "length name \<le> 15" "nl_works sys" "2 \<le> tca_max" "sq = of_int (ns_time sys)"
  shows "\<exists>msg. tc_request_says msg tca_max sq (tc_flags (to_flags p)) (hk_ifindex h) (to_handle p) parent
      (TC_H_MAKE (push_bit 16 (to_priority p)) all_protocols) (to_prog_fd p) (tc_name name i) \<and>
    (\<forall>d d2 i' hnd tinfo fl rest. ns_answer sys NETLINK_ROUTE msg = [d, d2] \<longrightarrow> filter_answer (ns_pid sys) sq d i' hnd tinfo \<longrightarrow> dg_ok d2 \<longrightarrow>
       dg_bytes d2 = ack_msg (ns_pid sys) sq fl 0 msg rest \<longrightarrow> fl AND NLM_F_MULTI = 0 \<longrightarrow> length rest < 2 ^ 31 - 36 \<longrightarrow>
       bpf_tc_attach sys tca_max prog_info (Some h) (Some p) w =
         Ret (0, Some (told i' hnd tinfo p), w\<lparr>nw_sent := nw_sent w @ [(NETLINK_ROUTE, msg)]\<rparr>))"
proof -
  let ?A = "[(1 :: u16, str_bpf)] @ [(of_int (2 OR uint NLA_F_NESTED) :: u16, body (wire (filter_attrs (to_prog_fd p) (tc_name name i))))]"
  let ?parse = "Some (get_tc_info tca_max)" and ?c = "\<lparr>cb_opts = Some p, cb_processed = False\<rparr>"
  obtain req where r: "bpf_tc_attach sys tca_max prog_info (Some h) (Some p) w = tc_ask sys tca_max req (Some p) w" "req_holds req 36 ?A"
      "seg 4 32 req = seg 4 32 (patch 28 (le_enc 4 parent) (patch 32 (le_enc 4 (TC_H_MAKE (push_bit 16 (to_priority p)) all_protocols))
        (patch 24 (le_enc 4 (to_handle p)) (tc_req RTM_NEWTFILTER (tc_flags (to_flags p)) (hk_ifindex h)))))"
    using tc_request_built [where prog_info = prog_info and fd = "to_prog_fd p" and name = name and i = i, OF assms(2,3) refl refl]
      tc_attach_sends [OF assms(1)] by blast
  define R where "R = patch 8 (le_enc 4 sq) (patch 12 (le_enc 4 (0 :: u32)) req)"
  define n where "n = 36 + length (body ?A)"
  note m = tc_sent_request [OF r(2,3) assms(5) refl refl R_def n_def]
  have n: "n < 2 ^ 32" "16 \<le> n" using m(3) by (simp_all add: REQ_SIZE_def n_def)
  have sz: "28 \<le> o_sz p" using assms(1) by (simp add: tc_args_ok_def)
  have "bpf_tc_attach sys tca_max prog_info (Some h) (Some p) w = Ret (0, Some (told i' hnd tinfo p), w\<lparr>nw_sent := nw_sent w @ [(NETLINK_ROUTE, take n R)]\<rparr>)"
    if a: "ns_answer sys NETLINK_ROUTE (take n R) = [d, d2]" "filter_answer (ns_pid sys) sq d i' hnd tinfo" "dg_ok d2"
      "dg_bytes d2 = ack_msg (ns_pid sys) sq fl 0 (take n R) rest" "fl AND NLM_F_MULTI = 0" "length rest < 2 ^ 31 - 36" for d d2 i' hnd tinfo fl rest
  proof -
    let ?c' = "\<lparr>cb_opts = Some (told i' hnd tinfo p), cb_processed = True\<rparr>"
    have "rd 4 (take n R) 0 = Some (of_nat (length (take n R)) :: u32)" using m(4) by (simp add: tc_request_says_def)
    then have "recv_msgs (ns_pid sys) sq ?parse (dg_bytes d2) 0 (int (length (dg_bytes d2))) False ?c' = Some (Through False ?c')"
      using recv_ack [OF a(4,6), of ?parse ?c'] m(2,3) n(2) a(5) by simp
    moreover have "dg_bytes d2 \<noteq> []" unfolding a(4) ack_msg_def nl_header_def by (metis append_is_Nil_conv le_enc_4_ne)
    ultimately have "recv_loop (ns_pid sys) sq ?parse k [d2] ?c' = Ret (0, ?c')" for k
      using recv_loop_ok [OF a(3), of "ns_pid sys" sq ?parse k "[]" ?c'] by auto
    then have "recv_loop (ns_pid sys) sq ?parse 4096 (ns_answer sys NETLINK_ROUTE (take n R)) ?c = Ret (0, ?c')"
      using recv_filter [OF a(2) assms(5) sz, of 4096 "[d2]"] a(1) by auto
    then show ?thesis
      using r(1) send_recv_works [OF assms(4) R_def [unfolded assms(6)] m(1,2) n(1), of NETLINK_ROUTE ?parse ?c w]
      by (simp add: tc_ask_def assms(6))
  qed
  then show ?thesis using m(4) by blast
qed

definition demo_filter :: dgram where
  "demo_filter = \<lparr>dg_bytes = nl_header (36 + length (body [(1 :: u16, str_bpf), (2, body [(11, le_enc 4 (77 :: u32))])])) 44 8 100 7 @
     (replicate 8 0 @ le_enc 4 (1 :: u32) @ replicate 4 0 @ le_enc 4 (0x50300 :: u32)) @ body [(1, str_bpf), (2, body [(11, le_enc 4 (77 :: u32))])],
     dg_peek_errs = [EINTR], dg_recv_errs = [], dg_realloc = True\<rparr>"

definition demo_tc :: nl_sys where
  "demo_tc = demo_nl\<lparr>ns_answer := (\<lambda>proto msg. [demo_filter,
     \<lparr>dg_bytes = ack_msg 7 100 0 0 msg [], dg_peek_errs = [], dg_recv_errs = [], dg_realloc = True\<rparr>])\<rparr>"

definition demo_hook :: bpf_tc_hook where
  "demo_hook = \<lparr>o_sz = 24, o_tail_zero = True, hk_ifindex = 3, hk_attach_point = BPF_TC_INGRESS, hk_parent = 0\<rparr>"

definition demo_opts :: bpf_tc_opts where
  "demo_opts = \<lparr>o_sz = 32, o_tail_zero = True, to_prog_fd = 9, to_flags = 0, to_prog_id = 0, to_handle = 1, to_priority = 5\<rparr>"

theorem tc_attach_acknowledged_witness:
  "\<exists>msg. tc_request_says msg 16 100 0x60D 3 1 0xFFFFFFF2 0x50300 9 (tc_name [120, 100, 112] 77) \<and>
    bpf_tc_attach demo_tc 16 (\<lambda>fd. Inr ([120, 100, 112], 77)) (Some demo_hook) (Some demo_opts) \<lparr>nw_fds = 4, nw_heap = 2, nw_sent = []\<rparr> =
      Ret (0, Some (demo_opts\<lparr>to_prog_id := 77\<rparr>), \<lparr>nw_fds = 4, nw_heap = 2, nw_sent = [(0, msg)]\<rparr>)"
proof -
  have a: "tc_args_ok demo_hook demo_opts 0xFFFFFFF2"
    by (simp add: tc_args_ok_def demo_hook_def demo_opts_def tc_get_tcm_parent_def TC_H_MAKE_def)
  have n: "nl_works demo_tc" "100 = of_int (ns_time demo_tc)" by (simp_all add: demo_tc_def demo_nl_def nl_works_def)
  have f: "filter_answer 7 100 demo_filter 77 1 0x50300"
    unfolding filter_answer_def
    by (intro conjI exI [of _ "[(1, str_bpf), (2, body [(11, le_enc 4 (77 :: u32))])]"] exI [of _ "[(11, le_enc 4 (77 :: u32))]"] exI [of _ 44] exI [of _ 8]
        exI [of _ "replicate 8 0"] exI [of _ "replicate 4 0"])
      (simp_all add: demo_filter_def dg_ok_def attr_key_def NLA_TYPE_MASK_def align4_def str_bpf_def)
  have v: "tc_flags (to_flags demo_opts) = 0x60D" "TC_H_MAKE (push_bit 16 (to_priority demo_opts)) all_protocols = 0x50300"
      "told 77 1 0x50300 demo_opts = demo_opts\<lparr>to_prog_id := 77\<rparr>" "hk_ifindex demo_hook = 3" "to_handle demo_opts = 1" "to_prog_fd demo_opts = 9"
    by (simp_all add: tc_flags_def demo_opts_def TC_H_MAKE_def all_protocols_def told_def TC_H_MAJ_def demo_hook_def push_bit_eq_mult)
  obtain msg where m: "tc_request_says msg 16 100 0x60D 3 1 0xFFFFFFF2 0x50300 9 (tc_name [120, 100, 112] 77)"
      "\<And>d d2 i' hnd tinfo fl rest. ns_answer demo_tc NETLINK_ROUTE msg = [d, d2] \<Longrightarrow> filter_answer (ns_pid demo_tc) 100 d i' hnd tinfo \<Longrightarrow> dg_ok d2 \<Longrightarrow>
       dg_bytes d2 = ack_msg (ns_pid demo_tc) 100 fl 0 msg rest \<Longrightarrow> fl AND NLM_F_MULTI = 0 \<Longrightarrow> length rest < 2 ^ 31 - 36 \<Longrightarrow>
       bpf_tc_attach demo_tc 16 (\<lambda>fd. Inr ([120, 100, 112], 77)) (Some demo_hook) (Some demo_opts) \<lparr>nw_fds = 4, nw_heap = 2, nw_sent = []\<rparr> =
         Ret (0, Some (told i' hnd tinfo demo_opts), \<lparr>nw_fds = 4, nw_heap = 2, nw_sent = []\<rparr>\<lparr>nw_sent := [] @ [(NETLINK_ROUTE, msg)]\<rparr>)"
    using tc_attach_acknowledged [where prog_info = "\<lambda>fd. Inr ([120, 100, 112], 77)" and name = "[120, 100, 112]" and i = 77 and
        w = "\<lparr>nw_fds = 4, nw_heap = 2, nw_sent = []\<rparr>", OF a refl _ n(1) _ n(2), of 16] unfolding v
    by auto
  have "bpf_tc_attach demo_tc 16 (\<lambda>fd. Inr ([120, 100, 112], 77)) (Some demo_hook) (Some demo_opts) \<lparr>nw_fds = 4, nw_heap = 2, nw_sent = []\<rparr> =
      Ret (0, Some (told 77 1 0x50300 demo_opts), \<lparr>nw_fds = 4, nw_heap = 2, nw_sent = []\<rparr>\<lparr>nw_sent := [] @ [(NETLINK_ROUTE, msg)]\<rparr>)"
    using f by (intro m(2) [of demo_filter "\<lparr>dg_bytes = ack_msg 7 100 0 0 msg [], dg_peek_errs = [], dg_recv_errs = [], dg_realloc = True\<rparr>" 77 1 "0x50300" 0 "[]"]) (simp_all add: demo_tc_def demo_nl_def dg_ok_def)
  then show ?thesis using m(1) by (auto simp: v(3))
qed

subsection \<open>No call leaks\<close>

lemma tc_send_balanced: "tc_send sys req w = Ret (r, w') \<Longrightarrow> same_res w w'"
  by (auto simp: tc_send_def split: outcome.splits prod.splits dest: send_recv_balanced)

lemma tc_qdisc_balanced: "tc_qdisc_modify sys hook cmd fl w = Ret (r, w') \<Longrightarrow> same_res w w'"
  by (auto simp: tc_qdisc_modify_def Let_def split: if_split_asm option.splits prod.splits dest: tc_send_balanced)

lemma tc_detach_balanced: "tc_detach sys hook opts flush w = Ret (r, w') \<Longrightarrow> same_res w w'"
  unfolding tc_detach_def Let_def by (auto split: if_split_asm option.splits prod.splits dest: tc_send_balanced)

lemma tc_ask_balanced: "tc_ask sys tca_max req opts w = Ret (r, p, w') \<Longrightarrow> same_res w w'"
  by (auto simp: tc_ask_def Let_def split: outcome.splits prod.splits if_split_asm dest: send_recv_balanced)

lemma tc_attach_balanced: "bpf_tc_attach sys tca_max prog_info hook opts w = Ret (r, p, w') \<Longrightarrow> same_res w w'"
  unfolding bpf_tc_attach_def Let_def by (auto split: if_split_asm option.splits prod.splits dest: tc_ask_balanced)

lemma tc_query_balanced: "bpf_tc_query sys tca_max hook opts w = Ret (r, p, w') \<Longrightarrow> same_res w w'"
  unfolding bpf_tc_query_def Let_def by (auto split: if_split_asm option.splits prod.splits dest: tc_ask_balanced)

text \<open>The calls of the library that use netlink, and sequences of them; each call meets a kernel of its own.\<close>

datatype nl_call =
  XdpAttach nl_sys int int u32 "bpf_xdp_attach_opts option"
| XdpDetach nl_sys int u32 "bpf_xdp_attach_opts option"
| XdpQuery nl_sys nl_sys nl_sys u16 int u32 "bpf_xdp_query_opts option"
| XdpQueryId nl_sys nl_sys nl_sys u16 int u32
| TcHookCreate nl_sys "bpf_tc_hook option"
| TcHookDestroy nl_sys "bpf_tc_hook option"
| TcAttach nl_sys nat "int \<Rightarrow> int + u8 list \<times> u32" "bpf_tc_hook option" "bpf_tc_opts option"
| TcDetach nl_sys "bpf_tc_hook option" "bpf_tc_opts option"
| TcQuery nl_sys nat "bpf_tc_hook option" "bpf_tc_opts option"

fun world_of :: "('a \<times> nl_world) outcome \<Rightarrow> nl_world outcome" where
  "world_of (Ret (r, w)) = Ret w"
| "world_of Fault = Fault"
| "world_of Waits = Waits"

fun world_of2 :: "('a \<times> 'b \<times> nl_world) outcome \<Rightarrow> nl_world outcome" where
  "world_of2 (Ret (r, x, w)) = Ret w"
| "world_of2 Fault = Fault"
| "world_of2 Waits = Waits"

fun nl_run :: "nl_call \<Rightarrow> nl_world \<Rightarrow> nl_world outcome" where
  "nl_run (XdpAttach sys ifindex fd flags opts) w = world_of (bpf_xdp_attach sys ifindex fd flags opts w)"
| "nl_run (XdpDetach sys ifindex flags opts) w = world_of (bpf_xdp_detach sys ifindex flags opts w)"
| "nl_run (XdpQuery sys0 sys1 sys2 i0 ifindex flags opts) w = world_of2 (bpf_xdp_query sys0 sys1 sys2 i0 ifindex flags opts w)"
| "nl_run (XdpQueryId sys0 sys1 sys2 i0 ifindex flags) w = world_of2 (bpf_xdp_query_id sys0 sys1 sys2 i0 ifindex flags w)"
| "nl_run (TcHookCreate sys hook) w = world_of (bpf_tc_hook_create sys hook w)"
| "nl_run (TcHookDestroy sys hook) w = world_of (bpf_tc_hook_destroy sys hook w)"
| "nl_run (TcAttach sys tca_max prog_info hook opts) w = world_of2 (bpf_tc_attach sys tca_max prog_info hook opts w)"
| "nl_run (TcDetach sys hook opts) w = world_of (bpf_tc_detach sys hook opts w)"
| "nl_run (TcQuery sys tca_max hook opts) w = world_of2 (bpf_tc_query sys tca_max hook opts w)"

fun nl_runs :: "nl_call list \<Rightarrow> nl_world \<Rightarrow> nl_world outcome" where
  "nl_runs [] w = Ret w"
| "nl_runs (c # cs) w = (case nl_run c w of Ret w \<Rightarrow> nl_runs cs w | Fault \<Rightarrow> Fault | Waits \<Rightarrow> Waits)"

lemma world_of_Ret: "world_of x = Ret w' \<longleftrightarrow> (\<exists>r. x = Ret (r, w'))"
  by (cases x rule: world_of.cases) auto

lemma world_of2_Ret: "world_of2 x = Ret w' \<longleftrightarrow> (\<exists>r y. x = Ret (r, y, w'))"
  by (cases x rule: world_of2.cases) auto

lemma xdp_attach_balanced: "bpf_xdp_attach sys ifindex fd flags opts w = Ret (r, w') \<Longrightarrow> same_res w w'"
  by (auto simp: bpf_xdp_attach_def Let_def split: if_split_asm dest: set_link_balanced)

lemma xdp_query_id_balanced: "bpf_xdp_query_id sys0 sys1 sys2 i0 ifindex flags w = Ret (r, x, w') \<Longrightarrow> same_res w w'"
  by (auto simp: bpf_xdp_query_id_def Let_def split: outcome.splits prod.splits option.splits if_split_asm dest: query_balanced)

lemma hook_create_balanced: "bpf_tc_hook_create sys hook w = Ret (r, w') \<Longrightarrow> same_res w w'"
  by (auto simp: bpf_tc_hook_create_def tc_qdisc_create_excl_def split: option.splits if_split_asm dest: tc_qdisc_balanced)

lemma hook_destroy_balanced: "bpf_tc_hook_destroy sys hook w = Ret (r, w') \<Longrightarrow> same_res w w'"
  by (auto simp: bpf_tc_hook_destroy_def tc_qdisc_delete_def Let_def split: option.splits if_split_asm dest: tc_qdisc_balanced tc_detach_balanced)

lemma nl_run_balanced: "nl_run c w = Ret w' \<Longrightarrow> same_res w w'"
  by (cases c) (auto simp: world_of_Ret world_of2_Ret bpf_xdp_detach_def bpf_tc_detach_def split: if_split_asm
    dest: xdp_attach_balanced query_balanced xdp_query_id_balanced hook_create_balanced hook_destroy_balanced tc_attach_balanced
      tc_detach_balanced tc_query_balanced)

text \<open>
  C19. No call leaks a socket or a buffer. Whatever calls are made in whatever order, and whatever the kernel does in each of them (system
  calls that fail at any step, answers of any content), as many sockets are open and as many buffers allocated afterwards as before.
\<close>

theorem netlink_calls_balanced: "nl_runs cs w = Ret w' \<Longrightarrow> nw_fds w' = nw_fds w \<and> nw_heap w' = nw_heap w"
proof (induction cs arbitrary: w)
  case (Cons c cs)
  then obtain w1 where "nl_run c w = Ret w1" "nl_runs cs w1 = Ret w'" by (auto split: outcome.split_asm)
  then show ?case using Cons.IH nl_run_balanced by metis
qed simp

theorem netlink_calls_balanced_witness:
  "\<exists>w'. nl_runs [XdpAttach (demo_nl\<lparr>ns_bind := Some 98\<rparr>) 3 5 2 None, XdpDetach (demo_nl\<lparr>ns_send := Some 105\<rparr>) 3 2 None, TcHookCreate demo_nl None]
      \<lparr>nw_fds = 4, nw_heap = 2, nw_sent = []\<rparr> = Ret w' \<and> nw_fds w' = 4 \<and> nw_heap w' = 2"
proof -
  have "nl_runs [XdpAttach (demo_nl\<lparr>ns_bind := Some 98\<rparr>) 3 5 2 None, XdpDetach (demo_nl\<lparr>ns_send := Some 105\<rparr>) 3 2 None,
      TcHookCreate demo_nl None] \<lparr>nw_fds = 4, nw_heap = 2, nw_sent = []\<rparr> = Ret \<lparr>nw_fds = 4, nw_heap = 2, nw_sent = []\<rparr>"
    by code_simp
  then show ?thesis using netlink_calls_balanced by fastforce
qed

end
