(* ===== verification/Spec2Isabelle.thy ===== *)
theory Spec2Isabelle
  imports Rewrite_Helpers Xdp_Stats Xdp_Echo Xsk_Ring Xdp_User Xdp_Filter Libbpf_Strset Common_Libbpf
    Libbpf_Ringbuf Libbpf_Ringbuf_Setup Echo_Client Xsk_Umem Libbpf_Zip Libbpf_Tc
begin

text \<open>
  Verification of the kernel-bypass networking repository: XDP programs that answer packets in the
  driver, a UDP echo server and a client to compare them with, the loader that attaches XDP
  programs, and the parts of the vendored libraries (libxdp and libbpf) these rest on. File names
  are relative to \<open>src/src\<close>.

  \<^bold>\<open>The program and its parts.\<close> A packet reaches an XDP program as a piece of memory between two
  pointers. The echo programs (\<open>xdp/xdp_echo_kern.c\<close>, \<open>xdp/xdp_icmp_echo.c\<close>) exchange the
  addresses and send it back. \<open>common/parsing_helpers.h\<close>, \<open>common/rewrite_helpers.h\<close> and
  \<open>common/xdp_stats_kern.h\<close> are the library such programs use. \<open>xdp/xdp_pass_user.c\<close> parses a
  command line (\<open>common/common_params.c\<close>) and attaches or detaches programs
  (\<open>common/common_user_bpf_xdp.c\<close>) through libxdp, which puts several programs behind a
  dispatcher; \<open>common/common_libbpf.c\<close> loads an object whose maps are pinned. AF_XDP sockets exchange
  descriptors with the kernel over rings (\<open>xsk.h\<close>). libbpf brings a hash map, a set of
  strings, ring buffers, a reader for zip archives, and the netlink sockets programs are attached over. \<open>server.c\<close> and \<open>echocli.c\<close> are the comparison in user space.

  \<^bold>\<open>Conventions.\<close> Machine integers are words of their width, wherever the code can see the
  width. A function that can access memory out of bounds, follow a null pointer or read
  freed memory returns an option, and \<open>None\<close> is that behaviour; other failures are the error
  numbers of the code. Code outside of the sources (system calls, the kernel, the allocator,
  \<open>qsort\<close>, the libbpf functions that load objects) is an argument of the definitions that
  call it, with what is relied upon as hypotheses; each theorem with hypotheses is followed by a
  use of it at a concrete input. Structures are little-endian in memory, and pointers and
  \<open>long\<close> have 64 bits.

  \<^bold>\<open>Theories.\<close>

  \<^item> \<open>Kbn_Prelude\<close>: word types, segments of lists and overwriting them, little-endian encoding; the
    collections \<open>segs\<close>, \<open>endian\<close> and \<open>mem_simps\<close>. \<open>C_Runtime\<close>: error numbers, error pointers, string
    comparison, sorting (locale \<open>three_way\<close>). \<open>Bpf_Endian\<close>: \<open>bpf_endian.h\<close>; the portable and the builtin
    byte swaps agree.
  \<^item> \<open>Xdp_Packet\<close>: the packet memory (\<open>xdp_md\<close>), bounds-checked loads and stores, and the
    interface of an XDP program (locale \<open>xdp_program\<close>).
  \<^item> \<open>Parsing_Helpers\<close>: one definition per parser. The locale \<open>hdr_parser\<close> is what a
    program relies on (it returns, it keeps the cursor in the packet, a header it hands out is in
    the packet); it is interpreted for every parser. The functional theorems give the exact
    accepted packets of \<open>parse_iphdr\<close> and that a frame with VLAN tags is parsed back.
  \<^item> \<open>Rewrite_Helpers\<close>: pushing and popping VLAN tags, where \<open>bpf_xdp_adjust_head\<close> moves the start of
    the packet or fails, and exchanging addresses. \<open>Xdp_Stats\<close>: the counters, modulo 2 to the 64.
  \<^item> \<open>Xdp_Echo\<close>: both echo programs, with the verdict and all bytes of the result for every packet,
    safety for any packet, and what is wrong with the checksums they send.
  \<^item> \<open>Xdp_Filter\<close>: the filter program of xdp-tools and its parsers (locale \<open>hdr_reader\<close>, a
    consequence of \<open>hdr_parser\<close>): safety, and the order in which its rules decide.
  \<^item> \<open>Xsk_Ring\<close>: the rings of AF_XDP. The state has both sides' private copies of the
    indices and the shared memory; the steps of both sides interleave in any order (a list of
    operations), the indices wrap. The locale \<open>fifo_channel\<close> turns the invariant and the
    refinement of a bounded queue into delivery in order, without loss. \<open>Xsk_Umem\<close>: packet memory and the
    sockets that share it (\<open>xsk.c\<close>): what is mapped, open and allocated, and the reference counts, after any
    sequence of creations that may fail and deletions.
  \<^item> \<open>Libxdp_Prog\<close>: programs, their order, the choice of the programs of a new dispatcher, its
    configuration, and the dispatcher itself; \<open>Libxdp_Attach\<close>: attaching, detaching and querying, with
    the count of the objects that are open; leaks are theorems about that count.
  \<^item> \<open>Common_Params\<close>: \<open>getopt_long\<close>, the option table and the parser, with a round trip from
    settings to command lines and back; \<open>Xdp_User\<close>: the loader and \<open>main\<close> of \<open>xdp_pass_user\<close>;
    \<open>Common_Libbpf\<close>: loading with pinned maps.
  \<^item> \<open>Libbpf_Hashmap\<close>: the hash map, with collisions, growth and failing allocations, refines a
    finite map (locale \<open>hash_contract\<close>: equal keys have equal hashes); \<open>Libbpf_Strset\<close>: the
    set of strings on top of it, where keys are offsets into an array that moves.
  \<^item> \<open>Libbpf_Ringbuf\<close>: the consumer of the kernel's ring buffer refines a fold over records, while the
    kernel adds records; the producer of the user ring buffer keeps the records it has not been
    asked to change; waiting for room ends. \<open>Libbpf_Ringbuf_Setup\<close>: creating and freeing both leaks nothing.
  \<^item> \<open>Libbpf_Zip\<close>: zip archives (\<open>zip.c\<close>): no file makes the reader leave the mapping, and the members of an archive are
    found. \<open>Libbpf_Nlattr\<close>: netlink attributes (\<open>nlattr.c\<close>): parsing stays in the stream whatever it contains, and reads back
    what was written, nested attributes included. \<open>Libbpf_Netlink\<close>: netlink sockets and the loop over answers, and attaching and querying XDP
    programs over them; \<open>Libbpf_Tc\<close>: the same for traffic control (\<open>netlink.c\<close>). The theorems say what the requests contain, what
    is made of the answers, and that no call leaks, for any behaviour of the kernel.
  \<^item> \<open>Echo_Server\<close>, \<open>Echo_Client\<close>: \<open>server.c\<close> and \<open>echocli.c\<close>. This theory compares the server with
    the XDP program.

  \<^bold>\<open>Loops and bounds.\<close> The loops over headers are unrolled by the compiler and bounded by
  \<open>VLAN_MAX_DEPTH\<close> (2, and 4 in xdp-tools), and \<open>IPV6_EXT_MAX_CHAIN\<close> (6); the model has these bounds. The
  retries of libxdp are bounded by \<open>MAX_RETRY\<close> (10), and the recursion of the model counts
  them. \<open>getopt_long\<close> and the loops over lists are structural or come
  with a measure. Three loops may run for ever, and are partial functions into an option: the two
  loops of \<open>ringbuf_process_ring\<close> and the one of \<open>user_ring_buffer__reserve_blocking\<close>; the theorems about
  them show that they return, and under which conditions on the other side. Reading netlink answers may wait for ever, which is a value (\<open>Waits\<close>) of the
  outcome. The server's endless
  loop is a function of the list of what it receives, and a client that waits for ever is a
  value of its own (\<open>Blocked\<close>). No definition has fuel.

  \<^bold>\<open>Not modelled.\<close> The kernel, the BPF verifier and the compiler. Reading object files, BTF and
  relocations (most of libbpf and a part of libxdp): they are parsers of formats that the programs of
  this repository do not depend on for their behaviour, and only reached through calls that are
  parameters here. The command-line
  tools of xdp-tools other than the filter program, which this repository does not use. The times the
  client measures, which are floating-point numbers that are only printed, and all text that is printed.
\<close>

section \<open>The two echo servers\<close>




end
